(* ===== verification/BB_Prelude.thy ===== *)
theory BB_Prelude
  imports Main "HOL-Library.Word" "HOL-Library.List_Lexorder" "HOL-Library.Char_ord"
begin

text \<open>
  The vocabulary all components share: machine integers, gRPC status codes and Go error
  values, virtual file system status codes, and the generic facts on lists, words and options
  the component theories rely on.

  Errors of the packages outside the repository (\<^verbatim>\<open>util.StatusWrap\<close>, \<^verbatim>\<open>status.Errorf\<close>) are
  free constructors: an error value records which call made it, with the format string and
  its arguments, and nothing is assumed about how the message is rendered.
\<close>

named_theorems go_std \<open>facts about the modelled parts of the Go standard library\<close>
named_theorems go_split \<open>case splits over results, options and sums\<close>

section \<open>Machine integers\<close>

type_synonym byte = "8 word"
type_synonym bytes = "byte list"
type_synonym uint32 = "32 word"
type_synonym uint64 = "64 word"

text \<open>
  Go's \<^verbatim>\<open>int64\<close> and \<^verbatim>\<open>int32\<close> values are integers in the signed range; an operation
  that may leave it is followed by the wrap-around \<open>to_int64\<close> or \<open>to_int32\<close>.
\<close>

definition to_int64 :: "int \<Rightarrow> int" where
  "to_int64 x = signed_take_bit 63 x"

definition to_int32 :: "int \<Rightarrow> int" where
  "to_int32 x = signed_take_bit 31 x"

definition int64_range :: "int \<Rightarrow> bool" where
  "int64_range x \<longleftrightarrow> - (2 ^ 63) \<le> x \<and> x < 2 ^ 63"

lemma to_int64_id [simp]: "- (2 ^ 63) \<le> x \<Longrightarrow> x < 2 ^ 63 \<Longrightarrow> to_int64 x = x"
  unfolding to_int64_def by (rule signed_take_bit_int_eq_self) simp_all

lemma to_int32_id [simp]: "- (2 ^ 31) \<le> x \<Longrightarrow> x < 2 ^ 31 \<Longrightarrow> to_int32 x = x"
  unfolding to_int32_def by (rule signed_take_bit_int_eq_self) simp_all

lemma to_int64_bounds: "- (2 ^ 63) \<le> to_int64 x" "to_int64 x < 2 ^ 63"
  unfolding to_int64_def
  using signed_take_bit_int_greater_eq_minus_exp [of 63 x] signed_take_bit_int_less_exp [of 63 x]
  by simp_all

lemma sint_of_nat64:
  assumes "n < 2 ^ 63"
  shows "sint (word_of_nat n :: uint64) = int n"
proof -
  have "uint (word_of_nat n :: uint64) = int n"
    using assms by (simp add: unsigned_of_nat take_bit_nat_eq_self)
  then show ?thesis using assms by (simp add: sint_uint signed_take_bit_int_eq_self)
qed

lemma unat_of_nat64 [simp]: "n < 2 ^ 64 \<Longrightarrow> unat (word_of_nat n :: uint64) = n"
  by (simp add: unsigned_of_nat take_bit_nat_eq_self)

lemma unat_of_nat64_le: "unat (word_of_nat n :: uint64) \<le> n"
  by (simp add: unsigned_of_nat take_bit_nat_less_eq_self)

lemma less_of_nat64: "(x :: uint64) < word_of_nat n \<Longrightarrow> unat x < n"
  using unat_of_nat64_le [of n] by (simp add: word_less_nat_alt)

section \<open>Errors\<close>

datatype code = OK | Canceled | Unknown | InvalidArgument | DeadlineExceeded | NotFound
  | AlreadyExists | PermissionDenied | ResourceExhausted | FailedPrecondition | Aborted
  | OutOfRange | Unimplemented | Internal | Unavailable | DataLoss | Unauthenticated

datatype errno = ENOENT | ENOTDIR | EEXIST | EIO_errno

datatype fmt_arg = FStr string | FInt int | FPath "string list"

text \<open>
  \<open>Status\<close> is \<^verbatim>\<open>status.Error(f)\<close>, \<open>StatusWrap\<close> is \<^verbatim>\<open>util.StatusWrap(f)\<close> and
  \<open>StatusWrapWithCode\<close> is \<^verbatim>\<open>util.StatusWrapWithCode\<close>; \<open>StatusText\<close> is
  \<^verbatim>\<open>status.Error(code, err.Error())\<close>. \<open>StatusWrap\<close> takes the
  wrapped error as an option, because Go lets the code pass a nil error to it.
  \<open>FPath\<close> is an argument \<^verbatim>\<open>trace.GetUNIXString()\<close> of the path with the given components.
  \<open>Foreign\<close> stands for the errors of other packages.
\<close>

datatype go_error =
    Status code string "fmt_arg list"
  | StatusWrap "go_error option" string "fmt_arg list"
  | StatusWrapWithCode go_error code string
  | StatusText code go_error
  | Errno errno
  | EOF
  | ErrUnexpectedEOF
  | ErrShortWrite
  | ErrVarintOverflow
  | Foreign string

type_synonym 'a result = "go_error + 'a"

section \<open>Outcomes of a call\<close>

text \<open>
  A call returns, panics, or runs forever. Only code that can do the latter two has this type.
\<close>

datatype 'a exec = Returns 'a | Panics string | Diverges

fun exec_bind :: "'a exec \<Rightarrow> ('a \<Rightarrow> 'b exec) \<Rightarrow> 'b exec" where
  "exec_bind (Returns x) f = f x"
| "exec_bind (Panics msg) f = Panics msg"
| "exec_bind Diverges f = Diverges"

text \<open>The common shape \<^verbatim>\<open>x, err := call(); if err != nil { return wrap(err) }\<close>.\<close>

definition exec_try :: "'a result exec \<Rightarrow> (go_error \<Rightarrow> 'c) \<Rightarrow> ('a \<Rightarrow> 'c exec) \<Rightarrow> 'c exec" where
  "exec_try m h f = exec_bind m (\<lambda>r. case r of Inl e \<Rightarrow> Returns (h e) | Inr x \<Rightarrow> f x)"

fun exec_of_option :: "'a option \<Rightarrow> 'a exec" where
  "exec_of_option None = Diverges"
| "exec_of_option (Some x) = Returns x"

lemma exec_bind_Returns_iff [simp]:
  "exec_bind m f = Returns y \<longleftrightarrow> (\<exists>x. m = Returns x \<and> f x = Returns y)"
  by (cases m) auto

lemma exec_try_simps [simp]:
  "exec_try (Returns (Inl e)) h f = Returns (h e)"
  "exec_try (Returns (Inr x)) h f = f x"
  "exec_try (Panics msg) h f = Panics msg"
  "exec_try Diverges h f = Diverges"
  by (simp_all add: exec_try_def)

lemma exec_try_Returns_Inr:
  "exec_try m (\<lambda>e. Inl (g e)) f = Returns (Inr y) \<longleftrightarrow> (\<exists>x. m = Returns (Inr x) \<and> f x = Returns (Inr y))"
  by (auto simp: exec_try_def split: sum.splits) (metis sum.exhaust)

lemma case_sum_Returns_Inr:
  "(case r of Inl e \<Rightarrow> Returns (Inl (g e)) | Inr x \<Rightarrow> Returns (Inr (h x))) = Returns (Inr y) \<longleftrightarrow>
   (\<exists>x. r = Inr x \<and> y = h x)"
  by (cases r) auto

lemma case_sum_Returns_Inr_state:
  "(case r of Inl e \<Rightarrow> Returns (Inl (g e), s) | Inr x \<Rightarrow> f x) = Returns (Inr y, s') \<longleftrightarrow>
   (\<exists>x. r = Inr x \<and> f x = Returns (Inr y, s'))"
  by (cases r) auto

lemma exec_of_option_Returns [simp]: "exec_of_option m = Returns x \<longleftrightarrow> m = Some x"
  by (cases m) auto

section \<open>Virtual file system status codes\<close>

text \<open>The values of \<^verbatim>\<open>virtual.Status\<close> the repository names.\<close>

datatype vstatus = StatusOK | StatusErrAccess | StatusErrBadHandle | StatusErrExist | StatusErrIO
  | StatusErrIsDir | StatusErrNoEnt | StatusErrNotDir | StatusErrNXIO | StatusErrPerm
  | StatusErrSymlink | StatusErrWrongType

section \<open>Lists\<close>

lemma nth_sorted_wrt_less_iff:
  assumes "sorted_wrt (<) (xs :: 'a :: linorder list)" "i < length xs" "j < length xs"
  shows "xs ! i < xs ! j \<longleftrightarrow> i < j"
proof
  assume lt: "xs ! i < xs ! j"
  show "i < j"
  proof (rule ccontr)
    assume "\<not> i < j"
    then have "j = i \<or> j < i" by auto
    with assms lt sorted_wrt_nth_less [OF assms(1), of j i] show False by auto
  qed
next
  assume "i < j"
  with assms show "xs ! i < xs ! j" by (simp add: sorted_wrt_nth_less)
qed

lemma nth_sorted_wrt_less_eq_iff:
  assumes "sorted_wrt (<) (xs :: 'a :: linorder list)" "i < length xs" "j < length xs"
  shows "xs ! i \<le> xs ! j \<longleftrightarrow> i \<le> j"
  using nth_sorted_wrt_less_iff [OF assms(1,3,2)] by (meson linorder_not_less)

lemma take_drop_splice:
  "off + length p \<le> length xs \<Longrightarrow>
   take (length p) (drop off (take off xs @ p @ drop (off + length p) xs)) = p"
  by simp

lemmas [go_split] = exec.splits option.splits sum.splits prod.splits if_splits

end
