(* ===== verification/Go_Std.thy ===== *)
theory Go_Std
  imports BB_Prelude
begin

unbundle bit_operations_syntax

text \<open>
  The functions of the Go standard library the repository calls: \<^verbatim>\<open>sort.Search\<close>,
  \<^verbatim>\<open>binary.PutUvarint\<close> and \<^verbatim>\<open>binary.ReadUvarint\<close>, the little-endian codecs.
  Each is written as the library's loop and proved against what its documentation says.
\<close>

section \<open>sort.Search\<close>

function sort_Search_loop :: "(nat \<Rightarrow> bool) \<Rightarrow> nat \<Rightarrow> nat \<Rightarrow> nat" where
  "sort_Search_loop f i j =
     (if i < j
      then let h = (i + j) div 2
           in if \<not> f h then sort_Search_loop f (h + 1) j else sort_Search_loop f i h
      else i)"
  by pat_completeness auto
termination
  by (relation "measure (\<lambda>(f, i, j). j - i)") auto

declare sort_Search_loop.simps [simp del]

definition sort_Search :: "nat \<Rightarrow> (nat \<Rightarrow> bool) \<Rightarrow> nat" where
  "sort_Search n f = sort_Search_loop f 0 n"

lemma sort_Search_loop_spec:
  assumes "\<forall>a b. a \<le> b \<longrightarrow> b < n \<longrightarrow> f a \<longrightarrow> f b"
    and "i \<le> j" "j \<le> n" "\<forall>k < i. \<not> f k" "\<forall>k. j \<le> k \<longrightarrow> k < n \<longrightarrow> f k"
  shows "sort_Search_loop f i j \<le> n \<and> (\<forall>k < sort_Search_loop f i j. \<not> f k) \<and>
    (\<forall>k. sort_Search_loop f i j \<le> k \<longrightarrow> k < n \<longrightarrow> f k)"
  using assms
proof (induction f i j rule: sort_Search_loop.induct)
  case (1 f i j)
  show ?case
  proof (cases "i < j")
    case False
    then have "sort_Search_loop f i j = i" by (simp add: sort_Search_loop.simps [of f i j])
    moreover have "i = j" using False \<open>i \<le> j\<close> by simp
    ultimately show ?thesis using 1(5-7) by auto
  next
    case True
    define h where "h = (i + j) div 2"
    have h: "i \<le> h" "h < j" using True by (auto simp: h_def)
    then have "h \<le> n" "h + 1 \<le> j" using \<open>j \<le> n\<close> by auto
    show ?thesis
    proof (cases "f h")
      case fh: True
      have eq: "sort_Search_loop f i j = sort_Search_loop f i h"
        using True fh by (simp add: sort_Search_loop.simps [of f i j] Let_def flip: h_def)
      have above: "\<forall>k. h \<le> k \<longrightarrow> k < n \<longrightarrow> f k" using 1(3) fh by blast
      show ?thesis unfolding eq
        by (rule 1(2) [OF True h_def _ 1(3) h(1) \<open>h \<le> n\<close> 1(6) above]) (simp add: fh)
    next
      case fh: False
      have eq: "sort_Search_loop f i j = sort_Search_loop f (h + 1) j"
        using True fh by (simp add: sort_Search_loop.simps [of f i j] Let_def flip: h_def)
      have below: "\<forall>k < h + 1. \<not> f k"
        using 1(3) h \<open>j \<le> n\<close> fh by (metis Suc_eq_plus1 less_Suc_eq_le order.strict_trans2)
      show ?thesis unfolding eq
        by (rule 1(1) [OF True h_def fh 1(3) \<open>h + 1 \<le> j\<close> \<open>j \<le> n\<close> below 1(7)])
    qed
  qed
qed

lemma sort_Search_spec:
  assumes "\<And>a b. a \<le> b \<Longrightarrow> b < n \<Longrightarrow> f a \<Longrightarrow> f b"
  shows "sort_Search n f \<le> n"
    and "k < sort_Search n f \<Longrightarrow> \<not> f k"
    and "sort_Search n f \<le> k \<Longrightarrow> k < n \<Longrightarrow> f k"
  using sort_Search_loop_spec [of n f 0 n] assms unfolding sort_Search_def by auto

text \<open>
  The idiom of the CAS directory: search for a name, then check that the entry found has it.
\<close>

definition search_name :: "('e \<Rightarrow> string) \<Rightarrow> 'e list \<Rightarrow> string \<Rightarrow> nat option" where
  "search_name nm xs n =
     (let i = sort_Search (length xs) (\<lambda>i. nm (xs ! i) \<ge> n)
      in if i < length xs \<and> nm (xs ! i) = n then Some i else None)"

definition names_sorted :: "('e \<Rightarrow> string) \<Rightarrow> 'e list \<Rightarrow> bool" where
  "names_sorted nm xs \<longleftrightarrow> sorted_wrt (<) (map nm xs)"

lemma search_name_sound:
  "search_name nm xs n = Some i \<Longrightarrow> i < length xs \<and> nm (xs ! i) = n"
  by (auto simp: search_name_def Let_def split: if_splits)

lemma search_name_complete:
  assumes srt: "names_sorted nm xs" and i: "i < length xs"
  shows "search_name nm xs (nm (xs ! i)) = Some i"
proof -
  let ?n = "nm (xs ! i)"
  let ?f = "\<lambda>j. nm (xs ! j) \<ge> ?n"
  have le: "nm (xs ! a) \<le> nm (xs ! b) \<longleftrightarrow> a \<le> b" if "a < length xs" "b < length xs" for a b
    using nth_sorted_wrt_less_eq_iff [of "map nm xs" a b] srt that by (simp add: names_sorted_def)
  have mono: "\<And>a b. a \<le> b \<Longrightarrow> b < length xs \<Longrightarrow> ?f a \<Longrightarrow> ?f b"
    by (metis le order.trans order.strict_trans1)
  note spec = sort_Search_spec [of "length xs" ?f, OF mono, simplified]
  define r where "r = sort_Search (length xs) ?f"
  have "\<not> r < i"
    using spec(3) [where k = r] le [of i r] i unfolding r_def by auto
  moreover have "\<not> i < r"
    using spec(2) [where k = i] unfolding r_def by auto
  ultimately have "r = i" by simp
  then show ?thesis using i by (simp add: search_name_def Let_def flip: r_def)
qed

lemma search_name_iff [go_std]:
  assumes "names_sorted nm xs"
  shows "search_name nm xs n = Some i \<longleftrightarrow> i < length xs \<and> nm (xs ! i) = n"
  using search_name_sound search_name_complete [OF assms] by metis

lemma search_name_None [go_std]:
  assumes "names_sorted nm xs"
  shows "search_name nm xs n = None \<longleftrightarrow> n \<notin> nm ` set xs"
proof
  assume "search_name nm xs n = None"
  then show "n \<notin> nm ` set xs"
    using search_name_complete [OF assms] by (auto simp: in_set_conv_nth)
next
  assume "n \<notin> nm ` set xs"
  then show "search_name nm xs n = None"
    using search_name_sound [of nm xs n] by (cases "search_name nm xs n") force+
qed

section \<open>encoding/binary: variable-length integers\<close>

function PutUvarint :: "uint64 \<Rightarrow> bytes" where
  "PutUvarint x =
     (if x \<ge> 0x80 then (ucast x OR 0x80) # PutUvarint (drop_bit 7 x) else [ucast x])"
  by pat_completeness auto
termination
proof (relation "measure unat")
  fix x :: uint64 assume "0x80 \<le> x"
  then have "128 \<le> unat x" by (simp add: word_le_nat_alt)
  moreover have "unat (drop_bit 7 x) = unat x div 128"
    using unat_drop_bit_eq [of 7 x] drop_bit_eq_div [of 7 "unat x"] by (simp del: unat_drop_bit_eq)
  ultimately show "(drop_bit 7 x, x) \<in> measure unat" by simp
qed simp

declare PutUvarint.simps [simp del]

text \<open>
  \<^verbatim>\<open>binary.ReadUvarint\<close> on an \<^verbatim>\<open>io.ByteReader\<close> that holds the remaining bytes of
  a handle. \<open>k\<close> is the loop counter; the shift is \<open>7 * k\<close>.
\<close>

fun ReadUvarint_loop :: "nat \<Rightarrow> uint64 \<Rightarrow> bytes \<Rightarrow> (uint64 \<times> bytes) result" where
  "ReadUvarint_loop k x [] = (if k < 10 then Inl (if k > 0 then ErrUnexpectedEOF else EOF)
     else Inl ErrVarintOverflow)"
| "ReadUvarint_loop k x (b # r) =
     (if k < 10
      then if b < 0x80
           then if k = 9 \<and> b > 1 then Inl ErrVarintOverflow
                else Inr (x OR push_bit (7 * k) (ucast b), r)
           else ReadUvarint_loop (Suc k) (x OR push_bit (7 * k) (ucast (b AND 0x7f))) r
      else Inl ErrVarintOverflow)"

definition ReadUvarint :: "bytes \<Rightarrow> (uint64 \<times> bytes) result" where
  "ReadUvarint r = ReadUvarint_loop 0 0 r"

lemma unat_drop_bit_div [go_std]: "unat (drop_bit n w) = unat w div 2 ^ n"
  by (simp add: unat_drop_bit_eq flip: drop_bit_eq_div)

lemma uvarint_cont_byte:
  "(ucast v OR 0x80 :: byte) AND 0x7f = ucast (take_bit 7 (v :: uint64))"
proof -
  have m: "(0x7f :: byte) = mask 7" by (simp add: mask_eq_decr_exp)
  have "(ucast v OR 0x80 :: byte) AND 0x7f = take_bit 7 (ucast v OR 0x80)"
    unfolding m by (simp add: take_bit_eq_mask)
  also have "\<dots> = take_bit 7 (ucast v)" by (simp only: take_bit_or) simp
  also have "\<dots> = ucast (take_bit 7 v)" by (rule bit_word_eqI) (auto simp: bit_simps)
  finally show ?thesis .
qed

lemma uvarint_step:
  "take_bit n X OR push_bit n (ucast (ucast (take_bit 7 (drop_bit n X)) :: byte)) =
   take_bit (n + 7) (X :: uint64)"
  by (rule bit_word_eqI) (auto simp: bit_simps)

lemma ucast_byte_id: "v < 0x80 \<Longrightarrow> ucast (ucast v :: byte) = (v :: uint64)"
proof -
  assume "v < 0x80"
  then have "unat v < 128" by (simp add: word_less_nat_alt)
  moreover have "ucast (ucast v :: byte) = take_bit 8 v" by (rule bit_word_eqI) (auto simp: bit_simps)
  moreover from calculation have "unat (take_bit 8 v) = unat v"
    by (simp add: unsigned_take_bit_eq take_bit_nat_eq_self)
  ultimately show ?thesis by (simp add: word_unat_eq_iff)
qed

lemma uvarint_last:
  "drop_bit n X < 0x80 \<Longrightarrow>
   take_bit n X OR push_bit n (ucast (ucast (drop_bit n X) :: byte)) = (X :: uint64)"
  by (simp only: ucast_byte_id) (rule bit_word_eqI, auto simp: bit_simps, metis le_add_diff_inverse not_less)

lemma drop_bit_63_small: "drop_bit 63 (X :: uint64) \<le> 1"
proof -
  have "unat (drop_bit 63 X) = unat X div 2 ^ 63"
    by (rule unat_drop_bit_div)
  moreover have "unat X < 2 ^ LENGTH(64)" by (rule unsigned_less)
  ultimately have "unat (drop_bit 63 X) \<le> 1" by simp
  then show ?thesis by (simp only: word_le_nat_alt unsigned_1)
qed

lemma ReadUvarint_loop_PutUvarint:
  "k \<le> 9 \<Longrightarrow> v = drop_bit (7 * k) X \<Longrightarrow>
   ReadUvarint_loop k (take_bit (7 * k) X) (PutUvarint v @ r) = Inr (X, r)"
proof (induction v arbitrary: k rule: PutUvarint.induct)
  case (1 v)
  show ?case
  proof (cases "v \<ge> 0x80")
    case True
    have "k \<noteq> 9"
    proof
      assume "k = 9"
      with "1.prems" drop_bit_63_small [of X] have "v \<le> 1" by simp
      with True show False by (simp add: word_le_nat_alt)
    qed
    with "1.prems" have k: "Suc k \<le> 9" by simp
    have big: "\<not> ucast v OR (0x80 :: byte) < 0x80"
      using le_word_or1 [of "0x80 :: byte" "ucast v"] by (simp add: or.commute)
    have v': "drop_bit 7 v = drop_bit (7 * Suc k) X"
      using "1.prems" by (simp add: add.commute)
    show ?thesis
      using "1.IH" [OF True k v'] "1.prems" big k True uvarint_step [of "7 * k" X]
      by (simp add: PutUvarint.simps [of "drop_bit (7 * k) X"] uvarint_cont_byte add.commute)
  next
    case False
    then have lt: "v < 0x80" by simp
    then have "ucast v < (0x80 :: byte)" 
      by (simp add: word_less_nat_alt unsigned_ucast_eq take_bit_nat_eq_self)
    moreover have "k = 9 \<Longrightarrow> \<not> ucast v > (1 :: byte)"
       using "1.prems" drop_bit_63_small [of X] lt
       by (simp add: word_less_nat_alt word_le_nat_alt unsigned_ucast_eq take_bit_nat_eq_self)
    ultimately show ?thesis
      using "1.prems" False uvarint_last [of "7 * k" X] lt by (simp add: PutUvarint.simps [of "drop_bit (7 * k) X"])
  qed
qed

lemma ReadUvarint_PutUvarint [go_std]: "ReadUvarint (PutUvarint x @ r) = Inr (x, r)"
  unfolding ReadUvarint_def using ReadUvarint_loop_PutUvarint [of 0 x x r] by simp

lemma PutUvarint_inj: "PutUvarint x @ r = PutUvarint y @ r' \<Longrightarrow> x = y \<and> r = r'"
  by (metis ReadUvarint_PutUvarint Inr_inject Pair_inject)

section \<open>encoding/binary: little-endian words\<close>

definition le_bytes :: "nat \<Rightarrow> 'a::len word \<Rightarrow> bytes" where
  "le_bytes n v = map (\<lambda>i. ucast (drop_bit (8 * i) v)) [0..<n]"

definition le_word :: "bytes \<Rightarrow> 'a::len word" where
  "le_word bs = foldr (\<lambda>b w. ucast b OR push_bit 8 w) bs 0"

abbreviation PutUint64 :: "uint64 \<Rightarrow> bytes" where
  "PutUint64 \<equiv> le_bytes 8"

abbreviation PutUint32 :: "uint32 \<Rightarrow> bytes" where
  "PutUint32 \<equiv> le_bytes 4"

text \<open>The readers look at the first eight and four bytes of their slice.\<close>

definition Uint64 :: "bytes \<Rightarrow> uint64" where
  "Uint64 bs = le_word (take 8 bs)"

definition Uint32 :: "bytes \<Rightarrow> uint32" where
  "Uint32 bs = le_word (take 4 bs)"

lemma length_le_bytes [simp]: "length (le_bytes n v) = n"
  by (simp add: le_bytes_def)

lemma le_bytes_Suc: "le_bytes (Suc n) v = ucast v # le_bytes n (drop_bit 8 v)"
  by (simp add: le_bytes_def upt_conv_Cons map_Suc_upt [symmetric] o_def add.commute del: upt_Suc)

lemma le_word_le_bytes: "le_word (le_bytes n v) = take_bit (8 * n) (v :: 'a::len word)"
proof (induction n arbitrary: v)
  case 0
  show ?case by (simp add: le_bytes_def le_word_def)
next
  case (Suc n)
  have "le_word (le_bytes (Suc n) v) = ucast (ucast v :: byte) OR push_bit 8 (le_word (le_bytes n (drop_bit 8 v)))"
    by (simp add: le_bytes_Suc le_word_def)
  also have "\<dots> = ucast (ucast v :: byte) OR push_bit 8 (take_bit (8 * n) (drop_bit 8 v))"
    by (simp add: Suc)
  also have "\<dots> = take_bit (8 * Suc n) v"
    by (rule bit_word_eqI) (auto simp: bit_simps)
  finally show ?case .
qed

lemma Uint64_PutUint64 [go_std, simp]: "Uint64 (PutUint64 v @ r) = v"
  using take_bit_length_eq [of v] by (simp add: Uint64_def le_word_le_bytes)

lemma Uint32_PutUint32 [go_std, simp]: "Uint32 (PutUint32 v @ r) = v"
  using take_bit_length_eq [of v] by (simp add: Uint32_def le_word_le_bytes)

section \<open>io.ReadFull\<close>

text \<open>
  An \<^verbatim>\<open>io.Reader\<close> with state \<open>'r\<close> fills a buffer of the given length: it returns
  the bytes it stored, its error and its new state. \<^verbatim>\<open>io.ReadAtLeast\<close> calls it until
  the buffer is full or an error shows; a reader that returns no bytes and no error keeps
  the loop going, so the loop is partial: \<open>None\<close> is a call that never returns.
\<close>

type_synonym 'r io_reader = "nat \<Rightarrow> 'r \<Rightarrow> bytes \<times> go_error option \<times> 'r"

partial_function (option) ReadAtLeast_loop ::
    "'r io_reader \<Rightarrow> nat \<Rightarrow> bytes \<Rightarrow> go_error option \<Rightarrow> 'r \<Rightarrow>
     (bytes \<times> go_error option \<times> 'r) option" where
  "ReadAtLeast_loop read len acc err r =
     (if length acc < len \<and> err = None
      then case read (len - length acc) r of (p, err', r') \<Rightarrow>
             ReadAtLeast_loop read len (acc @ p) err' r'
      else Some (acc, err, r))"

definition ReadFull :: "'r io_reader \<Rightarrow> nat \<Rightarrow> 'r \<Rightarrow> bytes result exec" where
  "ReadFull read len r =
     exec_bind (exec_of_option (ReadAtLeast_loop read len [] None r)) (\<lambda>(acc, err, r').
          Returns (if length acc \<ge> len then Inr acc
                else if acc \<noteq> [] \<and> err = Some EOF then Inl ErrUnexpectedEOF
                else case err of None \<Rightarrow> Inr acc | Some e \<Rightarrow> Inl e))"

text \<open>
  A reader that, as \<^verbatim>\<open>io.ReaderAt\<close> demands, gives an error with every short read makes
  \<^verbatim>\<open>io.ReadFull\<close> return after one call.
\<close>

lemma ReadFull_one_call:
  assumes "read len r = (p, err, r')" "length p \<le> len" "length p < len \<longrightarrow> err \<noteq> None"
  shows "ReadFull read len r =
    Returns (if length p = len then Inr p
          else if p \<noteq> [] \<and> err = Some EOF then Inl ErrUnexpectedEOF else Inl (the err))"
proof (cases "len = 0")
  case True
  with assms show ?thesis by (simp add: ReadFull_def ReadAtLeast_loop.simps)
next
  case False
  have "ReadAtLeast_loop read len p err r' = Some (p, err, r')"
    using assms by (auto simp: ReadAtLeast_loop.simps)
  with False assms show ?thesis
    by (auto simp: ReadFull_def ReadAtLeast_loop.simps [of read len "[]"] split: option.splits)
qed

section \<open>bufio.Writer\<close>

text \<open>
  An \<^verbatim>\<open>io.Writer\<close> with state \<open>'w\<close> returns the number of bytes written, its error
  and its new state. \<^verbatim>\<open>bufio.Writer\<close> keeps the buffered bytes (\<open>bw_buf\<close>, the used
  part of its buffer of size \<open>bw_size\<close>) and the first error; the loop of
  \<^verbatim>\<open>Write\<close> is partial for the same reason as the one above.
\<close>

type_synonym 'w io_writer = "bytes \<Rightarrow> 'w \<Rightarrow> nat \<times> go_error option \<times> 'w"

record 'w bufio_Writer =
  bw_size :: nat
  bw_buf :: bytes
  bw_err :: "go_error option"
  bw_wr :: 'w

definition bufio_NewWriterSize :: "'w \<Rightarrow> nat \<Rightarrow> 'w bufio_Writer" where
  "bufio_NewWriterSize w n = \<lparr>bw_size = n, bw_buf = [], bw_err = None, bw_wr = w\<rparr>"

definition bufio_Flush :: "'w io_writer \<Rightarrow> 'w bufio_Writer \<Rightarrow> go_error option \<times> 'w bufio_Writer" where
  "bufio_Flush wr b =
     (case bw_err b of
        Some e \<Rightarrow> (Some e, b)
      | None \<Rightarrow>
          if bw_buf b = [] then (None, b)
          else case wr (bw_buf b) (bw_wr b) of (n, err, w) \<Rightarrow>
            let err' = (if n < length (bw_buf b) \<and> err = None then Some ErrShortWrite else err)
            in (case err' of
                  Some e \<Rightarrow> (Some e, b\<lparr>bw_buf := drop n (bw_buf b), bw_err := Some e, bw_wr := w\<rparr>)
                | None \<Rightarrow> (None, b\<lparr>bw_buf := [], bw_wr := w\<rparr>)))"

partial_function (option) bufio_Write_loop ::
    "'w io_writer \<Rightarrow> bytes \<Rightarrow> nat \<Rightarrow> 'w bufio_Writer \<Rightarrow> (bytes \<times> nat \<times> 'w bufio_Writer) option" where
  "bufio_Write_loop wr p nn b =
     (if length p > bw_size b - length (bw_buf b) \<and> bw_err b = None
      then if bw_buf b = []
           then case wr p (bw_wr b) of (n, err, w) \<Rightarrow>
                  bufio_Write_loop wr (drop n p) (nn + n) (b\<lparr>bw_err := err, bw_wr := w\<rparr>)
           else let n = bw_size b - length (bw_buf b)
                in bufio_Write_loop wr (drop n p) (nn + n)
                     (snd (bufio_Flush wr (b\<lparr>bw_buf := bw_buf b @ take n p\<rparr>)))
      else Some (p, nn, b))"

definition bufio_Write ::
    "'w io_writer \<Rightarrow> bytes \<Rightarrow> 'w bufio_Writer \<Rightarrow> (nat \<times> go_error option \<times> 'w bufio_Writer) exec" where
  "bufio_Write wr p b =
     exec_bind (exec_of_option (bufio_Write_loop wr p 0 b)) (\<lambda>(p', nn, b').
          (case bw_err b' of
             Some e \<Rightarrow> Returns (nn, Some e, b')
           | None \<Rightarrow> Returns (nn + length p', None, b'\<lparr>bw_buf := bw_buf b' @ p'\<rparr>)))"

subsection \<open>What a lawful sink guarantees of the buffered stream\<close>

text \<open>
  A sink writes a prefix of what it is given, appends it to what it holds, and reports an
  error with every short write (the contract of \<^verbatim>\<open>io.Writer\<close>). \<open>limit\<close> bounds the
  total, for sinks whose cursor is a machine integer.
\<close>

locale io_sink =
  fixes wr :: "'w io_writer"
    and sink :: "'w \<Rightarrow> bytes"
    and wf :: "'w \<Rightarrow> bool"
    and limit :: nat
  assumes write_law:
    "wf w \<Longrightarrow> length (sink w) + length p \<le> limit \<Longrightarrow> wr p w = (n, err, w') \<Longrightarrow>
     wf w' \<and> n \<le> length p \<and> (n < length p \<longrightarrow> err \<noteq> None) \<and> sink w' = sink w @ take n p"
begin

definition stream :: "'w bufio_Writer \<Rightarrow> bytes" where
  "stream b = sink (bw_wr b) @ bw_buf b"

definition buf_ok :: "'w bufio_Writer \<Rightarrow> bool" where
  "buf_ok b \<longleftrightarrow> wf (bw_wr b) \<and> 0 < bw_size b \<and> length (bw_buf b) \<le> bw_size b"

lemma Flush_ok:
  assumes "buf_ok b" "bw_err b = None" "length (stream b) \<le> limit"
    and "bufio_Flush wr b = (err, b')"
  shows "buf_ok b' \<and> bw_err b' = err \<and> bw_size b' = bw_size b \<and> stream b' = stream b \<and>
    (err = None \<longrightarrow> bw_buf b' = [])"
proof (cases "bw_buf b = []")
  case True
  with assms show ?thesis by (auto simp: bufio_Flush_def)
next
  case False
  obtain n e w where w: "wr (bw_buf b) (bw_wr b) = (n, e, w)" by (metis prod_cases3)
  have law: "wf w \<and> n \<le> length (bw_buf b) \<and> (n < length (bw_buf b) \<longrightarrow> e \<noteq> None) \<and>
      sink w = sink (bw_wr b) @ take n (bw_buf b)"
    using assms by (intro write_law [OF _ _ w]) (auto simp: buf_ok_def stream_def)
  then have "(if n < length (bw_buf b) \<and> e = None then Some ErrShortWrite else e) = e" by auto
  with assms(2,4) False w have
    b': "err = e" "b' = (case e of None \<Rightarrow> b\<lparr>bw_buf := [], bw_wr := w\<rparr>
       | Some x \<Rightarrow> b\<lparr>bw_buf := drop n (bw_buf b), bw_err := Some x, bw_wr := w\<rparr>)"
    by (auto simp: bufio_Flush_def Let_def split: option.splits)
  with law assms(1,2) show ?thesis
    by (cases e) (auto simp: buf_ok_def stream_def)
qed

text \<open>
  The outcome of the loop of \<^verbatim>\<open>Write\<close>: it returns, and without an error the stream
  followed by what is left of the input is the old stream followed by the input.
\<close>

definition loop_post :: "bytes \<Rightarrow> nat \<Rightarrow> 'w bufio_Writer \<Rightarrow> bool" where
  "loop_post p nn b \<longleftrightarrow>
     (\<exists>p' b'. bufio_Write_loop wr p nn b = Some (p', nn + length p - length p', b') \<and>
        buf_ok b' \<and> bw_size b' = bw_size b \<and> length p' \<le> length p \<and>
        (bw_err b' = None \<longrightarrow> stream b' @ p' = stream b @ p \<and>
           length p' \<le> bw_size b' - length (bw_buf b')))"

text \<open>With an empty buffer one direct write ends the loop.\<close>

lemma Write_loop_direct:
  assumes ok: "buf_ok b" "length (stream b) + length p \<le> limit" "bw_buf b = []"
  shows "loop_post p nn b"
proof (cases "length p > bw_size b \<and> bw_err b = None")
  case False
  with ok show ?thesis unfolding loop_post_def by (subst bufio_Write_loop.simps) auto
next
  case True
  obtain n e w where w: "wr p (bw_wr b) = (n, e, w)" by (metis prod_cases3)
  have law: "wf w \<and> n \<le> length p \<and> (n < length p \<longrightarrow> e \<noteq> None) \<and> sink w = sink (bw_wr b) @ take n p"
    using ok by (intro write_law [OF _ _ w]) (auto simp: buf_ok_def stream_def)
  let ?b = "b\<lparr>bw_err := e, bw_wr := w\<rparr>"
  have "bufio_Write_loop wr p nn b = bufio_Write_loop wr (drop n p) (nn + n) ?b"
    using True ok w by (subst bufio_Write_loop.simps) simp
  also have "\<dots> = Some (drop n p, nn + n, ?b)"
    using law ok by (subst bufio_Write_loop.simps) (auto simp: buf_ok_def)
  finally show ?thesis using law ok unfolding loop_post_def
    by (intro exI [of _ "drop n p"] exI [of _ ?b]) (auto simp: buf_ok_def stream_def)
qed

lemma Write_loop_returns:
  assumes "buf_ok b" "length (stream b) + length p \<le> limit" "bw_err b = None"
  shows "loop_post p nn b"
proof (cases "bw_buf b = [] \<or> length p \<le> bw_size b - length (bw_buf b)")
  case True
  then show ?thesis
  proof
    assume "bw_buf b = []"
    with assms show ?thesis by (intro Write_loop_direct)
  next
    assume "length p \<le> bw_size b - length (bw_buf b)"
    with assms show ?thesis unfolding loop_post_def by (subst bufio_Write_loop.simps) auto
  qed
next
  case False
  define n where "n = bw_size b - length (bw_buf b)"
  let ?b1 = "b\<lparr>bw_buf := bw_buf b @ take n p\<rparr>"
  obtain err b2 where fl: "bufio_Flush wr ?b1 = (err, b2)" by fastforce
  have st: "stream ?b1 = stream b @ take n p" by (simp add: stream_def)
  have "buf_ok ?b1" using assms(1) False by (auto simp: buf_ok_def n_def)
  moreover have "length (stream ?b1) \<le> limit" using assms(2) by (simp add: st)
  ultimately have b2: "buf_ok b2 \<and> bw_err b2 = err \<and> bw_size b2 = bw_size b \<and>
      stream b2 = stream b @ take n p \<and> (err = None \<longrightarrow> bw_buf b2 = [])"
    using Flush_ok [of ?b1 err b2] assms(3) fl st by simp
  have step: "bufio_Write_loop wr p nn b = bufio_Write_loop wr (drop n p) (nn + n) b2"
    using False assms(3) fl by (subst bufio_Write_loop.simps) (simp add: n_def Let_def)
  have len: "n < length p" using False by (auto simp: n_def)
  show ?thesis
  proof (cases err)
    case None
    have "length (stream b2) + length (drop n p) \<le> limit" using b2 assms(2) len by simp
    with b2 None have "loop_post (drop n p) (nn + n) b2" by (intro Write_loop_direct) auto
    with b2 step len show ?thesis unfolding loop_post_def by (fastforce simp: add.assoc)
  next
    case (Some e)
    with b2 have "bufio_Write_loop wr (drop n p) (nn + n) b2 = Some (drop n p, nn + n, b2)"
      by (subst bufio_Write_loop.simps) simp
    with step b2 Some len show ?thesis unfolding loop_post_def by auto
  qed
qed

lemma Write_ok:
  assumes "buf_ok b" "length (stream b) + length p \<le> limit" "bw_err b = None"
  obtains n err b' where "bufio_Write wr p b = Returns (n, err, b')"
    "buf_ok b'" "bw_size b' = bw_size b" "n \<le> length p" "bw_err b' = err"
    "err = None \<Longrightarrow> n = length p \<and> stream b' = stream b @ p"
proof -
  obtain p' b' where l: "bufio_Write_loop wr p 0 b = Some (p', length p - length p', b')"
    "buf_ok b'" "bw_size b' = bw_size b" "length p' \<le> length p"
    "bw_err b' = None \<longrightarrow> stream b' @ p' = stream b @ p \<and> length p' \<le> bw_size b' - length (bw_buf b')"
    using Write_loop_returns [OF assms, of 0] unfolding loop_post_def by auto
  show thesis
  proof (cases "bw_err b'")
    case (Some e)
    with l show thesis
      by (intro that [of "length p - length p'" "Some e" b']) (auto simp: bufio_Write_def)
  next
    case None
    let ?b = "b'\<lparr>bw_buf := bw_buf b' @ p'\<rparr>"
    have "bufio_Write wr p b = Returns (length p, None, ?b)" using None l by (simp add: bufio_Write_def)
    moreover have "buf_ok ?b" "stream ?b = stream b @ p" "bw_err ?b = None" "bw_size ?b = bw_size b"
      using None l by (auto simp: buf_ok_def stream_def)
    ultimately show thesis by (intro that [of "length p" None ?b]) auto
  qed
qed

end

end
