(* ===== verification/State_File.thy ===== *)
theory State_File
  imports Go_Std
begin

text \<open>
  Output path state files: \<^verbatim>\<open>pkg/outputpathpersistency\<close>, the files \<^verbatim>\<open>header.go\<close>,
  \<^verbatim>\<open>file_writer.go\<close> and \<^verbatim>\<open>file_reader.go\<close>.

  The files the code works on are \<^verbatim>\<open>io.WriterAt\<close> and \<^verbatim>\<open>io.ReaderAt\<close> values, so the
  operations take \<open>WriteAt\<close> and \<open>ReadAt\<close> as arguments; Protobuf marshalling is an
  argument too. The locales \<open>writer_at\<close> and \<open>reader_at\<close> state what the two interfaces
  document, and \<open>file_WriteAt\<close>, \<open>file_ReadAt\<close> (a regular file, held as its bytes)
  satisfy them.
\<close>

section \<open>Messages\<close>

text \<open>The fields of the persistency messages and of the REv2 digest the code reads and writes.\<close>

record proto_digest =
  pd_Hash :: string
  pd_SizeBytes :: int

record FileRegion =
  OffsetBytes :: int
  SizeBytes :: int

record DirectoryNode =
  dn_Name :: string
  dn_FileRegion :: "FileRegion option"

record FileNode =
  fn_Name :: string
  fn_Digest :: proto_digest
  fn_IsExecutable :: bool

record SymlinkNode =
  sn_Name :: string
  sn_Target :: string

record Directory =
  Directories :: "DirectoryNode list"
  Files :: "FileNode list"
  Symlinks :: "SymlinkNode list"

definition empty_Directory :: Directory where
  "empty_Directory = \<lparr>Directories = [], Files = [], Symlinks = []\<rparr>"

record Timestamp =
  ts_Seconds :: int
  ts_Nanos :: int

record RootDirectory =
  InitialCreationTime :: "Timestamp option"
  Contents :: "Directory option"

section \<open>header.go\<close>

definition headerSizeBytes :: int where
  "headerSizeBytes = 4 + 8 + 4"

definition headerMagic :: bytes where
  "headerMagic = [0xfa, 0x12, 0xa4, 0xa5]"

lemma length_headerMagic [simp]: "length headerMagic = 4"
  by (simp add: headerMagic_def)

section \<open>file\_writer.go\<close>

type_synonym 'f writer_at_op = "bytes \<Rightarrow> int \<Rightarrow> 'f \<Rightarrow> nat \<times> go_error option \<times> 'f"

record 'f offsetWriter =
  ow_w :: 'f
  ow_offsetBytes :: int

definition offsetWriter_Write :: "'f writer_at_op \<Rightarrow> 'f offsetWriter io_writer" where
  "offsetWriter_Write WriteAt p w =
     (case WriteAt p (ow_offsetBytes w) (ow_w w) of (n, err, f) \<Rightarrow>
        (n, err, \<lparr>ow_w = f, ow_offsetBytes = to_int64 (ow_offsetBytes w + int n)\<rparr>))"

text \<open>
  \<^verbatim>\<open>rawWriter\<close> and the writer below the buffer are the same file: its state is kept once,
  in the \<open>offsetWriter\<close>.
\<close>

record 'f fileWriter =
  fw_bufferedWriter :: "'f offsetWriter bufio_Writer"
  fw_offsetBytes :: int

definition fw_rawWriter :: "'f fileWriter \<Rightarrow> 'f" where
  "fw_rawWriter w = ow_w (bw_wr (fw_bufferedWriter w))"

definition NewFileWriter :: "'f \<Rightarrow> 'f fileWriter" where
  "NewFileWriter rawWriter =
     \<lparr>fw_bufferedWriter =
        bufio_NewWriterSize \<lparr>ow_w = rawWriter, ow_offsetBytes = headerSizeBytes\<rparr> (1024 * 1024),
      fw_offsetBytes = headerSizeBytes\<rparr>"

definition writeMessage ::
    "'f writer_at_op \<Rightarrow> ('m \<Rightarrow> bytes result) \<Rightarrow> 'm \<Rightarrow> 'f fileWriter \<Rightarrow>
     (FileRegion option result \<times> 'f fileWriter) exec" where
  "writeMessage WriteAt marshal m w =
     (case marshal m of
        Inl e \<Rightarrow> Returns (Inl (StatusText InvalidArgument e), w)
      | Inr data \<Rightarrow>
          if length data = 0 then Returns (Inr None, w)
          else
            let offsetBytes = fw_offsetBytes w
            in exec_bind (bufio_Write (offsetWriter_Write WriteAt) data (fw_bufferedWriter w))
                 (\<lambda>(n, err, b).
                    let w' = \<lparr>fw_bufferedWriter = b, fw_offsetBytes = to_int64 (fw_offsetBytes w + int n)\<rparr>
                    in Returns
                      (case err of
                         Some e \<Rightarrow> (Inl e, w')
                       | None \<Rightarrow>
                           (Inr (Some \<lparr>OffsetBytes = offsetBytes, SizeBytes = to_int32 (int (length data))\<rparr>), w'))))"

definition WriteDirectory ::
    "'f writer_at_op \<Rightarrow> (Directory \<Rightarrow> bytes result) \<Rightarrow> Directory \<Rightarrow> 'f fileWriter \<Rightarrow>
     (FileRegion option result \<times> 'f fileWriter) exec" where
  "WriteDirectory WriteAt marshalDirectory directory w = writeMessage WriteAt marshalDirectory directory w"

text \<open>The getters of a nil region return zero.\<close>

definition GetOffsetBytes :: "FileRegion option \<Rightarrow> int" where
  "GetOffsetBytes r = (case r of None \<Rightarrow> 0 | Some r \<Rightarrow> OffsetBytes r)"

definition GetSizeBytes :: "FileRegion option \<Rightarrow> int" where
  "GetSizeBytes r = (case r of None \<Rightarrow> 0 | Some r \<Rightarrow> SizeBytes r)"

definition header_bytes :: "FileRegion option \<Rightarrow> bytes" where
  "header_bytes fileRegion =
     headerMagic @ PutUint64 (word_of_int (GetOffsetBytes fileRegion))
       @ PutUint32 (word_of_int (GetSizeBytes fileRegion))"

definition Finalize ::
    "'f writer_at_op \<Rightarrow> (RootDirectory \<Rightarrow> bytes result) \<Rightarrow> RootDirectory \<Rightarrow> 'f fileWriter \<Rightarrow>
     (go_error option \<times> 'f fileWriter) exec" where
  "Finalize WriteAt marshalRoot rootDirectory w =
     exec_bind (writeMessage WriteAt marshalRoot rootDirectory w) (\<lambda>(res, w1).
       case res of
         Inl e \<Rightarrow> Returns (Some e, w1)
       | Inr fileRegion \<Rightarrow>
           (case bufio_Flush (offsetWriter_Write WriteAt) (fw_bufferedWriter w1) of
              (Some e, b) \<Rightarrow> Returns (Some e, w1\<lparr>fw_bufferedWriter := b\<rparr>)
            | (None, b) \<Rightarrow>
                (case WriteAt (header_bytes fileRegion) 0 (ow_w (bw_wr b)) of
                   (_, err, f) \<Rightarrow>
                     Returns (err, w1\<lparr>fw_bufferedWriter := b\<lparr>bw_wr := (bw_wr b)\<lparr>ow_w := f\<rparr>\<rparr>\<rparr>))))"

section \<open>file\_reader.go\<close>

type_synonym reader_at_op = "nat \<Rightarrow> int \<Rightarrow> bytes \<times> go_error option"

definition offsetReader_Read :: "reader_at_op \<Rightarrow> int io_reader" where
  "offsetReader_Read ReadAt len off =
     (case ReadAt len off of (p, err) \<Rightarrow> (p, err, to_int64 (off + int (length p))))"

record fileReader =
  rawReader :: "reader_at_op option"
  maximumOffsetBytes :: int

definition readMessage ::
    "(bytes \<Rightarrow> 'm result) \<Rightarrow> fileReader \<Rightarrow> int \<Rightarrow> int \<Rightarrow> (fileReader \<times> 'm) result exec" where
  "readMessage unmarshal r offsetBytes sizeBytes =
     (let endBytes = to_int64 (offsetBytes + sizeBytes)
      in if offsetBytes < headerSizeBytes \<or> offsetBytes > maximumOffsetBytes r \<or> sizeBytes \<le> 0 \<or>
            endBytes > maximumOffsetBytes r
         then Returns (Inl (Status InvalidArgument
                ''Message at offset [%d, %d) does not lie in permitted range [%d, %d)''
                [FInt offsetBytes, FInt endBytes, FInt headerSizeBytes, FInt (maximumOffsetBytes r)]))
         else case rawReader r of
            None \<Rightarrow> Panics ''nil pointer dereference''
          | Some ReadAt \<Rightarrow>
              exec_try (ReadFull (offsetReader_Read ReadAt) (nat sizeBytes) offsetBytes) Inl (\<lambda>data.
                case unmarshal data of
                  Inl e \<Rightarrow> Returns (Inl (StatusText InvalidArgument e))
                | Inr m \<Rightarrow> Returns (Inr (\<lparr>rawReader = Some ReadAt, maximumOffsetBytes = offsetBytes\<rparr>, m))))"

definition NewFileReader ::
    "(bytes \<Rightarrow> RootDirectory result) \<Rightarrow> reader_at_op \<Rightarrow> int \<Rightarrow> (fileReader \<times> RootDirectory) result exec" where
  "NewFileReader unmarshalRoot ReadAt maximumStateFileSizeBytes =
     exec_try (ReadFull (offsetReader_Read ReadAt) (nat headerSizeBytes) 0)
       (\<lambda>e. Inl (StatusWrap (Some e) ''Failed to read header'' []))
       (\<lambda>header.
          if take 4 header \<noteq> headerMagic
          then Returns (Inl (Status InvalidArgument ''Header contains invalid magic'' []))
          else exec_try
                 (readMessage unmarshalRoot
                    \<lparr>rawReader = Some ReadAt, maximumOffsetBytes = maximumStateFileSizeBytes\<rparr>
                    (sint (Uint64 (drop 4 header))) (sint (Uint32 (drop (4 + 8) header))))
                 (\<lambda>e. Inl (StatusWrap (Some e) ''Failed to read root directory'' []))
                 (\<lambda>x. Returns (Inr x)))"

definition ReadDirectory ::
    "(bytes \<Rightarrow> Directory result) \<Rightarrow> fileReader \<Rightarrow> FileRegion option \<Rightarrow> (fileReader \<times> Directory) result exec" where
  "ReadDirectory unmarshalDirectory r fileRegion =
     (case fileRegion of
        None \<Rightarrow> Returns (Inr (\<lparr>rawReader = None, maximumOffsetBytes = 0\<rparr>, empty_Directory))
      | Some region \<Rightarrow> readMessage unmarshalDirectory r (OffsetBytes region) (SizeBytes region))"

section \<open>Lawful files\<close>

text \<open>The bytes of a file after \<open>p\<close> was stored at \<open>off\<close>; a gap reads as zeros.\<close>

definition splice :: "bytes \<Rightarrow> nat \<Rightarrow> bytes \<Rightarrow> bytes" where
  "splice c off p =
     (if p = [] then c
      else take off (c @ replicate (off - length c) 0) @ p @ drop (off + length p) c)"

locale writer_at =
  fixes WriteAt :: "'f writer_at_op"
    and content :: "'f \<Rightarrow> bytes"
  assumes WriteAt_law:
    "0 \<le> off \<Longrightarrow> off + int (length p) < 2 ^ 63 \<Longrightarrow> WriteAt p off f = (n, err, f') \<Longrightarrow>
     n \<le> length p \<and> (n < length p \<longrightarrow> err \<noteq> None) \<and> content f' = splice (content f) (nat off) (take n p)"

locale reader_at =
  fixes ReadAt :: reader_at_op
    and content :: bytes
  assumes ReadAt_law:
    "0 \<le> off \<Longrightarrow> ReadAt n off = (p, err) \<Longrightarrow>
     p = take n (drop (nat off) content) \<and> (length p < n \<longrightarrow> err = Some EOF)"

subsection \<open>Writing\<close>

lemma splice_append: "length c \<le> off \<Longrightarrow> p \<noteq> [] \<Longrightarrow> splice c off p = c @ replicate (off - length c) 0 @ p"
  by (simp add: splice_def)

text \<open>
  The part of the file below the header is a sink: the \<open>offsetWriter\<close> only ever appends to it
  and never touches the header's bytes.
\<close>

text \<open>The region of a message appended to the messages written so far.\<close>

definition region_for :: "bytes \<Rightarrow> bytes \<Rightarrow> FileRegion option" where
  "region_for before data =
     (if data = [] then None
      else Some \<lparr>OffsetBytes = 16 + int (length before), SizeBytes = to_int32 (int (length data))\<rparr>)"

context writer_at
begin

definition body :: "'f offsetWriter \<Rightarrow> bytes" where
  "body w = drop 16 (content (ow_w w))"

definition cursor_ok :: "'f offsetWriter \<Rightarrow> bool" where
  "cursor_ok w \<longleftrightarrow> ow_offsetBytes w = 16 + int (length (body w)) \<and> set (take 16 (content (ow_w w))) \<subseteq> {0}"

lemma cursor_ok_advance:
  assumes "cursor_ok w" "q \<noteq> []" "content f' = splice (content (ow_w w)) (nat (ow_offsetBytes w)) q"
  shows "drop 16 (content f') = body w @ q \<and> set (take 16 (content f')) \<subseteq> {0}"
proof -
  let ?c = "content (ow_w w)"
  have "nat (ow_offsetBytes w) = max 16 (length ?c)"
    using assms(1) by (auto simp: cursor_ok_def body_def)
  then have "content f' = ?c @ replicate (16 - length ?c) 0 @ q"
    using assms(2,3) by (simp add: splice_append max_def)
  then show ?thesis
    using assms(1) by (auto simp: cursor_ok_def body_def not_le dest: in_set_takeD split: if_splits)
qed

lemma offsetWriter_law:
  assumes "cursor_ok w" "length (body w) + length p \<le> 2 ^ 63 - 17"
    and "offsetWriter_Write WriteAt p w = (n, err, w')"
  shows "cursor_ok w' \<and> n \<le> length p \<and> (n < length p \<longrightarrow> err \<noteq> None) \<and> body w' = body w @ take n p"
proof -
  obtain f where f: "WriteAt p (ow_offsetBytes w) (ow_w w) = (n, err, f)"
    and w': "w' = \<lparr>ow_w = f, ow_offsetBytes = to_int64 (ow_offsetBytes w + int n)\<rparr>"
    using assms(3) by (auto simp: offsetWriter_Write_def split: prod.splits)
  have off: "ow_offsetBytes w = 16 + int (length (body w))" using assms(1) by (simp add: cursor_ok_def)
  have law: "n \<le> length p \<and> (n < length p \<longrightarrow> err \<noteq> None) \<and>
      content f = splice (content (ow_w w)) (nat (ow_offsetBytes w)) (take n p)"
    using assms(2) off by (intro WriteAt_law [OF _ _ f]) auto
  show ?thesis
  proof (cases "take n p = []")
    case True
    with law have "content f = content (ow_w w)" "n = 0 \<or> p = []" by (auto simp: splice_def)
    with assms(1) law off w' assms(2) show ?thesis
      by (auto simp: cursor_ok_def body_def)
  next
    case False
    from cursor_ok_advance [OF assms(1) this] law
    have "drop 16 (content f) = body w @ take n p" "set (take 16 (content f)) \<subseteq> {0}" by auto
    with law off assms(2) show ?thesis by (simp add: w' cursor_ok_def body_def)
  qed
qed

end

sublocale writer_at \<subseteq> ow: io_sink "offsetWriter_Write WriteAt" body cursor_ok "2 ^ 63 - 17"
  by unfold_locales (rule offsetWriter_law)

context writer_at
begin

definition fw_ok :: "'f fileWriter \<Rightarrow> bool" where
  "fw_ok w \<longleftrightarrow> ow.buf_ok (fw_bufferedWriter w) \<and>
     (bw_err (fw_bufferedWriter w) = None \<longrightarrow>
        fw_offsetBytes w = 16 + int (length (ow.stream (fw_bufferedWriter w))))"

abbreviation written :: "'f fileWriter \<Rightarrow> bytes" where
  "written w \<equiv> ow.stream (fw_bufferedWriter w)"

abbreviation failed :: "'f fileWriter \<Rightarrow> bool" where
  "failed w \<equiv> bw_err (fw_bufferedWriter w) \<noteq> None"

lemma NewFileWriter_ok:
  "content f = [] \<Longrightarrow> fw_ok (NewFileWriter f) \<and> written (NewFileWriter f) = [] \<and> \<not> failed (NewFileWriter f)"
  by (simp add: fw_ok_def NewFileWriter_def ow.buf_ok_def ow.stream_def bufio_NewWriterSize_def
      cursor_ok_def body_def headerSizeBytes_def)

lemma writeMessage_ok:
  assumes "fw_ok w" "\<not> failed w" "marshal m = Inr data" "length (written w) + length data \<le> 2 ^ 63 - 17"
  obtains res w' where "writeMessage WriteAt marshal m w = Returns (res, w')" "fw_ok w'"
    "(\<exists>e. res = Inl e \<and> failed w') \<or>
     (res = Inr (region_for (written w) data) \<and> \<not> failed w' \<and> written w' = written w @ data)"
proof (cases "data = []")
  case True
  with assms show thesis by (intro that [of "Inr None" w]) (auto simp: writeMessage_def region_for_def)
next
  case False
  have b: "ow.buf_ok (fw_bufferedWriter w)" "bw_err (fw_bufferedWriter w) = None"
    using assms(1,2) by (auto simp: fw_ok_def)
  obtain n err b' where wr: "bufio_Write (offsetWriter_Write WriteAt) data (fw_bufferedWriter w) = Returns (n, err, b')"
    and ok: "ow.buf_ok b'" "n \<le> length data" "bw_err b' = err"
    and suc: "err = None \<Longrightarrow> n = length data \<and> ow.stream b' = written w @ data"
    using ow.Write_ok [OF b(1) assms(4) b(2)] by metis
  have off: "fw_offsetBytes w = 16 + int (length (written w))" using assms(1,2) by (simp add: fw_ok_def)
  let ?w = "\<lparr>fw_bufferedWriter = b', fw_offsetBytes = to_int64 (fw_offsetBytes w + int n)\<rparr>"
  show thesis
  proof (cases err)
    case (Some e)
    with assms(3) False wr ok show thesis
      by (intro that [of "Inl e" ?w]) (auto simp: writeMessage_def fw_ok_def region_for_def)
  next
    case None
    with assms(3,4) False wr ok suc off show thesis
      by (intro that [of "Inr (Some \<lparr>OffsetBytes = fw_offsetBytes w, SizeBytes = to_int32 (int (length data))\<rparr>)" ?w])
        (auto simp: writeMessage_def fw_ok_def region_for_def)
  qed
qed

lemma Finalize_ok:
  assumes "fw_ok w" "\<not> failed w" "marshal root = Inr data" "length (written w) + length data \<le> 2 ^ 63 - 17"
    and "Finalize WriteAt marshal root w = Returns (None, w')"
  shows "content (fw_rawWriter w') =
    header_bytes (region_for (written w) data) @ written w @ data"
proof -
  obtain res w1 where wm: "writeMessage WriteAt marshal root w = Returns (res, w1)" "fw_ok w1"
    and cases: "(\<exists>e. res = Inl e \<and> failed w1) \<or>
     (res = Inr (region_for (written w) data) \<and> \<not> failed w1 \<and> written w1 = written w @ data)"
    using writeMessage_ok [of w marshal root data, OF assms(1-4)] by metis
  with assms(5) obtain region where res: "res = Inr region" by (auto simp: Finalize_def)
  obtain b where fl: "bufio_Flush (offsetWriter_Write WriteAt) (fw_bufferedWriter w1) = (None, b)"
    using assms(5) wm res by (auto simp: Finalize_def split: prod.splits option.splits)
  then obtain n f where hd: "WriteAt (header_bytes region) 0 (ow_w (bw_wr b)) = (n, None, f)"
    and f: "fw_rawWriter w' = f"
    using assms(5) wm res by (auto simp: Finalize_def fw_rawWriter_def split: prod.splits option.splits)
  have flok: "ow.buf_ok b \<and> bw_buf b = [] \<and> ow.stream b = written w @ data"
    using ow.Flush_ok [OF _ _ _ fl] cases res wm(2) assms(4) by (auto simp: fw_ok_def)
  then have b: "drop 16 (content (ow_w (bw_wr b))) = written w @ data"
    by (metis append_Nil2 ow.stream_def body_def)
  have len: "length (header_bytes region) = 16" by (simp add: header_bytes_def)
  have "n = 16 \<and> content f = splice (content (ow_w (bw_wr b))) 0 (header_bytes region)"
    using WriteAt_law [OF _ _ hd] len by auto
  then have "content f = header_bytes region @ written w @ data"
    using len b by (auto simp: splice_def)
  with cases res f show ?thesis by auto
qed


end

text \<open>
  A client of the writer: \<^verbatim>\<open>WriteDirectory\<close> for each of a list of directories, until one
  fails.
\<close>

fun write_directories ::
    "'f writer_at_op \<Rightarrow> (Directory \<Rightarrow> bytes result) \<Rightarrow> Directory list \<Rightarrow> 'f fileWriter \<Rightarrow>
     (FileRegion option list result \<times> 'f fileWriter) exec" where
  "write_directories WriteAt marshal [] w = Returns (Inr [], w)"
| "write_directories WriteAt marshal (d # ds) w =
     exec_bind (WriteDirectory WriteAt marshal d w) (\<lambda>(res, w1).
       case res of
         Inl e \<Rightarrow> Returns (Inl e, w1)
       | Inr region \<Rightarrow>
           exec_bind (write_directories WriteAt marshal ds w1) (\<lambda>(res', w2).
             Returns (case res' of Inl e \<Rightarrow> Inl e | Inr regions \<Rightarrow> Inr (region # regions), w2)))"

definition encoding :: "('m \<Rightarrow> bytes result) \<Rightarrow> 'm \<Rightarrow> bytes" where
  "encoding marshal m = (case marshal m of Inl _ \<Rightarrow> [] | Inr bs \<Rightarrow> bs)"

context writer_at
begin

lemma WriteDirectory_ok:
  assumes "fw_ok w" "\<not> failed w" "length (written w) + length (encoding marshal d) \<le> 2 ^ 63 - 17"
  obtains res w' where "WriteDirectory WriteAt marshal d w = Returns (res, w')" "fw_ok w'"
    "(\<exists>e. res = Inl e) \<or>
     (res = Inr (region_for (written w) (encoding marshal d)) \<and> \<not> failed w' \<and>
      written w' = written w @ encoding marshal d \<and> marshal d = Inr (encoding marshal d))"
proof (cases "marshal d")
  case (Inl e)
  with assms show thesis
    by (intro that [of "Inl (StatusText InvalidArgument e)" w]) (auto simp: WriteDirectory_def writeMessage_def)
next
  case (Inr data)
  then have enc: "encoding marshal d = data" by (simp add: encoding_def)
  obtain res w' where "writeMessage WriteAt marshal d w = Returns (res, w')" "fw_ok w'"
    "(\<exists>e. res = Inl e \<and> failed w') \<or>
     (res = Inr (region_for (written w) data) \<and> \<not> failed w' \<and> written w' = written w @ data)"
    using writeMessage_ok [of w marshal d data, OF assms(1,2) Inr] assms(3) enc by metis
  with Inr enc show thesis by (intro that [of res w']) (auto simp: WriteDirectory_def)
qed

lemma write_directories_ok:
  assumes "fw_ok w" "\<not> failed w"
    and "length (written w) + length (concat (map (encoding marshal) ds)) \<le> 2 ^ 63 - 17"
  obtains res w' where "write_directories WriteAt marshal ds w = Returns (res, w')" "fw_ok w'"
    "(\<exists>e. res = Inl e) \<or>
     (\<exists>regions. res = Inr regions \<and> \<not> failed w' \<and> length regions = length ds \<and>
        written w' = written w @ concat (map (encoding marshal) ds) \<and>
        (\<forall>i < length ds. marshal (ds ! i) = Inr (encoding marshal (ds ! i)) \<and>
           regions ! i = region_for (written w @ concat (map (encoding marshal) (take i ds)))
             (encoding marshal (ds ! i))))"
  using assms
proof (induction ds arbitrary: w thesis)
  case Nil
  then show ?case by simp
next
  case (Cons d ds)
  let ?e = "encoding marshal"
  obtain res1 w1 where wd: "WriteDirectory WriteAt marshal d w = Returns (res1, w1)" "fw_ok w1"
    and res1: "(\<exists>e. res1 = Inl e) \<or> (res1 = Inr (region_for (written w) (?e d)) \<and> \<not> failed w1 \<and>
      written w1 = written w @ ?e d \<and> marshal d = Inr (?e d))"
    using WriteDirectory_ok [of w marshal d, OF Cons.prems(2,3)] Cons.prems(4) by auto
  show ?case
  proof (cases "\<exists>e. res1 = Inl e")
    case True
    with wd show ?thesis by (auto intro: Cons.prems(1))
  next
    case False
    with res1 have r1: "res1 = Inr (region_for (written w) (?e d))" "\<not> failed w1"
      "written w1 = written w @ ?e d" "marshal d = Inr (?e d)" by auto
    have "length (written w1) + length (concat (map ?e ds)) \<le> 2 ^ 63 - 17"
      using Cons.prems(4) r1(3) by simp
    then obtain res2 w2 where wds: "write_directories WriteAt marshal ds w1 = Returns (res2, w2)" "fw_ok w2"
      and res2: "(\<exists>e. res2 = Inl e) \<or>
       (\<exists>regions. res2 = Inr regions \<and> \<not> failed w2 \<and> length regions = length ds \<and>
        written w2 = written w1 @ concat (map ?e ds) \<and>
        (\<forall>i < length ds. marshal (ds ! i) = Inr (?e (ds ! i)) \<and>
           regions ! i = region_for (written w1 @ concat (map ?e (take i ds))) (?e (ds ! i))))"
      using Cons.IH [OF _ wd(2) r1(2)] by metis
    let ?res = "case res2 of Inl e \<Rightarrow> Inl e | Inr regions \<Rightarrow> Inr (region_for (written w) (?e d) # regions)"
    have eq: "write_directories WriteAt marshal (d # ds) w = Returns (?res, w2)"
      using wd(1) wds(1) r1(1) by simp
    show ?thesis
    proof (rule Cons.prems(1) [OF eq wds(2)], insert res2, elim disjE exE conjE, goal_cases)
      case (1 e)
      then show ?case by simp
    next
      case (2 regions)
      then show ?case using r1 by (auto simp: nth_Cons' less_Suc_eq_0_disj)
    qed
  qed
qed

end

subsection \<open>Reading\<close>

context reader_at
begin

lemma ReadFull_content:
  assumes "0 \<le> off" "off + int n < 2 ^ 63"
  shows "ReadFull (offsetReader_Read ReadAt) n off =
    Returns (if nat off + n \<le> length content then Inr (take n (drop (nat off) content))
      else if n = 0 then Inr []
      else if length content \<le> nat off then Inl EOF else Inl ErrUnexpectedEOF)"
proof -
  obtain p err where r: "ReadAt n off = (p, err)" by fastforce
  have law: "p = take n (drop (nat off) content)" "length p < n \<longrightarrow> err = Some EOF"
    using ReadAt_law [OF assms(1) r] by auto
  have "offsetReader_Read ReadAt n off = (p, err, to_int64 (off + int (length p)))"
    by (simp add: offsetReader_Read_def r)
  from ReadFull_one_call [of "offsetReader_Read ReadAt", OF this] law show ?thesis
    by auto
qed

lemma readMessage_content:
  assumes "content = pre @ data @ post" "data \<noteq> []" "unmarshal data = Inr m"
    and "16 \<le> length pre" "length data < 2 ^ 31" "int (length pre + length data) \<le> max_off" "max_off < 2 ^ 63"
  shows "readMessage unmarshal \<lparr>rawReader = Some ReadAt, maximumOffsetBytes = max_off\<rparr>
      (int (length pre)) (int (length data)) =
    Returns (Inr (\<lparr>rawReader = Some ReadAt, maximumOffsetBytes = int (length pre)\<rparr>, m))"
proof -
  have "ReadFull (offsetReader_Read ReadAt) (length data) (int (length pre)) = Returns (Inr data)"
    using assms by (subst ReadFull_content) auto
  with assms show ?thesis
    by (simp add: readMessage_def headerSizeBytes_def Let_def)
qed

end


subsection \<open>Regular files\<close>

definition file_WriteAt :: "bytes writer_at_op" where
  "file_WriteAt p off c =
     (if off < 0 then (0, Some (Foreign ''negative offset''), c)
      else (length p, None, splice c (nat off) p))"

definition file_ReadAt :: "bytes \<Rightarrow> reader_at_op" where
  "file_ReadAt c n off =
     (if off < 0 then ([], Some (Foreign ''negative offset''))
      else (take n (drop (nat off) c), if nat off + n \<le> length c then None else Some EOF))"

interpretation regular_file: writer_at file_WriteAt "\<lambda>c. c"
  by unfold_locales (auto simp: file_WriteAt_def)

interpretation regular_file_reader: reader_at "file_ReadAt c" c for c
  by unfold_locales (auto simp: file_ReadAt_def)

section \<open>The header\<close>

lemma sint_word_of_int_64: "0 \<le> x \<Longrightarrow> x < 2 ^ 63 \<Longrightarrow> sint (word_of_int x :: uint64) = x"
  using sint_of_nat64 [of "nat x"] by simp

lemma sint_word_of_int_32: "0 \<le> x \<Longrightarrow> x < 2 ^ 31 \<Longrightarrow> sint (word_of_int x :: uint32) = x"
  by (simp add: sint_uint signed_take_bit_int_eq_self take_bit_int_eq_self unsigned_of_int)

lemma header_decode:
  assumes "0 \<le> GetOffsetBytes r" "GetOffsetBytes r < 2 ^ 63" "0 \<le> GetSizeBytes r" "GetSizeBytes r < 2 ^ 31"
  shows "length (header_bytes r) = 16"
    and "take 4 (header_bytes r) = headerMagic"
    and "sint (Uint64 (drop 4 (header_bytes r))) = GetOffsetBytes r"
    and "sint (Uint32 (drop 12 (header_bytes r))) = GetSizeBytes r"
proof -
  have d4: "drop 4 (header_bytes r) = PutUint64 (word_of_int (GetOffsetBytes r))
       @ PutUint32 (word_of_int (GetSizeBytes r))"
    and d12: "drop 12 (header_bytes r) = PutUint32 (word_of_int (GetSizeBytes r)) @ []"
    by (simp_all add: header_bytes_def)
  show "length (header_bytes r) = 16" "take 4 (header_bytes r) = headerMagic"
    by (simp_all add: header_bytes_def)
  show "sint (Uint64 (drop 4 (header_bytes r))) = GetOffsetBytes r"
    unfolding d4 Uint64_PutUint64 using assms(1,2) by (rule sint_word_of_int_64)
  show "sint (Uint32 (drop 12 (header_bytes r))) = GetSizeBytes r"
    unfolding d12 Uint32_PutUint32 using assms(3,4) by (rule sint_word_of_int_32)
qed

context writer_at
begin

lemma unfinished_header:
  assumes "content f = []"
    and "write_directories WriteAt marshalD ds (NewFileWriter f) = Returns (res, w)"
    and "length (concat (map (encoding marshalD) ds)) \<le> 2 ^ 63 - 17"
  shows "set (take 16 (content (fw_rawWriter w))) \<subseteq> {0}"
proof -
  note new = NewFileWriter_ok [OF assms(1)]
  have "length (written (NewFileWriter f)) + length (concat (map (encoding marshalD) ds)) \<le> 2 ^ 63 - 17"
    using new assms(3) by simp
  from write_directories_ok [OF conjunct1 [OF new] conjunct2 [OF conjunct2 [OF new]] this] assms(2)
  have "fw_ok w" by (metis exec.inject(1) prod.inject)
  then show ?thesis by (simp add: fw_ok_def ow.buf_ok_def cursor_ok_def fw_rawWriter_def)
qed

text \<open>The bytes of a finished file, and the regions its directories were given.\<close>

lemma finished_file:
  assumes "content f = []"
    and "write_directories WriteAt marshalD ds (NewFileWriter f) = Returns (Inr regions, w)"
    and "Finalize WriteAt marshalR root w = Returns (None, w')" "marshalR root = Inr rootBytes"
    and "length (concat (map (encoding marshalD) ds)) + length rootBytes \<le> 2 ^ 63 - 17"
  shows "content (fw_rawWriter w') =
      header_bytes (region_for (concat (map (encoding marshalD) ds)) rootBytes)
        @ concat (map (encoding marshalD) ds) @ rootBytes"
    and "length regions = length ds"
    and "\<forall>i < length ds. marshalD (ds ! i) = Inr (encoding marshalD (ds ! i)) \<and>
      regions ! i = region_for (concat (map (encoding marshalD) (take i ds))) (encoding marshalD (ds ! i))"
proof -
  note new = NewFileWriter_ok [OF assms(1)]
  have "length (written (NewFileWriter f)) + length (concat (map (encoding marshalD) ds)) \<le> 2 ^ 63 - 17"
    using new assms(5) by simp
  from write_directories_ok [OF conjunct1 [OF new] conjunct2 [OF conjunct2 [OF new]] this] assms(2)
  have ok: "fw_ok w" "\<not> failed w" "written w = concat (map (encoding marshalD) ds)"
    and "length regions = length ds"
    and "\<forall>i < length ds. marshalD (ds ! i) = Inr (encoding marshalD (ds ! i)) \<and>
      regions ! i = region_for (concat (map (encoding marshalD) (take i ds))) (encoding marshalD (ds ! i))"
    using new by fastforce+
  then show "length regions = length ds"
    "\<forall>i < length ds. marshalD (ds ! i) = Inr (encoding marshalD (ds ! i)) \<and>
      regions ! i = region_for (concat (map (encoding marshalD) (take i ds))) (encoding marshalD (ds ! i))"
    by auto
  show "content (fw_rawWriter w') =
      header_bytes (region_for (concat (map (encoding marshalD) ds)) rootBytes)
        @ concat (map (encoding marshalD) ds) @ rootBytes"
    using Finalize_ok [OF ok(1,2) assms(4) _ assms(3)] ok(3) assms(5) by simp
qed

end

context reader_at
begin

lemma NewFileReader_finished:
  assumes c: "content = header_bytes (region_for before rootBytes) @ before @ rootBytes"
    and "rootBytes \<noteq> []" "unmarshal rootBytes = Inr root" "length rootBytes < 2 ^ 31"
    and "16 + int (length before) + int (length rootBytes) \<le> maxBytes" "maxBytes < 2 ^ 63"
  shows "NewFileReader unmarshal ReadAt maxBytes =
    Returns (Inr (\<lparr>rawReader = Some ReadAt, maximumOffsetBytes = 16 + int (length before)\<rparr>, root))"
proof -
  let ?r = "region_for before rootBytes"
  have r: "GetOffsetBytes ?r = 16 + int (length before)" "GetSizeBytes ?r = int (length rootBytes)"
    using assms(2,4) by (simp_all add: region_for_def GetOffsetBytes_def GetSizeBytes_def)
  have "0 \<le> GetOffsetBytes ?r" "GetOffsetBytes ?r < 2 ^ 63" "0 \<le> GetSizeBytes ?r" "GetSizeBytes ?r < 2 ^ 31"
    using r assms(4,5,6) by simp_all
  note hd = header_decode [OF this]
  have full: "ReadFull (offsetReader_Read ReadAt) (nat headerSizeBytes) 0 = Returns (Inr (header_bytes ?r))"
    using hd(1) by (subst ReadFull_content) (simp_all add: c headerSizeBytes_def)
  have "readMessage unmarshal \<lparr>rawReader = Some ReadAt, maximumOffsetBytes = maxBytes\<rparr>
      (int (length (header_bytes ?r @ before))) (int (length rootBytes)) =
    Returns (Inr (\<lparr>rawReader = Some ReadAt, maximumOffsetBytes = int (length (header_bytes ?r @ before))\<rparr>, root))"
    using assms hd(1) by (intro readMessage_content [where post = "[]"]) auto
  then show ?thesis
    using hd full r by (simp add: NewFileReader_def)
qed

lemma ReadDirectory_finished:
  assumes c: "content = hdr @ before @ data @ rest" and "length hdr = 16"
    and "unmarshal data = Inr d" "unmarshal [] = Inr empty_Directory" "length data < 2 ^ 31"
    and "16 + int (length before) + int (length data) \<le> maxBytes" "maxBytes < 2 ^ 63"
  shows "\<exists>r'. ReadDirectory unmarshal \<lparr>rawReader = Some ReadAt, maximumOffsetBytes = maxBytes\<rparr>
     (region_for before data) = Returns (Inr (r', d))"
proof (cases "data = []")
  case True
  with assms(3,4) show ?thesis by (simp add: ReadDirectory_def region_for_def)
next
  case False
  have "readMessage unmarshal \<lparr>rawReader = Some ReadAt, maximumOffsetBytes = maxBytes\<rparr>
      (int (length (hdr @ before))) (int (length data)) =
    Returns (Inr (\<lparr>rawReader = Some ReadAt, maximumOffsetBytes = int (length (hdr @ before))\<rparr>, d))"
    using assms False by (intro readMessage_content [where post = rest]) auto
  with False assms(2,5) show ?thesis by (simp add: ReadDirectory_def region_for_def)
qed

end

lemma concat_split_at: "i < length xs \<Longrightarrow> concat xs = concat (take i xs) @ xs ! i @ concat (drop (Suc i) xs)"
  by (metis concat.simps(2) concat_append id_take_nth_drop)

definition reader_contract :: "reader_at_op \<Rightarrow> bool" where
  "reader_contract ReadAt \<longleftrightarrow> (\<forall>n off. length (fst (ReadAt n off)) \<le> n \<and>
     (length (fst (ReadAt n off)) < n \<longrightarrow> snd (ReadAt n off) \<noteq> None))"

lemma ReadFull_returns:
  assumes "reader_contract ReadAt"
  shows "\<exists>res. ReadFull (offsetReader_Read ReadAt) n off = Returns res"
proof -
  obtain p err where r: "ReadAt n off = (p, err)" by fastforce
  have "offsetReader_Read ReadAt n off = (p, err, to_int64 (off + int (length p)))"
    by (simp add: offsetReader_Read_def r)
  moreover have "length p \<le> n" "length p < n \<longrightarrow> err \<noteq> None"
    using assms r unfolding reader_contract_def by (metis fst_conv snd_conv)+
  ultimately show ?thesis using ReadFull_one_call [of "offsetReader_Read ReadAt"] by blast
qed

lemma readMessage_returns:
  assumes "rawReader r = Some ReadAt" "reader_contract ReadAt"
  shows "(\<exists>e. readMessage unmarshal r off sz = Returns (Inl e)) \<or>
    (\<exists>m. readMessage unmarshal r off sz =
       Returns (Inr (\<lparr>rawReader = Some ReadAt, maximumOffsetBytes = off\<rparr>, m)) \<and>
       16 \<le> off \<and> off \<le> maximumOffsetBytes r)"
proof -
  obtain res where "ReadFull (offsetReader_Read ReadAt) (nat sz) off = Returns res"
    using ReadFull_returns [OF assms(2)] by blast
  with assms(1) show ?thesis
    by (cases res) (auto simp: readMessage_def headerSizeBytes_def Let_def split: sum.splits)
qed

context reader_at
begin

lemma zero_header_rejected:
  assumes "set (take 16 content) \<subseteq> {0}"
  shows "\<exists>e. NewFileReader unmarshalR ReadAt maxBytes = Returns (Inl e)"
proof (cases "16 \<le> length content")
  case True
  then have "ReadFull (offsetReader_Read ReadAt) (nat headerSizeBytes) 0 = Returns (Inr (take 16 content))"
    by (subst ReadFull_content) (simp_all add: headerSizeBytes_def)
  moreover have "take 4 (take 16 content) \<noteq> headerMagic"
  proof
    assume eq: "take 4 (take 16 content) = headerMagic"
    have "set (take 4 (take 16 content)) \<subseteq> {0}" using assms by (meson order.trans set_take_subset)
    with eq show False by (simp add: headerMagic_def)
  qed
  ultimately show ?thesis by (simp add: NewFileReader_def)
next
  case False
  have "ReadFull (offsetReader_Read ReadAt) (nat headerSizeBytes) 0 =
      Returns (Inl (if content = [] then EOF else ErrUnexpectedEOF))"
    using False by (subst ReadFull_content) (auto simp: headerSizeBytes_def)
  then show ?thesis by (simp add: NewFileReader_def)
qed

end

lemma finished_file_reads_back:
  assumes W: "writer_at WriteAt content" and fresh: "content f = []"
    and dirs: "write_directories WriteAt marshalD ds (NewFileWriter f) = Returns (Inr regions, w)"
    and fin: "Finalize WriteAt marshalR root w = Returns (None, w')"
    and R: "reader_at ReadAt (content (fw_rawWriter w'))"
    and codecD: "\<forall>d bs. marshalD d = Inr bs \<longrightarrow> unmarshalD bs = Inr d" "unmarshalD [] = Inr empty_Directory"
    and root: "marshalR root = Inr rootBytes" "unmarshalR rootBytes = Inr root" "rootBytes \<noteq> []"
    and small: "\<forall>d \<in> set ds. length (encoding marshalD d) < 2 ^ 31" "length rootBytes < 2 ^ 31"
    and fits: "int (length (content (fw_rawWriter w'))) \<le> maxBytes" "maxBytes < 2 ^ 63"
    and fits': "16 + length (concat (map (encoding marshalD) ds)) + length rootBytes < 2 ^ 63"
  shows "\<exists>r. NewFileReader unmarshalR ReadAt maxBytes = Returns (Inr (r, root)) \<and>
    length regions = length ds \<and>
    (\<forall>i < length ds. \<exists>r'. ReadDirectory unmarshalD r (regions ! i) = Returns (Inr (r', ds ! i)))"
proof -
  let ?body = "concat (map (encoding marshalD) ds)"
  let ?r = "\<lparr>rawReader = Some ReadAt, maximumOffsetBytes = 16 + int (length ?body)\<rparr>"
  have "length ?body + length rootBytes \<le> 2 ^ 63 - 17" using fits' by simp
  note ff = writer_at.finished_file [OF W fresh dirs fin root(1) this]
  have len: "length (content (fw_rawWriter w')) = 16 + length ?body + length rootBytes"
    by (simp add: ff(1) header_bytes_def)
  have "NewFileReader unmarshalR ReadAt maxBytes = Returns (Inr (?r, root))"
    using fits len root small(2) by (intro reader_at.NewFileReader_finished [OF R ff(1)]) auto
  moreover have "\<exists>r'. ReadDirectory unmarshalD ?r (regions ! i) = Returns (Inr (r', ds ! i))"
    if i: "i < length ds" for i
  proof -
    let ?before = "concat (map (encoding marshalD) (take i ds))"
    have split: "?body = ?before @ encoding marshalD (ds ! i) @ concat (map (encoding marshalD) (drop (Suc i) ds))"
      using concat_split_at [of i "map (encoding marshalD) ds"] i by (simp add: take_map drop_map)
    then have c: "content (fw_rawWriter w') = header_bytes (region_for ?body rootBytes) @ ?before
        @ encoding marshalD (ds ! i) @ concat (map (encoding marshalD) (drop (Suc i) ds)) @ rootBytes"
      using ff(1) by simp
    show ?thesis
      using reader_at.ReadDirectory_finished [OF R c, of unmarshalD "ds ! i" "16 + int (length ?body)"]
        ff(3) i codecD small(1) split fits' by (simp add: header_bytes_def)
  qed
  ultimately show ?thesis using ff(2) by blast
qed

lemma readMessage_guard:
  assumes "readMessage unmarshal r off sz = Returns (Inr (r', m))"
    and "maximumOffsetBytes r \<le> 2 ^ 63 - 2 ^ 31" "sz < 2 ^ 31"
  shows "maximumOffsetBytes r' = off \<and> 16 \<le> off \<and> 0 < sz \<and> off + sz \<le> maximumOffsetBytes r \<and>
    rawReader r' = rawReader r"
proof -
  have guard: "16 \<le> off" "off \<le> maximumOffsetBytes r" "0 < sz"
      "to_int64 (off + sz) \<le> maximumOffsetBytes r"
    and r': "maximumOffsetBytes r' = off" "rawReader r' = rawReader r"
    using assms(1)
    by (auto simp: readMessage_def headerSizeBytes_def Let_def exec_try_Returns_Inr
        case_sum_Returns_Inr split: if_splits option.splits)
  moreover have "to_int64 (off + sz) = off + sz"
    using guard assms(2,3) by (intro to_int64_id) auto
  ultimately show ?thesis by auto
qed

lemma NewFileReader_total:
  assumes "reader_contract ReadAt"
  shows "(\<exists>e. NewFileReader unmarshal ReadAt maxBytes = Returns (Inl e)) \<or>
    (\<exists>r root. NewFileReader unmarshal ReadAt maxBytes = Returns (Inr (r, root)) \<and>
      rawReader r = Some ReadAt \<and> 16 \<le> maximumOffsetBytes r \<and> maximumOffsetBytes r \<le> maxBytes)"
proof -
  obtain res where res: "ReadFull (offsetReader_Read ReadAt) (nat headerSizeBytes) 0 = Returns res"
    using ReadFull_returns [OF assms] by blast
  show ?thesis
  proof (cases res)
    case (Inl e)
    with res show ?thesis by (simp add: NewFileReader_def)
  next
    case (Inr hdr)
    let ?r = "\<lparr>rawReader = Some ReadAt, maximumOffsetBytes = maxBytes\<rparr>"
    show ?thesis
      using readMessage_returns [of ?r ReadAt unmarshal "sint (Uint64 (drop 4 hdr))" "sint (Uint32 (drop 12 hdr))"]
        assms res Inr by (auto simp: NewFileReader_def)
  qed
qed

section \<open>A concrete codec\<close>

text \<open>One directory and one root message with their encodings, for the witnesses below.\<close>

definition demo_dir :: Directory where
  "demo_dir = \<lparr>Directories = [], Files = [], Symlinks = [\<lparr>sn_Name = ''a'', sn_Target = ''b''\<rparr>]\<rparr>"

definition demo_root :: RootDirectory where
  "demo_root = \<lparr>InitialCreationTime = Some \<lparr>ts_Seconds = 1000, ts_Nanos = 0\<rparr>, Contents = Some empty_Directory\<rparr>"

definition demo_marshalD :: "Directory \<Rightarrow> bytes result" where
  "demo_marshalD d =
     (if d = empty_Directory then Inr [] else if d = demo_dir then Inr [1, 2] else Inl (Foreign ''marshal''))"

definition demo_unmarshalD :: "bytes \<Rightarrow> Directory result" where
  "demo_unmarshalD bs =
     (if bs = [] then Inr empty_Directory else if bs = [1, 2] then Inr demo_dir else Inl (Foreign ''unmarshal''))"

definition demo_marshalR :: "RootDirectory \<Rightarrow> bytes result" where
  "demo_marshalR m =
     (if m = demo_root then Inr [7] else if m = \<lparr>InitialCreationTime = None, Contents = None\<rparr> then Inr []
      else Inl (Foreign ''marshal''))"

definition demo_unmarshalR :: "bytes \<Rightarrow> RootDirectory result" where
  "demo_unmarshalR bs = (if bs = [7] then Inr demo_root else Inl (Foreign ''unmarshal''))"

definition demo_w1 :: "bytes fileWriter" where
  "demo_w1 =
     \<lparr>fw_bufferedWriter =
        \<lparr>bw_size = 1048576, bw_buf = [1, 2], bw_err = None, bw_wr = \<lparr>ow_w = [], ow_offsetBytes = 16\<rparr>\<rparr>,
      fw_offsetBytes = 18\<rparr>"

lemmas demo_defs = demo_dir_def demo_root_def demo_marshalD_def demo_unmarshalD_def demo_marshalR_def
  demo_unmarshalR_def empty_Directory_def

lemma demo_write:
  "write_directories file_WriteAt demo_marshalD [demo_dir] (NewFileWriter []) =
     Returns (Inr [Some \<lparr>OffsetBytes = 16, SizeBytes = 2\<rparr>], demo_w1)"
  by (simp add: WriteDirectory_def writeMessage_def NewFileWriter_def bufio_NewWriterSize_def bufio_Write_def
      bufio_Write_loop.simps demo_defs demo_w1_def headerSizeBytes_def)

lemma demo_finalize:
  "\<exists>w'. Finalize file_WriteAt demo_marshalR demo_root demo_w1 = Returns (None, w') \<and>
     length (fw_rawWriter w') = 19"
  by (simp add: Finalize_def writeMessage_def bufio_Write_def bufio_Write_loop.simps demo_defs demo_w1_def
      bufio_Flush_def offsetWriter_Write_def file_WriteAt_def splice_def header_bytes_def fw_rawWriter_def
      split: prod.splits)

lemma demo_codec: "\<forall>d bs. demo_marshalD d = Inr bs \<longrightarrow> demo_unmarshalD bs = Inr d"
  by (simp add: demo_marshalD_def demo_unmarshalD_def)

lemma file_ReadAt_contract: "reader_contract (file_ReadAt c)"
  by (auto simp: reader_contract_def file_ReadAt_def)

section \<open>Properties\<close>

text \<open>
  C14. Round trip of a state file. Directories written one after the other with
  \<^verbatim>\<open>WriteDirectory\<close> and a root directory written with \<^verbatim>\<open>Finalize\<close> into a fresh
  file come back: \<^verbatim>\<open>NewFileReader\<close> returns the root, and \<^verbatim>\<open>ReadDirectory\<close> on
  each region the writer handed out returns the directory written there, an empty directory
  (nil region) included. The file is any \<^verbatim>\<open>io.WriterAt\<close> and \<^verbatim>\<open>io.ReaderAt\<close> that
  keep their contracts, the codec any inverse pair, and no message reaches 2 GiB.
\<close>

theorem state_file_roundtrip:
  assumes W: "writer_at WriteAt content" and fresh: "content f = []"
    and dirs: "write_directories WriteAt marshalD ds (NewFileWriter f) = Returns (Inr regions, w)"
    and fin: "Finalize WriteAt marshalR root w = Returns (None, w')"
    and R: "reader_at ReadAt (content (fw_rawWriter w'))"
    and codecD: "\<forall>d bs. marshalD d = Inr bs \<longrightarrow> unmarshalD bs = Inr d" "unmarshalD [] = Inr empty_Directory"
    and root: "marshalR root = Inr rootBytes" "unmarshalR rootBytes = Inr root" "rootBytes \<noteq> []"
    and small: "\<forall>d \<in> set ds. length (encoding marshalD d) < 2 ^ 31" "length rootBytes < 2 ^ 31"
    and fits: "int (length (content (fw_rawWriter w'))) \<le> maxBytes" "maxBytes < 2 ^ 63"
    and fits': "16 + length (concat (map (encoding marshalD) ds)) + length rootBytes < 2 ^ 63"
  shows "\<exists>r. NewFileReader unmarshalR ReadAt maxBytes = Returns (Inr (r, root)) \<and>
    length regions = length ds \<and>
    (\<forall>i < length ds. \<exists>r'. ReadDirectory unmarshalD r (regions ! i) = Returns (Inr (r', ds ! i)))"
  using assms by (rule finished_file_reads_back)

theorem state_file_roundtrip_witness:
  "\<exists>w' r r'. Finalize file_WriteAt demo_marshalR demo_root demo_w1 = Returns (None, w') \<and>
     NewFileReader demo_unmarshalR (file_ReadAt (fw_rawWriter w')) 100 = Returns (Inr (r, demo_root)) \<and>
     ReadDirectory demo_unmarshalD r (Some \<lparr>OffsetBytes = 16, SizeBytes = 2\<rparr>) = Returns (Inr (r', demo_dir))"
proof -
  obtain w' where w': "Finalize file_WriteAt demo_marshalR demo_root demo_w1 = Returns (None, w')"
    "length (fw_rawWriter w') = 19" using demo_finalize by blast
  have "\<exists>r. NewFileReader demo_unmarshalR (file_ReadAt (fw_rawWriter w')) 100 = Returns (Inr (r, demo_root)) \<and>
      length [Some \<lparr>OffsetBytes = 16, SizeBytes = 2\<rparr>] = length [demo_dir] \<and>
      (\<forall>i < length [demo_dir]. \<exists>r'. ReadDirectory demo_unmarshalD r
         ([Some \<lparr>OffsetBytes = 16, SizeBytes = 2\<rparr>] ! i) = Returns (Inr (r', [demo_dir] ! i)))"
    by (rule state_file_roundtrip [where rootBytes = "[7]", OF regular_file.writer_at_axioms _ demo_write w'(1)
          regular_file_reader.reader_at_axioms demo_codec])
      (simp_all add: w'(2) demo_defs encoding_def)
  then show ?thesis using w'(1) by auto
qed

text \<open>
  C20. References only point backwards. When reading the message of a region succeeds, the
  region lies between the header and the reader's limit, and the reader handed out for the
  children is limited to the offset of that message; so a chain of references always
  descends and a state file has no cycles. The bound on the limit excludes wrap-around of
  the 64-bit sum that the check computes.
\<close>

theorem readMessage_descends:
  assumes "readMessage unmarshal r off sz = Returns (Inr (r', m))"
    and "maximumOffsetBytes r \<le> 2 ^ 63 - 2 ^ 31" "sz < 2 ^ 31"
  shows "maximumOffsetBytes r' = off \<and> 16 \<le> off \<and> 0 < sz \<and> off + sz \<le> maximumOffsetBytes r \<and>
    rawReader r' = rawReader r"
  using assms by (rule readMessage_guard)

theorem readMessage_descends_witness:
  "\<exists>r' m. readMessage demo_unmarshalD
       \<lparr>rawReader = Some (file_ReadAt (replicate 16 0 @ [1, 2])), maximumOffsetBytes = 100\<rparr> 16 2 = Returns (Inr (r', m)) \<and>
     maximumOffsetBytes r' = 16"
proof -
  let ?r = "\<lparr>rawReader = Some (file_ReadAt (replicate 16 0 @ [1, 2])), maximumOffsetBytes = 100\<rparr>"
  have r: "readMessage demo_unmarshalD ?r (int (length (replicate 16 (0 :: byte)))) (int (length [1 :: byte, 2])) =
      Returns (Inr (\<lparr>rawReader = Some (file_ReadAt (replicate 16 0 @ [1, 2])),
        maximumOffsetBytes = int (length (replicate 16 (0 :: byte)))\<rparr>, demo_dir))"
    by (rule regular_file_reader.readMessage_content [where post = "[]"]) (simp_all add: demo_unmarshalD_def)
  show ?thesis using readMessage_descends [OF r] r by simp
qed

text \<open>
  The reader given out for an empty subdirectory has a nil file. It is never
  dereferenced: whatever region is asked of it, the bounds check refuses first.
\<close>

theorem nil_reader_never_dereferenced:
  "\<exists>e. readMessage unmarshal \<lparr>rawReader = None, maximumOffsetBytes = 0\<rparr> off sz = Returns (Inl e)"
  by (auto simp: readMessage_def headerSizeBytes_def Let_def)

text \<open>
  Opening a state file always returns, with an error or with the root directory and a
  reader whose limit is between the header's end and the maximum size, whatever bytes the
  file has: it neither panics nor loops, given the \<^verbatim>\<open>io.ReaderAt\<close> contract that a
  short read comes with an error.
\<close>

theorem NewFileReader_returns:
  assumes "reader_contract ReadAt"
  shows "(\<exists>e. NewFileReader unmarshal ReadAt maxBytes = Returns (Inl e)) \<or>
    (\<exists>r root. NewFileReader unmarshal ReadAt maxBytes = Returns (Inr (r, root)) \<and>
      rawReader r = Some ReadAt \<and> 16 \<le> maximumOffsetBytes r \<and> maximumOffsetBytes r \<le> maxBytes)"
  using assms by (rule NewFileReader_total)

theorem NewFileReader_returns_witness:
  "(\<exists>e. NewFileReader demo_unmarshalR (file_ReadAt [0]) 100 = Returns (Inl e)) \<or>
   (\<exists>r root. NewFileReader demo_unmarshalR (file_ReadAt [0]) 100 = Returns (Inr (r, root)) \<and>
      rawReader r = Some (file_ReadAt [0]) \<and> 16 \<le> maximumOffsetBytes r \<and> maximumOffsetBytes r \<le> 100)"
  by (rule NewFileReader_returns [OF file_ReadAt_contract])

text \<open>
  C21. A state file is invalid until its header is written. After any number of
  \<^verbatim>\<open>WriteDirectory\<close> calls on a fresh file, failed ones included, \<^verbatim>\<open>NewFileReader\<close>
  rejects the file.
\<close>

theorem unfinished_file_rejected:
  assumes W: "writer_at WriteAt content" and fresh: "content f = []"
    and dirs: "write_directories WriteAt marshalD ds (NewFileWriter f) = Returns (res, w)"
    and fits: "16 + length (concat (map (encoding marshalD) ds)) < 2 ^ 63"
    and R: "reader_at ReadAt (content (fw_rawWriter w))"
  shows "\<exists>e. NewFileReader unmarshalR ReadAt maxBytes = Returns (Inl e)"
proof -
  have "set (take 16 (content (fw_rawWriter w))) \<subseteq> {0}"
    using writer_at.unfinished_header [OF W fresh dirs] fits by simp
  then show ?thesis by (rule reader_at.zero_header_rejected [OF R])
qed

theorem unfinished_file_rejected_witness:
  "\<exists>e. NewFileReader demo_unmarshalR (file_ReadAt (fw_rawWriter demo_w1)) 100 = Returns (Inl e)"
  by (rule unfinished_file_rejected [OF regular_file.writer_at_axioms _ demo_write _
        regular_file_reader.reader_at_axioms]) (simp_all add: encoding_def demo_defs)

text \<open>
  A root directory that marshals to zero bytes is not stored, so \<^verbatim>\<open>Finalize\<close>
  succeeds but leaves a header whose region is empty, and \<^verbatim>\<open>NewFileReader\<close> rejects the
  file.
\<close>

theorem empty_root_unreadable:
  assumes W: "writer_at WriteAt content" and fresh: "content f = []"
    and root: "marshalR root = Inr []"
    and dirs: "write_directories WriteAt marshalD ds (NewFileWriter f) = Returns (Inr regions, w)"
    and fits: "16 + length (concat (map (encoding marshalD) ds)) < 2 ^ 63"
    and fin: "Finalize WriteAt marshalR root w = Returns (None, w')"
    and R: "reader_at ReadAt (content (fw_rawWriter w'))"
  shows "\<exists>e. NewFileReader unmarshalR ReadAt maxBytes = Returns (Inl e)"
proof -
  have "length (concat (map (encoding marshalD) ds)) + length ([] :: bytes) \<le> 2 ^ 63 - 17" using fits by simp
  note ff = writer_at.finished_file(1) [OF W fresh dirs fin root this]
  have hd: "ReadFull (offsetReader_Read ReadAt) (nat headerSizeBytes) 0 = Returns (Inr (header_bytes None))"
    by (subst reader_at.ReadFull_content [OF R])
      (simp_all add: ff headerSizeBytes_def region_for_def header_decode(1) GetOffsetBytes_def GetSizeBytes_def)
  have "sint (Uint64 (drop 4 (header_bytes None))) = 0"
    using header_decode(3) [of None] by (simp add: GetOffsetBytes_def GetSizeBytes_def)
  with hd show ?thesis
    by (simp add: NewFileReader_def readMessage_def headerSizeBytes_def Let_def)
qed

theorem empty_root_unreadable_witness:
  "\<exists>w' e. Finalize file_WriteAt demo_marshalR \<lparr>InitialCreationTime = None, Contents = None\<rparr> demo_w1 =
      Returns (None, w') \<and>
    NewFileReader demo_unmarshalR (file_ReadAt (fw_rawWriter w')) 100 = Returns (Inl e)"
proof -
  have "\<exists>w'. Finalize file_WriteAt demo_marshalR \<lparr>InitialCreationTime = None, Contents = None\<rparr> demo_w1 =
      Returns (None, w')"
    by (simp add: Finalize_def writeMessage_def demo_defs demo_w1_def bufio_Flush_def offsetWriter_Write_def
        file_WriteAt_def)
  then obtain w' where w': "Finalize file_WriteAt demo_marshalR \<lparr>InitialCreationTime = None, Contents = None\<rparr> demo_w1 =
      Returns (None, w')" by blast
  have "\<exists>e. NewFileReader demo_unmarshalR (file_ReadAt (fw_rawWriter w')) 100 = Returns (Inl e)"
    by (rule empty_root_unreadable [OF regular_file.writer_at_axioms _ _ demo_write _ w'
          regular_file_reader.reader_at_axioms]) (simp_all add: demo_defs encoding_def)
  with w' show ?thesis by blast
qed

end
