(* ===== verification/State_Store.thy ===== *)
theory State_Store
  imports State_File
begin

text \<open>
  The stores of output path state files: \<^verbatim>\<open>directory_backed_store.go\<close> and
  \<^verbatim>\<open>maximum_age_store.go\<close> of \<^verbatim>\<open>pkg/outputpathpersistency\<close>.

  The directory that holds the state files (\<^verbatim>\<open>filesystem.Directory\<close>) is outside the
  repository: its operations are the fields of a record that every operation takes, over a
  state \<open>'s\<close> of the directory, handles \<open>'h\<close> of files open for writing and \<open>'r\<close> of
  files open for reading. The locale \<open>state_directory\<close> states what the operations
  document. \<^verbatim>\<open>path.NewComponent\<close> is the predicate \<open>newComponent\<close>.
\<close>

section \<open>Parameters\<close>

record ('s, 'h, 'r) directory_ops =
  OpenRead :: "string \<Rightarrow> 's \<Rightarrow> ('r \<times> reader_at_op) result \<times> 's"
  CloseRead :: "'r \<Rightarrow> 's \<Rightarrow> 's"
  OpenWriteExcl :: "string \<Rightarrow> 's \<Rightarrow> 'h result \<times> 's"
  HandleWriteAt :: "'h \<Rightarrow> 's writer_at_op"
  Sync :: "'h \<Rightarrow> 's \<Rightarrow> go_error option \<times> 's"
  CloseWrite :: "'h \<Rightarrow> 's \<Rightarrow> go_error option \<times> 's"
  Remove :: "string \<Rightarrow> 's \<Rightarrow> go_error option \<times> 's"
  Rename :: "string \<Rightarrow> string \<Rightarrow> 's \<Rightarrow> go_error option \<times> 's"

record codec =
  marshalDirectory :: "Directory \<Rightarrow> bytes result"
  marshalRoot :: "RootDirectory \<Rightarrow> bytes result"
  unmarshalDirectory :: "bytes \<Rightarrow> Directory result"
  unmarshalRoot :: "bytes \<Rightarrow> RootDirectory result"

section \<open>directory\_backed\_store.go\<close>

record ('s, 'h, 'r) directoryBackedStore =
  dbs_directory :: "('s, 'h, 'r) directory_ops"
  dbs_maximumStateFileSizeBytes :: int

text \<open>
  \<^verbatim>\<open>Read\<close> returns the reader together with the handle its \<^verbatim>\<open>Close\<close> closes; on
  failure the handle is closed before it returns.
\<close>

definition dbs_Read ::
    "codec \<Rightarrow> ('s, 'h, 'r) directoryBackedStore \<Rightarrow> string \<Rightarrow> 's \<Rightarrow>
     ((fileReader \<times> 'r) \<times> RootDirectory) result exec \<times> 's" where
  "dbs_Read c s outputBaseID st =
     (case OpenRead (dbs_directory s) outputBaseID st of
        (Inl e, st1) \<Rightarrow> (Returns (Inl (StatusWrap (Some e) ''Failed to open state file'' [])), st1)
      | (Inr (h, ReadAt), st1) \<Rightarrow>
          (case NewFileReader (unmarshalRoot c) ReadAt (dbs_maximumStateFileSizeBytes s) of
             Returns (Inl e) \<Rightarrow> (Returns (Inl e), CloseRead (dbs_directory s) h st1)
           | Returns (Inr (reader, rootDirectory)) \<Rightarrow> (Returns (Inr ((reader, h), rootDirectory)), st1)
           | Panics msg \<Rightarrow> (Panics msg, st1)
           | Diverges \<Rightarrow> (Diverges, st1)))"

definition getTemporaryName :: "(string \<Rightarrow> bool) \<Rightarrow> string \<Rightarrow> string result" where
  "getTemporaryName newComponent outputBaseID =
     (let temporaryName = outputBaseID @ ''.tmp''
      in if newComponent temporaryName then Inr temporaryName
         else Inl (Status InvalidArgument ''Cannot obtain a temporary filename for output base ID %#v''
                [FStr outputBaseID]))"

text \<open>
  A writer in progress. The directory's state is the state of the file below the
  \<open>fileWriter\<close>, so the record carries it there.
\<close>

record ('s, 'h, 'r) directoryBackedWriter =
  dbw_directory :: "('s, 'h, 'r) directory_ops"
  dbw_outputBaseID :: string
  dbw_temporaryName :: string
  dbw_temporaryFile :: 'h
  dbw_writer :: "'s fileWriter"

definition dbw_state :: "('s, 'h, 'r) directoryBackedWriter \<Rightarrow> 's" where
  "dbw_state w = fw_rawWriter (dbw_writer w)"

definition dbs_Write ::
    "(string \<Rightarrow> bool) \<Rightarrow> ('s, 'h, 'r) directoryBackedStore \<Rightarrow> string \<Rightarrow> 's \<Rightarrow>
     ('s, 'h, 'r) directoryBackedWriter result \<times> 's" where
  "dbs_Write newComponent s outputBaseID st =
     (case getTemporaryName newComponent outputBaseID of
        Inl e \<Rightarrow> (Inl e, st)
      | Inr temporaryName \<Rightarrow>
          (case Remove (dbs_directory s) temporaryName st of (err, st1) \<Rightarrow>
             if err \<noteq> None \<and> err \<noteq> Some (Errno ENOENT)
             then (Inl (StatusWrap err ''Failed to remove persistent state temporary file'' []), st1)
             else (case OpenWriteExcl (dbs_directory s) temporaryName st1 of
                (Inl e, st2) \<Rightarrow>
                  (Inl (StatusWrap (Some e) ''Failed to create persistent state temporary file'' []), st2)
              | (Inr temporaryFile, st2) \<Rightarrow>
                  (Inr \<lparr>dbw_directory = dbs_directory s, dbw_outputBaseID = outputBaseID,
                     dbw_temporaryName = temporaryName, dbw_temporaryFile = temporaryFile,
                     dbw_writer = NewFileWriter st2\<rparr>, st2))))"

definition dbs_Clean ::
    "(string \<Rightarrow> bool) \<Rightarrow> ('s, 'h, 'r) directoryBackedStore \<Rightarrow> string \<Rightarrow> 's \<Rightarrow> go_error option \<times> 's" where
  "dbs_Clean newComponent s outputBaseID st =
     (case getTemporaryName newComponent outputBaseID of
        Inl e \<Rightarrow> (Some e, st)
      | Inr temporaryName \<Rightarrow>
          (case Remove (dbs_directory s) outputBaseID st of (err, st1) \<Rightarrow>
             if err \<noteq> None \<and> err \<noteq> Some (Errno ENOENT)
             then (Some (StatusWrap err ''Failed to remove persistent state file'' []), st1)
             else (case Remove (dbs_directory s) temporaryName st1 of (err2, st2) \<Rightarrow>
                if err2 \<noteq> None \<and> err2 \<noteq> Some (Errno ENOENT)
                then (Some (StatusWrap err2 ''Failed to remove persistent state temporary file'' []), st2)
                else (None, st2))))"

definition dbw_WriteDirectory ::
    "codec \<Rightarrow> Directory \<Rightarrow> ('s, 'h, 'r) directoryBackedWriter \<Rightarrow>
     (FileRegion option result \<times> ('s, 'h, 'r) directoryBackedWriter) exec" where
  "dbw_WriteDirectory c directory w =
     exec_bind (WriteDirectory (HandleWriteAt (dbw_directory w) (dbw_temporaryFile w)) (marshalDirectory c)
         directory (dbw_writer w))
       (\<lambda>(res, fw). Returns (res, w\<lparr>dbw_writer := fw\<rparr>))"

text \<open>
  \<^verbatim>\<open>Close\<close> wraps \<^verbatim>\<open>err1\<close> in both branches, in the second one after having found it
  nil.
\<close>

definition dbw_Close :: "('s, 'h, 'r) directoryBackedWriter \<Rightarrow> 's \<Rightarrow> go_error option \<times> 's" where
  "dbw_Close w st =
     (case CloseWrite (dbw_directory w) (dbw_temporaryFile w) st of (err1, st1) \<Rightarrow>
        (case Remove (dbw_directory w) (dbw_temporaryName w) st1 of (err2, st2) \<Rightarrow>
           if err1 \<noteq> None
           then (Some (StatusWrap err1 ''Failed to close persistent state temporary file'' []), st2)
           else if err2 \<noteq> None \<and> err2 \<noteq> Some (Errno ENOENT)
           then (Some (StatusWrap err1 ''Failed to remove persistent state temporary file'' []), st2)
           else (None, st2)))"

definition dbw_Finalize ::
    "codec \<Rightarrow> RootDirectory \<Rightarrow> ('s, 'h, 'r) directoryBackedWriter \<Rightarrow> (go_error option \<times> 's) exec" where
  "dbw_Finalize c rootDirectory w =
     (let d = dbw_directory w; h = dbw_temporaryFile w
      in exec_bind (Finalize (HandleWriteAt d h) (marshalRoot c) rootDirectory (dbw_writer w)) (\<lambda>(err, fw).
           let st = fw_rawWriter fw
           in Returns
             (case err of
                Some e \<Rightarrow> (Some e, snd (dbw_Close w st))
              | None \<Rightarrow>
                  (case Sync d h st of
                     (Some e, st1) \<Rightarrow>
                       (Some (StatusWrap (Some e) ''Failed to synchronize contents of persistent state temporary file'' []),
                        snd (dbw_Close w st1))
                   | (None, st1) \<Rightarrow>
                       (case CloseWrite d h st1 of
                          (Some e, st2) \<Rightarrow>
                            (Some (StatusWrap (Some e) ''Failed to close persistent state temporary file'' []),
                             snd (Remove d (dbw_temporaryName w) st2))
                        | (None, st2) \<Rightarrow>
                            (case Rename d (dbw_temporaryName w) (dbw_outputBaseID w) st2 of
                               (Some e, st3) \<Rightarrow>
                                 (Some (StatusWrap (Some e) ''Failed to rename persistent state temporary file'' []),
                                  snd (Remove d (dbw_temporaryName w) st3))
                             | (None, st3) \<Rightarrow> (None, st3)))))))"

section \<open>maximum\_age\_store.go\<close>

text \<open>
  Instants are nanoseconds since the Unix epoch. \<^verbatim>\<open>Time.Sub\<close> saturates at the range of
  \<^verbatim>\<open>time.Duration\<close>; the quotient truncates towards zero and panics on a zero divisor.
  The Protobuf methods \<^verbatim>\<open>CheckValid\<close> and \<^verbatim>\<open>AsTime\<close> are parameters.
\<close>

record time_ops =
  CheckValid :: "Timestamp option \<Rightarrow> go_error option"
  AsTime :: "Timestamp option \<Rightarrow> int"

definition time_Sub :: "int \<Rightarrow> int \<Rightarrow> int" where
  "time_Sub t u = max (- (2 ^ 63)) (min (2 ^ 63 - 1) (t - u))"

definition trunc_div :: "int \<Rightarrow> int \<Rightarrow> int" where
  "trunc_div a b = sgn a * sgn b * (\<bar>a\<bar> div \<bar>b\<bar>)"

definition timeToEpoch :: "int \<Rightarrow> int \<Rightarrow> int exec" where
  "timeToEpoch maximumStateFileAge t =
     (if maximumStateFileAge = 0 then Panics ''integer divide by zero''
      else Returns (to_int64 (trunc_div (time_Sub t 0) maximumStateFileAge)))"

definition mas_Read ::
    "time_ops \<Rightarrow> (string \<Rightarrow> 's \<Rightarrow> ((fileReader \<times> 'r) \<times> RootDirectory) result exec \<times> 's) \<Rightarrow>
     ('r \<Rightarrow> 's \<Rightarrow> 's) \<Rightarrow> int \<Rightarrow> int \<Rightarrow> string \<Rightarrow> 's \<Rightarrow>
     ((fileReader \<times> 'r) \<times> RootDirectory) result exec \<times> 's" where
  "mas_Read tm baseRead baseClose maximumStateFileAge now outputBaseID st =
     (case baseRead outputBaseID st of
        (Returns (Inr (reader, rootDirectory)), st1) \<Rightarrow>
          (case CheckValid tm (InitialCreationTime rootDirectory) of
             Some e \<Rightarrow>
               (Returns (Inl (StatusWrapWithCode e InvalidArgument
                  ''State file contains an invalid initial creation time'')), baseClose (snd reader) st1)
           | None \<Rightarrow>
               (let initialCreationTime = AsTime tm (InitialCreationTime rootDirectory)
                in case timeToEpoch maximumStateFileAge initialCreationTime of
                     Returns e1 \<Rightarrow>
                       (case timeToEpoch maximumStateFileAge now of
                          Returns e2 \<Rightarrow>
                            if e1 \<noteq> e2
                            then (Returns (Inl (Status InvalidArgument
                                ''State file was initially created at %s, which lies outside the current epoch of %s''
                                [FInt initialCreationTime, FInt maximumStateFileAge])), baseClose (snd reader) st1)
                            else (Returns (Inr (reader, rootDirectory)), st1)
                        | Panics msg \<Rightarrow> (Panics msg, st1)
                        | Diverges \<Rightarrow> (Diverges, st1))
                   | Panics msg \<Rightarrow> (Panics msg, st1)
                   | Diverges \<Rightarrow> (Diverges, st1)))
      | (r, st1) \<Rightarrow> (r, st1))"

section \<open>Frame lemmas of the writer\<close>

text \<open>A property of the file that every single write keeps is kept by the writer's operations.\<close>

definition wr_preserves :: "'w io_writer \<Rightarrow> ('w \<Rightarrow> bool) \<Rightarrow> bool" where
  "wr_preserves wr Q \<longleftrightarrow> (\<forall>p w. Q w \<longrightarrow> Q (snd (snd (wr p w))))"

definition at_preserves :: "'f writer_at_op \<Rightarrow> ('f \<Rightarrow> bool) \<Rightarrow> bool" where
  "at_preserves WriteAt Q \<longleftrightarrow> (\<forall>p off f. Q f \<longrightarrow> Q (snd (snd (WriteAt p off f))))"

lemma wr_preservesD: "wr_preserves wr Q \<Longrightarrow> wr p w = (n, err, w') \<Longrightarrow> Q w \<Longrightarrow> Q w'"
  by (metis snd_conv wr_preserves_def)

lemma at_preservesD: "at_preserves WriteAt Q \<Longrightarrow> WriteAt p off f = (n, err, f') \<Longrightarrow> Q f \<Longrightarrow> Q f'"
  by (metis snd_conv at_preserves_def)

lemma bufio_Flush_preserves:
  assumes "wr_preserves wr Q" "Q (bw_wr b)"
  shows "Q (bw_wr (snd (bufio_Flush wr b)))"
  using assms
  by (auto simp: bufio_Flush_def Let_def split: option.splits prod.splits dest: wr_preservesD)

lemma bufio_Write_loop_preserves:
  assumes pres: "wr_preserves wr Q" and ret: "bufio_Write_loop wr p nn b = Some r" and "Q (bw_wr b)"
  shows "Q (bw_wr (snd (snd r)))"
proof -
  have "wr_preserves wr Q \<longrightarrow> Q (bw_wr b) \<longrightarrow> Q (bw_wr (snd (snd r)))"
  proof (rule bufio_Write_loop.raw_induct [where P = "\<lambda>wr p nn b r. wr_preserves wr Q \<longrightarrow> Q (bw_wr b) \<longrightarrow>
      Q (bw_wr (snd (snd r)))", OF _ ret], intro impI)
    fix loop wr p nn and b :: "'a bufio_Writer" and r
    assume IH: "\<And>wr p nn b r. loop wr p nn b = Some r \<Longrightarrow>
        wr_preserves wr Q \<longrightarrow> Q (bw_wr b) \<longrightarrow> Q (bw_wr (snd (snd r)))"
      and eq: "(if bw_size b - length (bw_buf b) < length p \<and> bw_err b = None
        then if bw_buf b = []
             then case wr p (bw_wr b) of (n, err, w) \<Rightarrow>
                    loop wr (drop n p) (nn + n) (b\<lparr>bw_err := err, bw_wr := w\<rparr>)
             else let n = bw_size b - length (bw_buf b)
                  in loop wr (drop n p) (nn + n) (snd (bufio_Flush wr (b\<lparr>bw_buf := bw_buf b @ take n p\<rparr>)))
        else Some (p, nn, b)) = Some r"
      and pr: "wr_preserves wr Q" and q: "Q (bw_wr b)"
    let ?n = "bw_size b - length (bw_buf b)"
    let ?fl = "snd (bufio_Flush wr (b\<lparr>bw_buf := bw_buf b @ take ?n p\<rparr>))"
    obtain n err w where w: "wr p (bw_wr b) = (n, err, w)" by (metis prod_cases3)
    consider (stop) "\<not> (?n < length p \<and> bw_err b = None)"
      | (direct) "?n < length p \<and> bw_err b = None" "bw_buf b = []"
      | (flush) "?n < length p \<and> bw_err b = None" "bw_buf b \<noteq> []" by blast
    then show "Q (bw_wr (snd (snd r)))"
    proof cases
      case stop
      have "Some (p, nn, b) = Some r" using eq unfolding if_not_P [OF stop] .
      with q show ?thesis by auto
    next
      case direct
      with eq w have l: "loop wr (drop n p) (nn + n) (b\<lparr>bw_err := err, bw_wr := w\<rparr>) = Some r" by simp
      from IH [OF l] pr wr_preservesD [OF pr w q] show ?thesis by simp
    next
      case flush
      with eq have l: "loop wr (drop ?n p) (nn + ?n) ?fl = Some r" by (simp add: Let_def)
      have "Q (bw_wr ?fl)" by (rule bufio_Flush_preserves [OF pr]) (simp add: q)
      with IH [OF l] pr show ?thesis by blast
    qed
  qed
  with assms show ?thesis by simp
qed

lemma offsetWriter_Write_preserves:
  "at_preserves WriteAt Q \<Longrightarrow> wr_preserves (offsetWriter_Write WriteAt) (\<lambda>w. Q (ow_w w))"
  by (auto simp: wr_preserves_def offsetWriter_Write_def split: prod.splits dest: at_preservesD)

lemma bufio_Write_preserves:
  assumes "wr_preserves wr Q" "bufio_Write wr p b = Returns (n, err, b')" "Q (bw_wr b)"
  shows "Q (bw_wr b')"
proof -
  obtain r where "bufio_Write_loop wr p 0 b = Some r" and "bw_wr b' = bw_wr (snd (snd r))"
    using assms(2) by (force simp: bufio_Write_def split: option.splits)
  with bufio_Write_loop_preserves [OF assms(1)] assms(3) show ?thesis by metis
qed

lemma writeMessage_preserves:
  assumes "at_preserves WriteAt Q" "writeMessage WriteAt marshal m w = Returns (res, w')" "Q (fw_rawWriter w)"
  shows "Q (fw_rawWriter w')"
proof -
  have "w' = w \<or> (\<exists>data n err. bufio_Write (offsetWriter_Write WriteAt) data (fw_bufferedWriter w) =
      Returns (n, err, fw_bufferedWriter w'))"
    using assms(2) by (fastforce simp: writeMessage_def Let_def split: sum.splits option.splits if_splits)
  with assms(1,3) show ?thesis
    using bufio_Write_preserves [OF offsetWriter_Write_preserves] by (auto simp: fw_rawWriter_def)
qed

lemma Finalize_preserves:
  assumes pres: "at_preserves WriteAt Q" and fin: "Finalize WriteAt marshal root w = Returns (err, w')"
    and "Q (fw_rawWriter w)"
  shows "Q (fw_rawWriter w')"
proof -
  let ?wr = "offsetWriter_Write WriteAt"
  obtain res w1 where w1: "writeMessage WriteAt marshal root w = Returns (res, w1)"
    using fin by (auto simp: Finalize_def)
  have q1: "Q (fw_rawWriter w1)"
    by (rule writeMessage_preserves [of WriteAt Q marshal root w res w1, OF pres w1 assms(3)])
  obtain e b where fl: "bufio_Flush ?wr (fw_bufferedWriter w1) = (e, b)" by fastforce
  then have qb: "Q (ow_w (bw_wr b))"
    using bufio_Flush_preserves [OF offsetWriter_Write_preserves [OF pres], of "fw_bufferedWriter w1"] q1
    by (simp add: fw_rawWriter_def)
  show ?thesis
  proof (cases res)
    case (Inl x)
    with fin w1 q1 show ?thesis by (simp add: Finalize_def)
  next
    case (Inr region)
    obtain n he f where h: "WriteAt (header_bytes region) 0 (ow_w (bw_wr b)) = (n, he, f)"
      by (metis prod_cases3)
    have "Q f" using at_preservesD [OF pres h qb] .
    with Inr fin w1 fl qb h show ?thesis
      by (cases e) (auto simp: Finalize_def fw_rawWriter_def)
  qed
qed

section \<open>Lawful directories\<close>

text \<open>
  \<open>files\<close> is what the directory holds, \<open>inode h\<close> the bytes of the file an open handle
  refers to, \<open>hname h\<close> the name it was created under. A failed operation changes nothing;
  a write through a handle reaches the directory entry as long as the entry is that file.
\<close>

locale state_directory =
  fixes dir :: "('s, 'h, 'r) directory_ops"
    and files :: "'s \<Rightarrow> string \<rightharpoonup> bytes"
    and inode :: "'h \<Rightarrow> 's \<Rightarrow> bytes"
    and hname :: "'h \<Rightarrow> string"
  assumes OpenRead_law:
      "OpenRead dir n s = (Inr (r, ReadAt), s') \<Longrightarrow>
       files s' = files s \<and> (\<exists>c. files s n = Some c \<and> reader_at ReadAt c)"
    and OpenRead_fails: "OpenRead dir n s = (Inl e, s') \<Longrightarrow> files s' = files s"
    and CloseRead_law: "files (CloseRead dir r s) = files s"
    and OpenWriteExcl_law:
      "OpenWriteExcl dir n s = (Inr h, s') \<Longrightarrow>
       hname h = n \<and> inode h s' = [] \<and> files s n = None \<and> files s' = (files s)(n \<mapsto> [])"
    and OpenWriteExcl_fails: "OpenWriteExcl dir n s = (Inl e, s') \<Longrightarrow> files s' = files s"
    and HandleWriteAt_law:
      "HandleWriteAt dir h p off s = (k, err, s') \<Longrightarrow>
       (\<forall>m. m \<noteq> hname h \<longrightarrow> files s' m = files s m) \<and>
       (files s (hname h) = Some (inode h s) \<longrightarrow> files s' (hname h) = Some (inode h s'))"
    and HandleWriteAt_writer: "writer_at (HandleWriteAt dir h) (inode h)"
    and Sync_law: "files (snd (Sync dir h s)) = files s \<and> inode h (snd (Sync dir h s)) = inode h s"
    and CloseWrite_law: "files (snd (CloseWrite dir h s)) = files s"
    and Remove_law: "Remove dir n s = (None, s') \<Longrightarrow> files s' = (files s)(n := None)"
    and Remove_fails: "Remove dir n s = (Some e, s') \<Longrightarrow> files s' = files s"
    and Remove_ENOENT: "Remove dir n s = (Some (Errno ENOENT), s') \<Longrightarrow> files s n = None"
    and Rename_law: "Rename dir a b s = (None, s') \<Longrightarrow> a \<noteq> b \<Longrightarrow>
       files s' = (files s)(b := files s a, a := None)"
    and Rename_fails: "Rename dir a b s = (Some e, s') \<Longrightarrow> files s' = files s"

subsection \<open>Temporary names\<close>

lemma temporary_name_neq: "x @ ''.tmp'' \<noteq> x"
  by simp

lemma getTemporaryName_Inr: "getTemporaryName nc x = Inr t \<Longrightarrow> t = x @ ''.tmp''"
  by (auto simp: getTemporaryName_def Let_def split: if_splits)

subsection \<open>Saving sessions\<close>

text \<open>
  How the store's writer is used: open it, write directories, finalize; close it when a
  directory could not be written.
\<close>

fun dbw_write_directories ::
    "codec \<Rightarrow> Directory list \<Rightarrow> ('s, 'h, 'r) directoryBackedWriter \<Rightarrow>
     (FileRegion option list result \<times> ('s, 'h, 'r) directoryBackedWriter) exec" where
  "dbw_write_directories c [] w = Returns (Inr [], w)"
| "dbw_write_directories c (d # ds) w =
     exec_bind (dbw_WriteDirectory c d w) (\<lambda>(res, w1).
       case res of
         Inl e \<Rightarrow> Returns (Inl e, w1)
       | Inr region \<Rightarrow>
           exec_bind (dbw_write_directories c ds w1) (\<lambda>(res', w2).
             Returns (case res' of Inl e \<Rightarrow> Inl e | Inr regions \<Rightarrow> Inr (region # regions), w2)))"

definition save_session ::
    "(string \<Rightarrow> bool) \<Rightarrow> codec \<Rightarrow> ('s, 'h, 'r) directoryBackedStore \<Rightarrow> string \<Rightarrow> Directory list \<Rightarrow>
     (FileRegion option list \<Rightarrow> RootDirectory) \<Rightarrow> 's \<Rightarrow> (go_error option \<times> 's) exec" where
  "save_session newComponent c s outputBaseID ds root st =
     (case dbs_Write newComponent s outputBaseID st of
        (Inl e, st1) \<Rightarrow> Returns (Some e, st1)
      | (Inr w, st1) \<Rightarrow>
          exec_bind (dbw_write_directories c ds w) (\<lambda>(res, w1).
            case res of
              Inl e \<Rightarrow> Returns (Some e, snd (dbw_Close w1 (dbw_state w1)))
            | Inr regions \<Rightarrow> dbw_Finalize c (root regions) w1))"

lemma dbw_write_directories_eq:
  "dbw_write_directories c ds w =
   exec_bind (write_directories (HandleWriteAt (dbw_directory w) (dbw_temporaryFile w)) (marshalDirectory c)
       ds (dbw_writer w))
     (\<lambda>(res, fw). Returns (res, w\<lparr>dbw_writer := fw\<rparr>))"
proof (induction ds arbitrary: w)
  case Nil
  then show ?case by simp
next
  case (Cons d ds)
  show ?case
  proof (cases "WriteDirectory (HandleWriteAt (dbw_directory w) (dbw_temporaryFile w)) (marshalDirectory c) d (dbw_writer w)")
    case (Returns x)
    obtain res fw where x: "x = (res, fw)" by fastforce
    show ?thesis
    proof (cases res)
      case (Inl e)
      with Returns x show ?thesis by (simp add: dbw_WriteDirectory_def)
    next
      case (Inr region)
      let ?wd = "write_directories (HandleWriteAt (dbw_directory w) (dbw_temporaryFile w)) (marshalDirectory c) ds fw"
      show ?thesis
        using Returns x Inr Cons.IH [of "w\<lparr>dbw_writer := fw\<rparr>"]
        by (cases ?wd) (auto simp: dbw_WriteDirectory_def split: prod.splits)
    qed
  qed (simp_all add: dbw_WriteDirectory_def)
qed

lemma write_directories_preserves:
  assumes "at_preserves WriteAt Q" "Q (fw_rawWriter w)"
    and "write_directories WriteAt marshal ds w = Returns (res, w')"
  shows "Q (fw_rawWriter w')"
  using assms(2,3)
proof (induction ds arbitrary: w res)
  case Nil
  then show ?case by simp
next
  case (Cons d ds)
  from Cons.prems(2) obtain r w1 where w1: "WriteDirectory WriteAt marshal d w = Returns (r, w1)" by auto
  have q1: "Q (fw_rawWriter w1)"
    using writeMessage_preserves [of WriteAt Q marshal d w r w1] assms(1) Cons.prems(1) w1
    by (simp add: WriteDirectory_def)
  show ?case
  proof (cases r)
    case (Inl e)
    with Cons.prems(2) w1 q1 show ?thesis by simp
  next
    case (Inr region)
    with Cons.prems(2) w1 obtain r2 where "write_directories WriteAt marshal ds w1 = Returns (r2, w')"
      by auto
    with Cons.IH q1 show ?thesis by blast
  qed
qed

context state_directory
begin

abbreviation store :: "int \<Rightarrow> ('s, 'h, 'r) directoryBackedStore" where
  "store m \<equiv> \<lparr>dbs_directory = dir, dbs_maximumStateFileSizeBytes = m\<rparr>"

text \<open>While a session writes, everything but its temporary file stays as it was.\<close>

definition session_inv :: "(string \<rightharpoonup> bytes) \<Rightarrow> 'h \<Rightarrow> 's \<Rightarrow> bool" where
  "session_inv fs h s \<longleftrightarrow> (\<forall>m. m \<noteq> hname h \<longrightarrow> files s m = fs m) \<and> files s (hname h) = Some (inode h s)"

lemma HandleWriteAt_session: "at_preserves (HandleWriteAt dir h) (session_inv fs h)"
  unfolding at_preserves_def
proof (intro allI impI)
  fix p off s assume "session_inv fs h s"
  obtain k err s' where "HandleWriteAt dir h p off s = (k, err, s')" by (metis prod_cases3)
  with HandleWriteAt_law [OF this] \<open>session_inv fs h s\<close>
  show "session_inv fs h (snd (snd (HandleWriteAt dir h p off s)))" by (simp add: session_inv_def)
qed

lemma dbs_Write_law:
  assumes "dbs_Write nc (store m) x s = (Inr w, s')"
  shows "dbw_directory w = dir \<and> dbw_outputBaseID w = x \<and> dbw_temporaryName w = x @ ''.tmp'' \<and>
    hname (dbw_temporaryFile w) = x @ ''.tmp'' \<and> dbw_writer w = NewFileWriter s' \<and>
    inode (dbw_temporaryFile w) s' = [] \<and>
    session_inv ((files s)(x @ ''.tmp'' := None)) (dbw_temporaryFile w) s'"
  using assms Remove_law Remove_fails OpenWriteExcl_law
  by (fastforce simp: dbs_Write_def session_inv_def dest: getTemporaryName_Inr
      split: sum.splits prod.splits if_splits)

lemma dbs_Write_fails:
  assumes "dbs_Write nc (store m) x s = (Inl e, s')" "n \<noteq> x @ ''.tmp''"
  shows "files s' n = files s n"
proof (cases "getTemporaryName nc x")
  case (Inl e')
  with assms show ?thesis by (simp add: dbs_Write_def)
next
  case (Inr t)
  obtain e1 s1 where rm: "Remove dir t s = (e1, s1)" by fastforce
  have s1: "files s1 n = files s n"
    using Remove_law [of t s s1] Remove_fails [of t s _ s1] rm getTemporaryName_Inr [OF Inr] assms(2)
    by (cases e1) auto
  obtain r s2 where ow: "OpenWriteExcl dir t s1 = (r, s2)" by fastforce
  show ?thesis
    using assms(1) Inr rm ow s1 OpenWriteExcl_fails [of t s1 _ s2]
    by (cases r) (auto simp: dbs_Write_def split: if_splits)
qed

lemma Remove_other: "n \<noteq> m \<Longrightarrow> files (snd (Remove dir m s)) n = files s n"
proof -
  assume "n \<noteq> m"
  obtain e s' where "Remove dir m s = (e, s')" by fastforce
  with \<open>n \<noteq> m\<close> Remove_law [of m s s'] Remove_fails [of m s _ s'] show ?thesis by (cases e) auto
qed

lemma dbw_Close_other:
  "dbw_directory w = dir \<Longrightarrow> n \<noteq> dbw_temporaryName w \<Longrightarrow> files (snd (dbw_Close w s)) n = files s n"
  using Remove_other CloseWrite_law [of "dbw_temporaryFile w" s]
  by (auto simp: dbw_Close_def split: prod.splits) (metis snd_conv)+

lemma dbw_Finalize_fails:
  assumes "dbw_Finalize c root w = Returns (Some e, s')" "dbw_directory w = dir"
    and "hname (dbw_temporaryFile w) = dbw_temporaryName w"
    and "session_inv fs (dbw_temporaryFile w) (dbw_state w)" "n \<noteq> dbw_temporaryName w"
  shows "files s' n = fs n"
proof -
  let ?h = "dbw_temporaryFile w"
  obtain err fw where fin: "Finalize (HandleWriteAt dir ?h) (marshalRoot c) root (dbw_writer w) = Returns (err, fw)"
    using assms(1,2) by (auto simp: dbw_Finalize_def Let_def)
  have "session_inv fs ?h (fw_rawWriter fw)"
    using Finalize_preserves [OF HandleWriteAt_session fin] assms(4) by (simp add: dbw_state_def)
  then have st: "files (fw_rawWriter fw) n = fs n" using assms(3,5) by (simp add: session_inv_def)
  obtain e1 s1 where sy: "Sync dir ?h (fw_rawWriter fw) = (e1, s1)" by fastforce
  obtain e2 s2 where cl: "CloseWrite dir ?h s1 = (e2, s2)" by fastforce
  obtain e3 s3 where rn: "Rename dir (dbw_temporaryName w) (dbw_outputBaseID w) s2 = (e3, s3)" by fastforce
  have s12: "files s1 n = fs n" "files s2 n = fs n"
    using st Sync_law [of ?h "fw_rawWriter fw"] CloseWrite_law [of ?h s1] sy cl by simp_all
  moreover have "files s3 n = fs n" if "e3 \<noteq> None"
    using that rn Rename_fails s12(2) by auto
  ultimately show ?thesis
    using assms(1,2,5) fin sy cl rn st Remove_other dbw_Close_other
    by (auto simp: dbw_Finalize_def Let_def split: option.splits)
qed

lemma dbw_Finalize_succeeds:
  assumes "dbw_Finalize c root w = Returns (None, s')" "dbw_directory w = dir"
    and "hname (dbw_temporaryFile w) = dbw_temporaryName w" "dbw_temporaryName w \<noteq> dbw_outputBaseID w"
    and "session_inv fs (dbw_temporaryFile w) (dbw_state w)"
  obtains fw where
    "Finalize (HandleWriteAt dir (dbw_temporaryFile w)) (marshalRoot c) root (dbw_writer w) = Returns (None, fw)"
    "files s' = fs(dbw_temporaryName w := None,
       dbw_outputBaseID w \<mapsto> inode (dbw_temporaryFile w) (fw_rawWriter fw))"
proof -
  let ?h = "dbw_temporaryFile w"
  obtain err fw where fin: "Finalize (HandleWriteAt dir ?h) (marshalRoot c) root (dbw_writer w) = Returns (err, fw)"
    using assms(1,2) by (auto simp: dbw_Finalize_def Let_def)
  have inv: "session_inv fs ?h (fw_rawWriter fw)"
    using Finalize_preserves [OF HandleWriteAt_session fin] assms(5) by (simp add: dbw_state_def)
  obtain e1 s1 where sy: "Sync dir ?h (fw_rawWriter fw) = (e1, s1)" by fastforce
  obtain e2 s2 where cl: "CloseWrite dir ?h s1 = (e2, s2)" by fastforce
  from assms(1,2) fin sy cl have err: "err = None" and rn: "Rename dir (dbw_temporaryName w) (dbw_outputBaseID w) s2 = (None, s')"
    by (auto simp: dbw_Finalize_def Let_def split: option.splits prod.splits)
  have "files s2 = files (fw_rawWriter fw)"
    using Sync_law [of ?h "fw_rawWriter fw"] CloseWrite_law [of ?h s1] sy cl by simp
  with Rename_law [OF rn assms(4)] inv assms(3,4)
  have "files s' = fs(dbw_temporaryName w := None, dbw_outputBaseID w \<mapsto> inode ?h (fw_rawWriter fw))"
    by (auto simp: session_inv_def)
  with fin err show thesis by (intro that) simp_all
qed

lemma save_session_cases:
  assumes "save_session nc c (store m) x ds root s = Returns (err, s')"
  obtains e where "dbs_Write nc (store m) x s = (Inl e, s')" "err = Some e"
  | w s1 res fw where "dbs_Write nc (store m) x s = (Inr w, s1)"
    "write_directories (HandleWriteAt dir (dbw_temporaryFile w)) (marshalDirectory c) ds (NewFileWriter s1) =
       Returns (res, fw)"
    "session_inv ((files s)(x @ ''.tmp'' := None)) (dbw_temporaryFile w) (fw_rawWriter fw)"
    "(case res of Inl e \<Rightarrow> err = Some e \<and> s' = snd (dbw_Close (w\<lparr>dbw_writer := fw\<rparr>) (fw_rawWriter fw))
      | Inr regions \<Rightarrow> dbw_Finalize c (root regions) (w\<lparr>dbw_writer := fw\<rparr>) = Returns (err, s'))"
proof (cases "fst (dbs_Write nc (store m) x s)")
  case (Inl e)
  with assms show thesis by (intro that(1)) (auto simp: save_session_def split: prod.splits sum.splits)
next
  case (Inr w)
  then obtain s1 where w: "dbs_Write nc (store m) x s = (Inr w, s1)" by (metis prod.collapse)
  note law = dbs_Write_law [OF w]
  let ?wd = "write_directories (HandleWriteAt dir (dbw_temporaryFile w)) (marshalDirectory c) ds (NewFileWriter s1)"
  obtain res fw where wd: "?wd = Returns (res, fw)"
    using assms w law by (cases ?wd) (auto simp: save_session_def dbw_write_directories_eq)
  then have res: "case res of Inl e \<Rightarrow> err = Some e \<and> s' = snd (dbw_Close (w\<lparr>dbw_writer := fw\<rparr>) (fw_rawWriter fw))
      | Inr regions \<Rightarrow> dbw_Finalize c (root regions) (w\<lparr>dbw_writer := fw\<rparr>) = Returns (err, s')"
    using assms w law by (cases res) (auto simp: save_session_def dbw_write_directories_eq dbw_state_def)
  have "fw_rawWriter (NewFileWriter s1) = s1" by (simp add: fw_rawWriter_def NewFileWriter_def bufio_NewWriterSize_def)
  with law have "session_inv ((files s)(x @ ''.tmp'' := None)) (dbw_temporaryFile w) (fw_rawWriter fw)"
    using write_directories_preserves [OF HandleWriteAt_session _ wd] by metis
  with w wd res show thesis by (intro that(2))
qed

lemma failed_save_keeps_files:
  assumes "save_session nc c (store m) x ds root s = Returns (Some e, s')" "n \<noteq> x @ ''.tmp''"
  shows "files s' n = files s n"
  using assms(1)
proof (cases rule: save_session_cases)
  case (1 e')
  with assms(2) show ?thesis by (auto intro: dbs_Write_fails)
next
  case (2 w s1 res fw)
  note law = dbs_Write_law [OF 2(1)]
  show ?thesis
  proof (cases res)
    case (Inl e')
    with 2 law assms(2) show ?thesis by (auto simp: dbw_Close_other session_inv_def)
  next
    case (Inr regions)
    with 2 have fin: "dbw_Finalize c (root regions) (w\<lparr>dbw_writer := fw\<rparr>) = Returns (Some e, s')" by simp
    show ?thesis
      using dbw_Finalize_fails [OF fin, of "(files s)(x @ ''.tmp'' := None)" n] law 2(3) assms(2)
      by (simp add: dbw_state_def)
  qed
qed

lemma saved_file:
  assumes "save_session nc c (store m) x ds root s = Returns (None, s')"
  obtains regions h s1 fw fw' where
    "write_directories (HandleWriteAt dir h) (marshalDirectory c) ds (NewFileWriter s1) = Returns (Inr regions, fw)"
    "inode h s1 = []"
    "Finalize (HandleWriteAt dir h) (marshalRoot c) (root regions) fw = Returns (None, fw')"
    "files s' = (files s)(x @ ''.tmp'' := None, x \<mapsto> inode h (fw_rawWriter fw'))"
  using assms
proof (cases rule: save_session_cases)
  case (2 w s1 res fw)
  note law = dbs_Write_law [OF 2(1)]
  from 2 obtain regions where res: "res = Inr regions" by (cases res) auto
  let ?w = "w\<lparr>dbw_writer := fw\<rparr>"
  from 2(4) res have fin: "dbw_Finalize c (root regions) ?w = Returns (None, s')" by simp
  have inv: "session_inv ((files s)(x @ ''.tmp'' := None)) (dbw_temporaryFile ?w) (dbw_state ?w)"
    using 2(3) by (simp add: dbw_state_def)
  obtain fw' where "Finalize (HandleWriteAt dir (dbw_temporaryFile w)) (marshalRoot c) (root regions) fw = Returns (None, fw')"
    "files s' = (files s)(x @ ''.tmp'' := None, x \<mapsto> inode (dbw_temporaryFile w) (fw_rawWriter fw'))"
    using dbw_Finalize_succeeds [OF fin _ _ _ inv] law by auto
  with that 2(2) res law show thesis by blast
qed simp

lemma dbs_Clean_law:
  assumes "dbs_Clean nc (store m) x s = (None, s')"
  shows "files s' = (files s)(x := None, x @ ''.tmp'' := None)"
proof -
  have rm: "files s2 = (files s1)(n := None)"
    if "Remove dir n s1 = (e, s2)" "e = None \<or> e = Some (Errno ENOENT)" for n s1 e s2
    using that Remove_law [of n s1 s2] Remove_fails [of n s1 "Errno ENOENT" s2] Remove_ENOENT [of n s1 s2] by auto
  from assms obtain t e1 s1 e2 where "getTemporaryName nc x = Inr t"
    "Remove dir x s = (e1, s1)" "e1 = None \<or> e1 = Some (Errno ENOENT)"
    "Remove dir t s1 = (e2, s')" "e2 = None \<or> e2 = Some (Errno ENOENT)"
    by (auto simp: dbs_Clean_def split: sum.splits prod.splits if_splits)
  with rm show ?thesis using getTemporaryName_Inr by metis
qed

lemma dbw_Close_removes:
  assumes "dbw_Close w s = (None, s')" "dbw_directory w = dir"
  shows "files s' = (files s)(dbw_temporaryName w := None)"
proof -
  obtain e1 s1 where c: "CloseWrite dir (dbw_temporaryFile w) s = (e1, s1)" by fastforce
  obtain e2 s2 where r: "Remove dir (dbw_temporaryName w) s1 = (e2, s2)" by fastforce
  have s1: "files s1 = files s" using CloseWrite_law [of "dbw_temporaryFile w" s] c by simp
  have "s2 = s'" "e2 = None \<or> e2 = Some (Errno ENOENT)"
    using assms c r by (auto simp: dbw_Close_def split: if_splits)
  then show ?thesis
    using r s1 Remove_law [of "dbw_temporaryName w" s1 s2] Remove_fails [of "dbw_temporaryName w" s1 "Errno ENOENT" s2]
      Remove_ENOENT [of "dbw_temporaryName w" s1 s2] by auto
qed

text \<open>A save that is abandoned right away, or runs to its end, leaves no temporary file.\<close>

lemma save_removes_temporary:
  assumes "(dbs_Write nc (store m) x s = (Inr w, s1) \<and> dbw_Close w s1 = (None, s')) \<or>
    save_session nc c (store m) x ds root s = Returns (None, s')"
  shows "files s' (x @ ''.tmp'') = None \<and> (\<forall>n. n \<noteq> x \<longrightarrow> n \<noteq> x @ ''.tmp'' \<longrightarrow> files s' n = files s n)"
  using assms
proof (elim disjE conjE)
  assume w: "dbs_Write nc (store m) x s = (Inr w, s1)" and "dbw_Close w s1 = (None, s')"
  with dbs_Write_law [OF w] dbw_Close_removes [of w s1 s'] show ?thesis by (auto simp: session_inv_def)
next
  assume "save_session nc c (store m) x ds root s = Returns (None, s')"
  then obtain bs where "files s' = (files s)(x @ ''.tmp'' := None, x \<mapsto> bs)" using saved_file by metis
  then show ?thesis by auto
qed

lemma dbs_Read_absent:
  assumes "files s x = None"
  shows "\<exists>e s'. dbs_Read c (store m) x s = (Returns (Inl e), s')"
proof -
  obtain r s1 where r: "OpenRead dir x s = (r, s1)" by fastforce
  with OpenRead_law [of x s _ _ s1] assms show ?thesis
    by (cases r) (auto simp: dbs_Read_def)
qed

lemma dbs_Read_present: "dbs_Read c (store m) x s = (Returns (Inr r), s') \<Longrightarrow> files s x \<noteq> None"
  using dbs_Read_absent [of s x c m] by auto

lemma dbs_Read_frame: "files (snd (dbs_Read c (store m) x s)) = files s"
proof -
  obtain r s1 where r: "OpenRead dir x s = (r, s1)" by fastforce
  with OpenRead_law [of x s _ _ s1] OpenRead_fails [of x s _ s1] CloseRead_law show ?thesis
    by (cases r) (auto simp: dbs_Read_def split: exec.splits sum.splits)
qed

end

section \<open>The Store interface\<close>

text \<open>
  What clients of \<^verbatim>\<open>Store\<close> rely on: cleaned state is gone, absent state cannot be read,
  and reading changes nothing.
\<close>

locale persistency_store =
  fixes store_Read :: "string \<Rightarrow> 's \<Rightarrow> ((fileReader \<times> 'r) \<times> RootDirectory) result exec \<times> 's"
    and reader_Close :: "'r \<Rightarrow> 's \<Rightarrow> 's"
    and store_Clean :: "string \<Rightarrow> 's \<Rightarrow> go_error option \<times> 's"
    and present :: "'s \<Rightarrow> string set"
  assumes store_Clean_law: "store_Clean x s = (None, s') \<Longrightarrow> x \<notin> present s' \<and> present s' \<subseteq> present s"
    and store_Read_absent: "x \<notin> present s \<Longrightarrow> \<exists>e s'. store_Read x s = (Returns (Inl e), s')"
    and store_Read_frame: "present (snd (store_Read x s)) = present s"
    and reader_Close_frame: "present (reader_Close r s) = present s"
begin

lemma cleaned_unreadable:
  "store_Clean x s = (None, s') \<Longrightarrow> \<exists>e s''. store_Read x s' = (Returns (Inl e), s'')"
  using store_Clean_law store_Read_absent by blast

lemma cleaned_stays_unreadable:
  "store_Clean x s = (None, s') \<Longrightarrow> \<exists>e s''. store_Read x (snd (store_Read y s')) = (Returns (Inl e), s'')"
  using store_Clean_law store_Read_absent store_Read_frame by blast

text \<open>The decorator with a maximum age is a store again.\<close>

lemma mas_Read_absent:
  assumes "x \<notin> present s"
  shows "\<exists>e s'. mas_Read tm store_Read reader_Close age now x s = (Returns (Inl e), s')"
  using store_Read_absent [OF assms] by (auto simp: mas_Read_def)

lemma mas_Read_frame: "present (snd (mas_Read tm store_Read reader_Close age now x s)) = present s"
proof -
  obtain r s1 where r: "store_Read x s = (r, s1)" by fastforce
  with store_Read_frame [of x s] reader_Close_frame show ?thesis
    by (auto simp: mas_Read_def Let_def split: exec.splits sum.splits option.splits prod.splits)
qed

lemma mas_store:
  "persistency_store (mas_Read tm store_Read reader_Close age now) reader_Close store_Clean present"
  using store_Clean_law mas_Read_absent mas_Read_frame reader_Close_frame by unfold_locales auto

end

context state_directory
begin

lemma dbs_store:
  "persistency_store (dbs_Read c (store m)) (CloseRead dir) (dbs_Clean nc (store m)) (\<lambda>s. dom (files s))"
  by unfold_locales (auto simp: dbs_Clean_law dbs_Read_absent dbs_Read_frame CloseRead_law domIff)

end

sublocale state_directory \<subseteq> dbs: persistency_store
    "dbs_Read c \<lparr>dbs_directory = dir, dbs_maximumStateFileSizeBytes = m\<rparr>" "CloseRead dir"
    "dbs_Clean nc \<lparr>dbs_directory = dir, dbs_maximumStateFileSizeBytes = m\<rparr>" "\<lambda>s. dom (files s)" for c m nc
  by (rule dbs_store)


section \<open>A directory in memory\<close>

text \<open>
  The directory used by the witnesses: its entries, and per name the bytes of the file last
  created under it.
\<close>

record mem_state =
  md_files :: "string \<rightharpoonup> bytes"
  md_open :: "string \<Rightarrow> bytes"

definition mem_WriteAt :: "string \<Rightarrow> mem_state writer_at_op" where
  "mem_WriteAt h p off s =
     (case file_WriteAt p off (md_open s h) of (k, err, c) \<Rightarrow>
        (k, err, s\<lparr>md_open := (md_open s)(h := c),
           md_files := if md_files s h = Some (md_open s h) then (md_files s)(h \<mapsto> c) else md_files s\<rparr>))"

definition mem_dir :: "(mem_state, string, unit) directory_ops" where
  "mem_dir =
     \<lparr>OpenRead = (\<lambda>n s. (case md_files s n of None \<Rightarrow> Inl (Errno ENOENT) | Some c \<Rightarrow> Inr ((), file_ReadAt c), s)),
      CloseRead = (\<lambda>r s. s),
      OpenWriteExcl = (\<lambda>n s. if md_files s n \<noteq> None then (Inl (Errno EEXIST), s)
         else (Inr n, s\<lparr>md_files := (md_files s)(n \<mapsto> []), md_open := (md_open s)(n := [])\<rparr>)),
      HandleWriteAt = mem_WriteAt,
      Sync = (\<lambda>h s. (None, s)),
      CloseWrite = (\<lambda>h s. (None, s)),
      Remove = (\<lambda>n s. if md_files s n = None then (Some (Errno ENOENT), s)
         else (None, s\<lparr>md_files := (md_files s)(n := None)\<rparr>)),
      Rename = (\<lambda>a b s. if md_files s a = None then (Some (Errno ENOENT), s)
         else (None, s\<lparr>md_files := (md_files s)(b := md_files s a, a := None)\<rparr>))\<rparr>"

definition mem_empty :: mem_state where
  "mem_empty = \<lparr>md_files = Map.empty, md_open = (\<lambda>_. [])\<rparr>"

interpretation mem: state_directory mem_dir md_files "\<lambda>h s. md_open s h" "\<lambda>h. h"
proof unfold_locales
  fix h p off s k err s' f n f'
  show "OpenRead mem_dir h s = (Inr (r, ReadAt), s') \<Longrightarrow>
       md_files s' = md_files s \<and> (\<exists>c. md_files s h = Some c \<and> reader_at ReadAt c)" for r ReadAt
    using regular_file_reader.reader_at_axioms by (auto simp: mem_dir_def split: option.splits)
  show "HandleWriteAt mem_dir h p off s = (k, err, s') \<Longrightarrow>
       (\<forall>m. m \<noteq> h \<longrightarrow> md_files s' m = md_files s m) \<and>
       (md_files s h = Some (md_open s h) \<longrightarrow> md_files s' h = Some (md_open s' h))"
    by (auto simp: mem_dir_def mem_WriteAt_def split: prod.splits)
  show "0 \<le> off \<Longrightarrow> off + int (length p) < 2 ^ 63 \<Longrightarrow> HandleWriteAt mem_dir h p off f = (n, err, f') \<Longrightarrow>
     n \<le> length p \<and> (n < length p \<longrightarrow> err \<noteq> None) \<and> md_open f' h = splice (md_open f h) (nat off) (take n p)"
    by (auto simp: mem_dir_def mem_WriteAt_def file_WriteAt_def)
qed (auto simp: mem_dir_def split: option.splits if_splits)

section \<open>Epochs\<close>

lemma timeToEpoch_nonneg:
  assumes "0 < age" "0 \<le> t" "t < 2 ^ 63"
  shows "timeToEpoch age t = Returns (t div age)"
proof -
  have "t div age \<le> t" using zdiv_mono2 [of t 1 age] assms by simp
  moreover have "0 \<le> t div age" using assms by (simp add: pos_imp_zdiv_nonneg_iff)
  moreover have "trunc_div t age = t div age" using assms by (cases "t = 0") (simp_all add: trunc_div_def)
  moreover have "time_Sub t 0 = t" using assms by (simp add: time_Sub_def)
  ultimately show ?thesis using assms by (simp add: timeToEpoch_def)
qed

lemma same_quotient_close:
  assumes "0 < (age :: int)" "a div age = b div age"
  shows "\<bar>a - b\<bar> < age"
proof -
  have "a = age * (a div age) + a mod age" "b = age * (a div age) + b mod age"
    using assms(2) mult_div_mod_eq [of age a] mult_div_mod_eq [of age b] by simp_all
  moreover have "0 \<le> a mod age" "a mod age < age" "0 \<le> b mod age" "b mod age < age"
    using assms(1) by simp_all
  ultimately show ?thesis by linarith
qed

section \<open>Properties\<close>

text \<open>
  A save that fails leaves the state files alone. Whatever step fails (creating the
  temporary file, writing a directory or the root, flushing, syncing, closing or renaming),
  every file of the state directory other than the session's temporary file is unchanged, so
  the previous state file of the output path is still there in full.
\<close>

theorem failed_save_keeps_state:
  assumes "state_directory dir files inode hname"
    and "save_session nc c \<lparr>dbs_directory = dir, dbs_maximumStateFileSizeBytes = m\<rparr> outputBaseID ds root s =
      Returns (Some e, s')"
    and "n \<noteq> outputBaseID @ ''.tmp''"
  shows "files s' n = files s n"
  by (rule state_directory.failed_save_keeps_files [OF assms])

theorem failed_save_keeps_state_witness:
  "\<exists>e s'. save_session (\<lambda>n. n \<noteq> ''x.tmp'') \<lparr>marshalDirectory = demo_marshalD, marshalRoot = demo_marshalR,
       unmarshalDirectory = demo_unmarshalD, unmarshalRoot = demo_unmarshalR\<rparr>
     \<lparr>dbs_directory = mem_dir, dbs_maximumStateFileSizeBytes = 100\<rparr> ''x'' [] (\<lambda>_. demo_root)
     (mem_empty\<lparr>md_files := [''x'' \<mapsto> [9]]\<rparr>) = Returns (Some e, s') \<and> md_files s' ''x'' = Some [9]"
proof -
  let ?c = "\<lparr>marshalDirectory = demo_marshalD, marshalRoot = demo_marshalR,
       unmarshalDirectory = demo_unmarshalD, unmarshalRoot = demo_unmarshalR\<rparr>"
  let ?st = "mem_empty\<lparr>md_files := [''x'' \<mapsto> [9]]\<rparr>"
  obtain e s' where r: "save_session (\<lambda>n. n \<noteq> ''x.tmp'') ?c
     \<lparr>dbs_directory = mem_dir, dbs_maximumStateFileSizeBytes = 100\<rparr> ''x'' [] (\<lambda>_. demo_root) ?st =
     Returns (Some e, s')"
    by (simp add: save_session_def dbs_Write_def getTemporaryName_def)
  show ?thesis
    using failed_save_keeps_state [OF mem.state_directory_axioms r, of "''x''"] r by auto
qed

text \<open>
  C15. A save that succeeds can be read back. After a session that wrote directories and a
  root without error, the temporary file is gone, the state file is the complete new file
  (no other file changed), and reading it through the store yields the root and, through the
  reader, every directory. The premises on the codec and the sizes are those of the round
  trip of a single file; the file fits the configured maximum.
\<close>

theorem saved_state_reads_back:
  assumes D: "state_directory dir files inode hname"
    and save: "save_session nc c \<lparr>dbs_directory = dir, dbs_maximumStateFileSizeBytes = m\<rparr> outputBaseID ds root s =
      Returns (None, s')"
    and opn: "OpenRead dir outputBaseID s' = (Inr (h, ReadAt), s'')"
    and codecD: "\<forall>d bs. marshalDirectory c d = Inr bs \<longrightarrow> unmarshalDirectory c bs = Inr d"
      "unmarshalDirectory c [] = Inr empty_Directory"
    and codecR: "\<forall>regions bs. marshalRoot c (root regions) = Inr bs \<longrightarrow>
      bs \<noteq> [] \<and> length bs < 2 ^ 31 \<and> unmarshalRoot c bs = Inr (root regions)"
    and small: "\<forall>d \<in> set ds. length (encoding (marshalDirectory c) d) < 2 ^ 31"
    and fits: "\<forall>bs. files s' outputBaseID = Some bs \<longrightarrow> int (length bs) \<le> m" "m < 2 ^ 63"
      "length (concat (map (encoding (marshalDirectory c)) ds)) < 2 ^ 62"
  shows "\<exists>r regions. dbs_Read c \<lparr>dbs_directory = dir, dbs_maximumStateFileSizeBytes = m\<rparr> outputBaseID s' =
      (Returns (Inr ((r, h), root regions)), s'') \<and>
    (\<forall>i < length ds. \<exists>r'. ReadDirectory (unmarshalDirectory c) r (regions ! i) = Returns (Inr (r', ds ! i))) \<and>
    files s' (outputBaseID @ ''.tmp'') = None \<and>
    (\<forall>n. n \<noteq> outputBaseID \<longrightarrow> n \<noteq> outputBaseID @ ''.tmp'' \<longrightarrow> files s' n = files s n)"
proof -
  obtain regions hd s1 fw fw' where
    wd: "write_directories (HandleWriteAt dir hd) (marshalDirectory c) ds (NewFileWriter s1) = Returns (Inr regions, fw)"
    and fresh: "inode hd s1 = []"
    and fin: "Finalize (HandleWriteAt dir hd) (marshalRoot c) (root regions) fw = Returns (None, fw')"
    and fs: "files s' = (files s)(outputBaseID @ ''.tmp'' := None, outputBaseID \<mapsto> inode hd (fw_rawWriter fw'))"
    using state_directory.saved_file [OF D save] by metis
  obtain rb where rb: "marshalRoot c (root regions) = Inr rb"
    using fin by (cases "marshalRoot c (root regions)") (auto simp: Finalize_def writeMessage_def)
  have R: "reader_at ReadAt (inode hd (fw_rawWriter fw'))"
    using state_directory.OpenRead_law [OF D opn] fs by auto
  have "length rb < 2 ^ 31" using codecR rb by blast
  then have "16 + length (concat (map (encoding (marshalDirectory c)) ds)) + length rb < 2 ^ 63"
    using fits(3) by simp
  then have "\<exists>r. NewFileReader (unmarshalRoot c) ReadAt m = Returns (Inr (r, root regions)) \<and> length regions = length ds \<and>
    (\<forall>i < length ds. \<exists>r'. ReadDirectory (unmarshalDirectory c) r (regions ! i) = Returns (Inr (r', ds ! i)))"
    using codecR rb fs fits
    by (intro finished_file_reads_back [OF state_directory.HandleWriteAt_writer [OF D] fresh wd fin R codecD rb _ _ small])
      (auto simp del: length_concat)
  then show ?thesis using opn fs by (auto simp: dbs_Read_def)
qed

abbreviation demo_codec_ops :: codec where
  "demo_codec_ops \<equiv> \<lparr>marshalDirectory = demo_marshalD, marshalRoot = demo_marshalR,
       unmarshalDirectory = demo_unmarshalD, unmarshalRoot = demo_unmarshalR\<rparr>"

abbreviation demo_store :: "(mem_state, string, unit) directoryBackedStore" where
  "demo_store \<equiv> \<lparr>dbs_directory = mem_dir, dbs_maximumStateFileSizeBytes = 100\<rparr>"

lemmas demo_save_simps = save_session_def dbs_Write_def getTemporaryName_def mem_dir_def mem_empty_def
  dbw_Finalize_def Finalize_def writeMessage_def NewFileWriter_def bufio_NewWriterSize_def bufio_Write_def
  bufio_Write_loop.simps bufio_Flush_def offsetWriter_Write_def mem_WriteAt_def file_WriteAt_def splice_def
  header_bytes_def fw_rawWriter_def headerSizeBytes_def demo_marshalR_def Let_def

lemma demo_save:
  "\<exists>s' bs. save_session (\<lambda>_. True) demo_codec_ops demo_store ''x'' [] (\<lambda>_. demo_root) mem_empty = Returns (None, s') \<and>
     md_files s' ''x'' = Some bs \<and> length bs = 17"
  by (simp add: demo_save_simps)

theorem saved_state_reads_back_witness:
  "\<exists>s' r. save_session (\<lambda>_. True) demo_codec_ops demo_store ''x'' [] (\<lambda>_. demo_root) mem_empty = Returns (None, s') \<and>
     dbs_Read demo_codec_ops demo_store ''x'' s' = (Returns (Inr ((r, ()), demo_root)), s')"
proof -
  obtain s' bs where s': "save_session (\<lambda>_. True) demo_codec_ops demo_store ''x'' [] (\<lambda>_. demo_root) mem_empty =
      Returns (None, s')" "md_files s' ''x'' = Some bs" "length bs = 17" using demo_save by blast
  have opn: "OpenRead mem_dir ''x'' s' = (Inr ((), file_ReadAt bs), s')" using s'(2) by (simp add: mem_dir_def)
  have "\<exists>r regions. dbs_Read demo_codec_ops demo_store ''x'' s' = (Returns (Inr ((r, ()), demo_root)), s') \<and>
    (\<forall>i < length ([] :: Directory list). \<exists>r'. ReadDirectory (unmarshalDirectory demo_codec_ops) r (regions ! i) =
       Returns (Inr (r', [] ! i))) \<and>
    md_files s' (''x'' @ ''.tmp'') = None \<and>
    (\<forall>n. n \<noteq> ''x'' \<longrightarrow> n \<noteq> ''x'' @ ''.tmp'' \<longrightarrow> md_files s' n = md_files mem_empty n)"
  proof (rule saved_state_reads_back [OF mem.state_directory_axioms s'(1) opn], goal_cases)
    case 1
    show ?case unfolding codec.select_convs by (rule demo_codec)
  next
    case 3
    show ?case by (simp add: demo_marshalR_def demo_unmarshalR_def)
  next
    case 5
    show ?case using s'(2,3) by simp
  qed (simp_all add: demo_unmarshalD_def)
  then obtain r where "dbs_Read demo_codec_ops demo_store ''x'' s' = (Returns (Inr ((r, ()), demo_root)), s')"
    by (elim exE conjE)
  with s'(1) show ?thesis by (intro exI conjI)
qed

text \<open>
  Cleaned state is gone. After a successful \<^verbatim>\<open>Clean\<close> neither the state file nor the
  temporary file of the output base is left and no other file changed, and reading the state
  through the store with a maximum age fails with an error.
\<close>

theorem cleaned_state_is_gone:
  assumes D: "state_directory dir files inode hname"
    and "dbs_Clean nc \<lparr>dbs_directory = dir, dbs_maximumStateFileSizeBytes = m\<rparr> outputBaseID s = (None, s')"
  shows "files s' = (files s)(outputBaseID := None, outputBaseID @ ''.tmp'' := None) \<and>
    (\<exists>e s''. mas_Read tm (dbs_Read c \<lparr>dbs_directory = dir, dbs_maximumStateFileSizeBytes = m\<rparr>) (CloseRead dir)
       age now outputBaseID s' = (Returns (Inl e), s''))"
proof
  show "files s' = (files s)(outputBaseID := None, outputBaseID @ ''.tmp'' := None)"
    by (rule state_directory.dbs_Clean_law [OF assms])
  show "\<exists>e s''. mas_Read tm (dbs_Read c \<lparr>dbs_directory = dir, dbs_maximumStateFileSizeBytes = m\<rparr>) (CloseRead dir)
       age now outputBaseID s' = (Returns (Inl e), s'')"
    by (rule persistency_store.cleaned_unreadable [OF persistency_store.mas_store
          [OF state_directory.dbs_store [OF D]] assms(2)])
qed

theorem cleaned_state_is_gone_witness:
  "dbs_Clean (\<lambda>_. True) demo_store ''x'' (mem_empty\<lparr>md_files := [''x'' \<mapsto> [9]]\<rparr>) = (None, mem_empty) \<and>
   (\<exists>e s''. mas_Read \<lparr>CheckValid = \<lambda>_. None, AsTime = \<lambda>_. 0\<rparr> (dbs_Read demo_codec_ops demo_store) (CloseRead mem_dir)
       1 0 ''x'' mem_empty = (Returns (Inl e), s''))"
proof -
  have r: "dbs_Clean (\<lambda>_. True) demo_store ''x'' (mem_empty\<lparr>md_files := [''x'' \<mapsto> [9]]\<rparr>) = (None, mem_empty)"
    by (simp add: dbs_Clean_def getTemporaryName_def mem_dir_def mem_empty_def)
  show ?thesis using cleaned_state_is_gone [OF mem.state_directory_axioms r] r by blast
qed

text \<open>
  C22. Temporary names collide with state files. The temporary file of output base \<open>x\<close> has
  the name of the state file of output base \<open>x.tmp\<close>, which \<^verbatim>\<open>NewComponent\<close> accepts as
  an output base ID of its own. So when \<open>x.tmp\<close> has a state that can be read, and then a save of
  \<open>x\<close> is begun and abandoned, or runs to its end, the state of \<open>x.tmp\<close> is deleted, and reading
  it again fails.
\<close>

theorem save_deletes_colliding_state:
  assumes "state_directory dir files inode hname"
    and "S = \<lparr>dbs_directory = dir, dbs_maximumStateFileSizeBytes = m\<rparr>"
    and "dbs_Read c S (x @ ''.tmp'') s = (Returns (Inr ((reader, h), state)), s1)"
    and "(dbs_Write nc S x s1 = (Inr w, s2) \<and> dbw_Close w s2 = (None, s3)) \<or> save_session nc c S x ds root s1 = Returns (None, s3)"
  shows "files s1 (x @ ''.tmp'') \<noteq> None \<and> files s3 (x @ ''.tmp'') = None \<and>
    (\<exists>e s4. dbs_Read c S (x @ ''.tmp'') s3 = (Returns (Inl e), s4)) \<and>
    (\<forall>n. n \<noteq> x \<longrightarrow> n \<noteq> x @ ''.tmp'' \<longrightarrow> files s3 n = files s n)"
proof -
  have "files s1 = files s" "files s (x @ ''.tmp'') \<noteq> None"
    using state_directory.dbs_Read_frame [OF assms(1), of c m "x @ ''.tmp''" s] state_directory.dbs_Read_present [OF assms(1)] assms(2,3)
    by fastforce+
  with state_directory.save_removes_temporary [OF assms(1) assms(4) [unfolded assms(2)]]
    state_directory.dbs_Read_absent [OF assms(1), of s3 "x @ ''.tmp''" c m] assms(2)
  show ?thesis by simp
qed

theorem save_deletes_colliding_state_witness:
  "\<exists>reader w s2 s3 e s4.
    dbs_Read demo_codec_ops demo_store ''x.tmp'' (mem_empty\<lparr>md_files := [''x.tmp'' \<mapsto> header_bytes (region_for [] [7]) @ [7]]\<rparr>) =
      (Returns (Inr ((reader, ()), demo_root)), mem_empty\<lparr>md_files := [''x.tmp'' \<mapsto> header_bytes (region_for [] [7]) @ [7]]\<rparr>) \<and>
    dbs_Write (\<lambda>_. True) demo_store ''x'' (mem_empty\<lparr>md_files := [''x.tmp'' \<mapsto> header_bytes (region_for [] [7]) @ [7]]\<rparr>) = (Inr w, s2) \<and>
    dbw_Close w s2 = (None, s3) \<and> dbs_Read demo_codec_ops demo_store ''x.tmp'' s3 = (Returns (Inl e), s4)"
proof -
  let ?c = "header_bytes (region_for [] [7]) @ [7]"
  let ?s = "mem_empty\<lparr>md_files := [''x.tmp'' \<mapsto> ?c]\<rparr>"
  have "NewFileReader demo_unmarshalR (file_ReadAt ?c) 100 =
      Returns (Inr (\<lparr>rawReader = Some (file_ReadAt ?c), maximumOffsetBytes = 16 + int (length ([] :: bytes))\<rparr>, demo_root))"
    by (rule reader_at.NewFileReader_finished [OF regular_file_reader.reader_at_axioms, where before = "[]" and rootBytes = "[7]"])
      (simp_all add: demo_unmarshalR_def)
  then obtain reader where r: "dbs_Read demo_codec_ops demo_store (''x'' @ ''.tmp'') ?s = (Returns (Inr ((reader, ()), demo_root)), ?s)"
    by (simp add: dbs_Read_def mem_dir_def)
  obtain w s2 s3 where w: "dbs_Write (\<lambda>_. True) demo_store ''x'' ?s = (Inr w, s2)" "dbw_Close w s2 = (None, s3)"
    by (simp add: dbs_Write_def getTemporaryName_def mem_dir_def mem_empty_def dbw_Close_def)
  from save_deletes_colliding_state [OF mem.state_directory_axioms refl r disjI1 [OF conjI [OF w]]] r w
  show ?thesis by auto
qed

text \<open>
  Closing an unfinished writer loses the error of removing its temporary file: when the
  file is closed but cannot be removed, the error returned wraps the nil error of the close.
\<close>

theorem Close_wraps_nil_error:
  assumes "CloseWrite (dbw_directory w) (dbw_temporaryFile w) s = (None, s1)"
    and "Remove (dbw_directory w) (dbw_temporaryName w) s1 = (Some e, s2)" "e \<noteq> Errno ENOENT"
  shows "dbw_Close w s = (Some (StatusWrap None ''Failed to remove persistent state temporary file'' []), s2)"
  using assms by (simp add: dbw_Close_def)

theorem Close_wraps_nil_error_witness:
  "dbw_Close \<lparr>dbw_directory = mem_dir\<lparr>Remove := \<lambda>n s. (Some (Errno EIO_errno), s)\<rparr>, dbw_outputBaseID = ''x'',
      dbw_temporaryName = ''x.tmp'', dbw_temporaryFile = ''x.tmp'', dbw_writer = NewFileWriter mem_empty\<rparr> mem_empty =
    (Some (StatusWrap None ''Failed to remove persistent state temporary file'' []), mem_empty)"
  by (rule Close_wraps_nil_error [where e = "Errno EIO_errno"]) (simp_all add: mem_dir_def)

text \<open>
  The maximum age. For instants between 1970 and 2262 and a positive maximum age, a
  state file that the underlying store reads and whose creation time is valid is accepted
  exactly when it was created in the current epoch, and then its age is below the maximum;
  otherwise the reader is closed and an error is returned.
\<close>

theorem maximum_age_accepts_current_epoch:
  assumes base: "baseRead outputBaseID s = (Returns (Inr (reader, root)), t)"
    and valid: "CheckValid tm (InitialCreationTime root) = None"
    and created: "AsTime tm (InitialCreationTime root) = created" "0 \<le> created" "created < 2 ^ 63"
    and now: "0 \<le> now" "now < 2 ^ 63" and age: "0 < age"
  shows "if created div age = now div age
    then mas_Read tm baseRead baseClose age now outputBaseID s = (Returns (Inr (reader, root)), t) \<and>
      \<bar>now - created\<bar> < age
    else \<exists>e. mas_Read tm baseRead baseClose age now outputBaseID s =
      (Returns (Inl e), baseClose (snd reader) t)"
  using assms same_quotient_close [of age now created] timeToEpoch_nonneg
  by (auto simp: mas_Read_def Let_def)

theorem maximum_age_accepts_current_epoch_witness:
  "mas_Read \<lparr>CheckValid = \<lambda>_. None, AsTime = \<lambda>_. 100\<rparr>
     (\<lambda>_ s. (Returns (Inr ((\<lparr>rawReader = None, maximumOffsetBytes = 0\<rparr>, ()), demo_root)), s)) (\<lambda>_ s. s) 60 119 ''x'' () =
     (Returns (Inr ((\<lparr>rawReader = None, maximumOffsetBytes = 0\<rparr>, ()), demo_root)), ())"
  using maximum_age_accepts_current_epoch [where now = 119 and age = 60 and created = 100 and s = "()" and
      outputBaseID = "''x''" and tm = "\<lparr>CheckValid = \<lambda>_. None, AsTime = \<lambda>_. 100\<rparr>" and t = "()" and
      baseRead = "\<lambda>_ s. (Returns (Inr ((\<lparr>rawReader = None, maximumOffsetBytes = 0\<rparr>, ()), demo_root)), s)" and
      reader = "(\<lparr>rawReader = None, maximumOffsetBytes = 0\<rparr>, ())" and root = demo_root and
      baseClose = "\<lambda>_ s. s"] by simp

text \<open>
  A maximum age of zero is a valid duration, but the first state file that can be read and has a valid creation time
  makes \<^verbatim>\<open>Read\<close> divide by it.
\<close>

lemma zero_age_panics:
  assumes "baseRead x st = (Returns (Inr (reader, root)), st1)" "CheckValid tm (InitialCreationTime root) = None"
  shows "mas_Read tm baseRead baseClose 0 now x st = (Panics ''integer divide by zero'', st1)"
  using assms by (simp add: mas_Read_def timeToEpoch_def Let_def)

end
