(* ===== verification/Virtual_FS.thy ===== *)
theory Virtual_FS
  imports Go_Std
begin

text \<open>
  The vocabulary of \<^verbatim>\<open>bb-remote-execution/pkg/filesystem/virtual\<close> the repository's
  directories and files are written in: children, attribute calls, the outcome of
  opening a child, and directory listings. The package is outside the repository, so
  attributes are recorded as the sequence of setter calls the code makes, and the helpers
  for read-only directories are parameters.
\<close>

section \<open>Children\<close>

datatype ('dir, 'leaf) DirectoryChild = FromDirectory 'dir | FromLeaf 'leaf

text \<open>A lookup returns a child with \<^verbatim>\<open>StatusOK\<close>, or an empty child with another status.\<close>

type_synonym ('dir, 'leaf) lookup_result = "vstatus + ('dir, 'leaf) DirectoryChild"

section \<open>Attributes\<close>

datatype FileType = FileTypeRegularFile | FileTypeDirectory

datatype Permission = PermissionsRead | PermissionsWrite | PermissionsExecute

datatype link_count = ImplicitDirectoryLinkCount | LinkCount uint32

datatype attr_call =
    SetChangeID uint64
  | SetFileType FileType
  | SetHasNamedAttributes bool
  | SetIsInNamedAttributeDirectory bool
  | SetLinkCount link_count
  | SetPermissions "Permission list"
  | SetSizeBytes uint64

section \<open>Opening a child\<close>

text \<open>
  \<^verbatim>\<open>VirtualOpenChild\<close> returns a leaf, an attributes mask, a change info and a status. The
  change info is always empty in this repository. \<open>NotOpened\<close> is the result with a nil
  leaf and an empty mask.
\<close>

datatype ('leaf, 'mask) open_result = NotOpened vstatus | OpenedLeaf 'leaf 'mask vstatus

record ('leaf, 'share, 'opts, 'attrs, 'mask) open_ops =
  OpenChildWrongFileType :: "'opts option \<Rightarrow> vstatus \<Rightarrow> vstatus"
  OpenChildDoesntExist :: "'attrs option \<Rightarrow> vstatus"
  VirtualOpenSelf :: "'leaf \<Rightarrow> 'share \<Rightarrow> 'opts \<Rightarrow> vstatus"
  ToAttributesMask :: "'opts \<Rightarrow> 'mask"

section \<open>Listings\<close>

text \<open>
  A \<^verbatim>\<open>DirectoryEntryReporter\<close> with state \<open>'p\<close>: it is given the cookie of the next
  entry, the name and the child, and says whether it wants more.
\<close>

type_synonym ('child, 'p) reporter = "uint64 \<Rightarrow> string \<Rightarrow> 'child \<Rightarrow> 'p \<Rightarrow> bool \<times> 'p"

text \<open>
  The reference behaviour of a listing: entries are reported in order, each with the cookie
  that continues after it; an entry that cannot be produced ends the listing with its status
  and log; a reporter that has enough ends it with \<^verbatim>\<open>StatusOK\<close>.
\<close>

type_synonym ('child, 'e) dir_entry = "(vstatus \<times> 'e list) + (string \<times> 'child)"

fun list_entries ::
    "('child, 'p) reporter \<Rightarrow> uint64 \<Rightarrow> ('child, 'e) dir_entry list \<Rightarrow> 'p \<Rightarrow> vstatus \<times> 'e list \<times> 'p" where
  "list_entries report c [] p = (StatusOK, [], p)"
| "list_entries report c (Inl (s, log) # es) p = (s, log, p)"
| "list_entries report c (Inr (name, child) # es) p =
     (case report (c + 1) name child p of
        (True, p') \<Rightarrow> list_entries report (c + 1) es p'
      | (False, p') \<Rightarrow> (StatusOK, [], p'))"

text \<open>A reporter with room for a number of entries, which keeps what it was given.\<close>

definition bounded_reporter :: "('child, nat \<times> (uint64 \<times> string \<times> 'child) list) reporter" where
  "bounded_reporter c n ch p =
     (case p of (room, acc) \<Rightarrow>
        if room = 0 then (False, (0, acc)) else (True, (room - 1, acc @ [(c, n, ch)])))"

lemma list_entries_bounded:
  assumes "\<forall>e \<in> set es. \<exists>nc. e = Inr nc"
  shows "list_entries bounded_reporter c es (room, acc) =
    (StatusOK, [], (room - length es,
       acc @ map (\<lambda>(i, e). (c + word_of_nat (Suc i), projr e)) (zip [0..<min room (length es)] es)))"
  using assms
proof (induction es arbitrary: c room acc)
  case Nil
  then show ?case by simp
next
  case (Cons e es)
  then obtain n ch where e: "e = Inr (n, ch)" by auto
  show ?case
  proof (cases room)
    case 0
    with e show ?thesis by (simp add: bounded_reporter_def)
  next
    case (Suc r)
    have upt: "[0..<Suc (min r (length es))] = 0 # map Suc [0..<min r (length es)]"
      by (simp add: upt_conv_Cons map_Suc_upt del: upt_Suc)
    show ?thesis
      using Cons.IH [of "c + 1" r "acc @ [(c + 1, n, ch)]"] Cons.prems e Suc
      by (simp add: bounded_reporter_def upt zip_map1 split_def o_def add.assoc del: upt_Suc)
  qed
qed

section \<open>non\_iterable\_directory.go\<close>

text \<open>Directories that embed \<^verbatim>\<open>nonIterableDirectory\<close> refuse to be listed.\<close>

definition nonIterableDirectory_VirtualReadDir :: "uint64 \<Rightarrow> ('child, 'p) reporter \<Rightarrow> 'p \<Rightarrow> vstatus \<times> 'p" where
  "nonIterableDirectory_VirtualReadDir firstCookie report p = (StatusErrAccess, p)"

end
