(* ===== verification/CAS_Directory.thy ===== *)
theory CAS_Directory
  imports Virtual_FS State_File
begin

text \<open>
  Directories backed by REv2 Directory messages: \<^verbatim>\<open>pkg/filesystem/virtual/cas_directory.go\<close>.

  A \<open>casDirectory\<close> reaches the outside through its context (the interface
  \<^verbatim>\<open>CASDirectoryContext\<close> of the same file), the digest function, and the allocators of
  handles and symbolic links, which are fields of the records below. Operations return the
  errors they logged next to their result.
\<close>

section \<open>REv2 Directory messages\<close>

record re_DirectoryNode =
  rdn_Name :: string
  rdn_Digest :: proto_digest

record re_FileNode =
  rfn_Name :: string
  rfn_Digest :: proto_digest
  rfn_IsExecutable :: bool

record re_SymlinkNode =
  rsn_Name :: string
  rsn_Target :: string

record re_Directory =
  re_Directories :: "re_DirectoryNode list"
  re_Files :: "re_FileNode list"
  re_Symlinks :: "re_SymlinkNode list"

section \<open>The directory and its context\<close>

record ('d, 'dir, 'leaf) CASDirectoryContext =
  LookupDirectory :: "'d \<Rightarrow> 'dir"
  LookupFile :: "'d \<Rightarrow> bool \<Rightarrow> 'leaf"
  GetDirectoryContents :: "(vstatus + re_Directory) \<times> go_error list"
  LogError :: "go_error \<Rightarrow> go_error"

record ('d, 'dir, 'leaf, 'sym) casDirectory =
  directoryContext :: "('d, 'dir, 'leaf) CASDirectoryContext"
  NewDigestFromProto :: "proto_digest \<Rightarrow> 'd result"
  AsStatelessDirectory :: "bytes \<Rightarrow> 'dir"
  AsLinkableLeaf :: "bytes \<Rightarrow> 'sym \<Rightarrow> 'leaf"
  LookupSymlink :: "string \<Rightarrow> 'sym result"
  cd_sizeBytes :: uint64

section \<open>cas\_directory.go\<close>

definition createSelf :: "('d, 'dir, 'leaf, 'sym) casDirectory \<Rightarrow> 'dir" where
  "createSelf d = AsStatelessDirectory d [0]"

definition createSymlink ::
    "('d, 'dir, 'leaf, 'sym) casDirectory \<Rightarrow> uint64 \<Rightarrow> string \<Rightarrow> (vstatus + 'leaf) \<times> go_error list" where
  "createSymlink d index target =
     (case LookupSymlink d target of
        Inl err \<Rightarrow>
          (Inl StatusErrIO, [LogError (directoryContext d)
             (StatusWrap (Some err) ''Failed to create symbolic link with target %#v'' [FStr target])])
      | Inr symlink \<Rightarrow> (Inr (AsLinkableLeaf d (PutUvarint (index + 1)) symlink), []))"

definition resolveHandle ::
    "('d, 'dir, 'leaf, 'sym) casDirectory \<Rightarrow> bytes \<Rightarrow> ('dir, 'leaf) lookup_result \<times> go_error list" where
  "resolveHandle d r =
     (case ReadUvarint r of
        Inl err \<Rightarrow> (Inl StatusErrBadHandle, [])
      | Inr (index, _) \<Rightarrow>
          if index = 0 then (Inr (FromDirectory (createSelf d)), [])
          else
            (case GetDirectoryContents (directoryContext d) of
               (Inl s, log) \<Rightarrow> (Inl s, log)
             | (Inr directory, log) \<Rightarrow>
                 let index = index - 1
                 in if index \<ge> word_of_nat (length (re_Symlinks directory)) then (Inl StatusErrBadHandle, log)
                    else (case createSymlink d index (rsn_Target (re_Symlinks directory ! unat index)) of
                       (Inl s, log') \<Rightarrow> (Inl s, log @ log')
                     | (Inr symlink, log') \<Rightarrow> (Inr (FromLeaf symlink), log @ log'))))"

definition casDirectory_VirtualGetAttributes :: "('d, 'dir, 'leaf, 'sym) casDirectory \<Rightarrow> attr_call list" where
  "casDirectory_VirtualGetAttributes d =
     [SetChangeID 0, SetFileType FileTypeDirectory, SetHasNamedAttributes False,
      SetIsInNamedAttributeDirectory False, SetLinkCount ImplicitDirectoryLinkCount,
      SetPermissions [PermissionsRead, PermissionsExecute], SetSizeBytes (cd_sizeBytes d)]"

definition casDirectory_VirtualLookup ::
    "('d, 'dir, 'leaf, 'sym) casDirectory \<Rightarrow> string \<Rightarrow> ('dir, 'leaf) lookup_result \<times> go_error list" where
  "casDirectory_VirtualLookup d n =
     (case GetDirectoryContents (directoryContext d) of
        (Inl s, log) \<Rightarrow> (Inl s, log)
      | (Inr directory, log) \<Rightarrow>
          (case search_name rdn_Name (re_Directories directory) n of
             Some i \<Rightarrow>
               (case NewDigestFromProto d (rdn_Digest (re_Directories directory ! i)) of
                  Inl err \<Rightarrow> (Inl StatusErrIO, log @ [LogError (directoryContext d)
                    (StatusWrap (Some err) ''Failed to parse digest for directory %#v'' [FStr n])])
                | Inr entryDigest \<Rightarrow>
                    (Inr (FromDirectory (LookupDirectory (directoryContext d) entryDigest)), log))
           | None \<Rightarrow>
          (case search_name rfn_Name (re_Files directory) n of
             Some i \<Rightarrow>
               (let entry = re_Files directory ! i
                in case NewDigestFromProto d (rfn_Digest entry) of
                  Inl err \<Rightarrow> (Inl StatusErrIO, log @ [LogError (directoryContext d)
                    (StatusWrap (Some err) ''Failed to parse digest for file %#v'' [FStr n])])
                | Inr entryDigest \<Rightarrow>
                    (Inr (FromLeaf (LookupFile (directoryContext d) entryDigest (rfn_IsExecutable entry))), log))
           | None \<Rightarrow>
          (case search_name rsn_Name (re_Symlinks directory) n of
             Some i \<Rightarrow>
               (case createSymlink d (word_of_nat i) (rsn_Target (re_Symlinks directory ! i)) of
                  (Inl s, log') \<Rightarrow> (Inl s, log @ log')
                | (Inr f, log') \<Rightarrow> (Inr (FromLeaf f), log @ log'))
           | None \<Rightarrow> (Inl StatusErrNoEnt, log)))))"

definition casDirectory_VirtualOpenChild ::
    "('leaf, 'share, 'opts, 'attrs, 'mask) open_ops \<Rightarrow> ('d, 'dir, 'leaf, 'sym) casDirectory \<Rightarrow> string \<Rightarrow>
     'share \<Rightarrow> 'attrs option \<Rightarrow> 'opts option \<Rightarrow> ('leaf, 'mask) open_result \<times> go_error list" where
  "casDirectory_VirtualOpenChild ops d n shareAccess createAttributes existingOptions =
     (case GetDirectoryContents (directoryContext d) of
        (Inl s, log) \<Rightarrow> (NotOpened s, log)
      | (Inr directory, log) \<Rightarrow>
          (case search_name rdn_Name (re_Directories directory) n of
             Some i \<Rightarrow> (NotOpened (OpenChildWrongFileType ops existingOptions StatusErrIsDir), log)
           | None \<Rightarrow>
          (case search_name rfn_Name (re_Files directory) n of
             Some i \<Rightarrow>
               (case existingOptions of
                  None \<Rightarrow> (NotOpened StatusErrExist, log)
                | Some options \<Rightarrow>
                    (let entry = re_Files directory ! i
                     in case NewDigestFromProto d (rfn_Digest entry) of
                          Inl err \<Rightarrow> (NotOpened StatusErrIO, log @ [LogError (directoryContext d)
                            (StatusWrap (Some err) ''Failed to parse digest for file %#v'' [FStr n])])
                        | Inr entryDigest \<Rightarrow>
                            (let leaf = LookupFile (directoryContext d) entryDigest (rfn_IsExecutable entry)
                             in (OpenedLeaf leaf (ToAttributesMask ops options)
                                   (VirtualOpenSelf ops leaf shareAccess options), log))))
           | None \<Rightarrow>
          (case search_name rsn_Name (re_Symlinks directory) n of
             Some i \<Rightarrow> (NotOpened (OpenChildWrongFileType ops existingOptions StatusErrSymlink), log)
           | None \<Rightarrow> (NotOpened (OpenChildDoesntExist ops createAttributes), log)))))"

text \<open>
  The three loops of \<^verbatim>\<open>VirtualReadDir\<close> share their shape: the entry at index \<open>i\<close> is
  turned into a name and a child and reported with the cookie \<open>off + i\<close>. A loop ends the
  listing (\<open>Inl\<close>: status, log and reporter) or runs to its end (\<open>Inr\<close>: the index).
\<close>

fun report_loop ::
    "(uint64 \<Rightarrow> 'e \<Rightarrow> ('child, go_error) dir_entry) \<Rightarrow> ('child, 'p) reporter \<Rightarrow> uint64 \<Rightarrow> uint64 \<Rightarrow>
     'e list \<Rightarrow> 'p \<Rightarrow> (vstatus \<times> go_error list \<times> 'p) + (uint64 \<times> 'p)" where
  "report_loop entry report off i [] p = Inr (i, p)"
| "report_loop entry report off i (e # es) p =
     (case entry i e of
        Inl (s, log) \<Rightarrow> Inl (s, log, p)
      | Inr (name, child) \<Rightarrow>
          (case report (off + i) name child p of
             (True, p') \<Rightarrow> report_loop entry report off (i + 1) es p'
           | (False, p') \<Rightarrow> Inl (StatusOK, [], p')))"

definition readdir_directory ::
    "(string \<Rightarrow> bool) \<Rightarrow> ('d, 'dir, 'leaf, 'sym) casDirectory \<Rightarrow> uint64 \<Rightarrow> re_DirectoryNode \<Rightarrow>
     (('dir, 'leaf) DirectoryChild, go_error) dir_entry" where
  "readdir_directory newComponent d i entry =
     (if \<not> newComponent (rdn_Name entry)
      then Inl (StatusErrIO, [LogError (directoryContext d)
             (Status InvalidArgument ''Directory %#v has an invalid name'' [FStr (rdn_Name entry)])])
      else case NewDigestFromProto d (rdn_Digest entry) of
             Inl err \<Rightarrow> Inl (StatusErrIO, [LogError (directoryContext d)
               (StatusWrap (Some err) ''Failed to parse digest for directory %#v'' [FStr (rdn_Name entry)])])
           | Inr entryDigest \<Rightarrow>
               Inr (rdn_Name entry, FromDirectory (LookupDirectory (directoryContext d) entryDigest)))"

definition readdir_file ::
    "(string \<Rightarrow> bool) \<Rightarrow> ('d, 'dir, 'leaf, 'sym) casDirectory \<Rightarrow> uint64 \<Rightarrow> re_FileNode \<Rightarrow>
     (('dir, 'leaf) DirectoryChild, go_error) dir_entry" where
  "readdir_file newComponent d i entry =
     (if \<not> newComponent (rfn_Name entry)
      then Inl (StatusErrIO, [LogError (directoryContext d)
             (Status InvalidArgument ''File %#v has an invalid name'' [FStr (rfn_Name entry)])])
      else case NewDigestFromProto d (rfn_Digest entry) of
             Inl err \<Rightarrow> Inl (StatusErrIO, [LogError (directoryContext d)
               (StatusWrap (Some err) ''Failed to parse digest for file %#v'' [FStr (rfn_Name entry)])])
           | Inr entryDigest \<Rightarrow>
               Inr (rfn_Name entry,
                 FromLeaf (LookupFile (directoryContext d) entryDigest (rfn_IsExecutable entry))))"

definition readdir_symlink ::
    "(string \<Rightarrow> bool) \<Rightarrow> ('d, 'dir, 'leaf, 'sym) casDirectory \<Rightarrow> uint64 \<Rightarrow> re_SymlinkNode \<Rightarrow>
     (('dir, 'leaf) DirectoryChild, go_error) dir_entry" where
  "readdir_symlink newComponent d i entry =
     (if \<not> newComponent (rsn_Name entry)
      then Inl (StatusErrIO, [LogError (directoryContext d)
             (Status InvalidArgument ''Symbolic link %#v has an invalid name'' [FStr (rsn_Name entry)])])
      else case createSymlink d i (rsn_Target entry) of
             (Inl s, log) \<Rightarrow> Inl (s, log)
           | (Inr child, log) \<Rightarrow> Inr (rsn_Name entry, FromLeaf child))"

definition casDirectory_VirtualReadDir ::
    "(string \<Rightarrow> bool) \<Rightarrow> ('d, 'dir, 'leaf, 'sym) casDirectory \<Rightarrow> uint64 \<Rightarrow>
     (('dir, 'leaf) DirectoryChild, 'p) reporter \<Rightarrow> 'p \<Rightarrow> vstatus \<times> go_error list \<times> 'p" where
  "casDirectory_VirtualReadDir newComponent d firstCookie report p =
     (case GetDirectoryContents (directoryContext d) of
        (Inl s, log) \<Rightarrow> (s, log, p)
      | (Inr directory, log) \<Rightarrow>
          (let finish = (\<lambda>(s, log', p'). (s, log @ log', p'));
               nDirectories = word_of_nat (length (re_Directories directory));
               nFiles = word_of_nat (length (re_Files directory))
           in case report_loop (readdir_directory newComponent d) report 1 firstCookie
                     (drop (unat firstCookie) (re_Directories directory)) p of
                Inl r \<Rightarrow> finish r
              | Inr (i1, p1) \<Rightarrow>
                  (let i = i1 - nDirectories
                   in case report_loop (readdir_file newComponent d) report (1 + nDirectories) i
                             (drop (unat i) (re_Files directory)) p1 of
                        Inl r \<Rightarrow> finish r
                      | Inr (i2, p2) \<Rightarrow>
                          (let i = i2 - nFiles
                           in case report_loop (readdir_symlink newComponent d) report (1 + nDirectories + nFiles) i
                                     (drop (unat i) (re_Symlinks directory)) p2 of
                                Inl r \<Rightarrow> finish r
                              | Inr (i3, p3) \<Rightarrow> (StatusOK, log, p3)))))"

section \<open>Listings are the concatenation of the three node lists\<close>

fun entries_at :: "(uint64 \<Rightarrow> 'e \<Rightarrow> ('child, go_error) dir_entry) \<Rightarrow> uint64 \<Rightarrow> 'e list \<Rightarrow>
    ('child, go_error) dir_entry list" where
  "entries_at entry i [] = []"
| "entries_at entry i (e # es) = entry i e # entries_at entry (i + 1) es"

lemma length_entries_at [simp]: "length (entries_at entry i es) = length es"
  by (induction es arbitrary: i) auto

lemma drop_entries_at: "drop n (entries_at entry i xs) = entries_at entry (i + word_of_nat n) (drop n xs)"
proof (induction xs arbitrary: i n)
  case (Cons x xs)
  then show ?case by (cases n) (simp_all add: add.assoc)
qed simp

lemma nth_entries_at: "k < length xs \<Longrightarrow> entries_at entry i xs ! k = entry (i + word_of_nat k) (xs ! k)"
proof (induction xs arbitrary: i k)
  case (Cons x xs)
  then show ?case by (cases k) (simp_all add: add.assoc)
qed simp

definition cas_entries ::
    "(string \<Rightarrow> bool) \<Rightarrow> ('d, 'dir, 'leaf, 'sym) casDirectory \<Rightarrow> re_Directory \<Rightarrow>
     (('dir, 'leaf) DirectoryChild, go_error) dir_entry list" where
  "cas_entries newComponent d directory =
     entries_at (readdir_directory newComponent d) 0 (re_Directories directory) @
     entries_at (readdir_file newComponent d) 0 (re_Files directory) @
     entries_at (readdir_symlink newComponent d) 0 (re_Symlinks directory)"

definition cas_size :: "re_Directory \<Rightarrow> nat" where
  "cas_size directory =
     length (re_Directories directory) + length (re_Files directory) + length (re_Symlinks directory)"

lemma report_loop_list_entries:
  assumes "\<And>p'. k (i + word_of_nat (length es)) p' =
      list_entries report (b + (i + word_of_nat (length es))) rest p'"
  shows "(case report_loop entry report (1 + b) i es p of Inl r \<Rightarrow> r | Inr (i', p') \<Rightarrow> k i' p') =
     list_entries report (b + i) (entries_at entry i es @ rest) p"
  using assms
proof (induction es arbitrary: i p)
  case Nil
  then show ?case by simp
next
  case (Cons e es)
  have IH: "(case report_loop entry report (1 + b) (i + 1) es p of Inl r \<Rightarrow> r | Inr (i', p') \<Rightarrow> k i' p') =
     list_entries report (b + (i + 1)) (entries_at entry (i + 1) es @ rest) p" for p
    by (rule Cons.IH) (use Cons.prems in \<open>simp add: ac_simps\<close>)
  show ?case
  proof (cases "entry i e")
    case (Inl a)
    then show ?thesis by (cases a) simp
  next
    case (Inr nc)
    obtain name child where nc: "nc = (name, child)" by fastforce
    obtain ok p' where r: "report (1 + b + i) name child p = (ok, p')" by fastforce
    then have r': "report (b + i + 1) name child p = (ok, p')" by (simp add: ac_simps)
    show ?thesis using IH [of p'] Inr nc r r' by (cases ok) (simp_all add: ac_simps)
  qed
qed

lemma unat_loop_exit:
  fixes i :: uint64
  assumes "n < 2 ^ 64"
  shows "unat (i + word_of_nat (n - unat i) - word_of_nat n) = unat i - n"
proof (cases "unat i \<le> n")
  case True
  have "i + word_of_nat (n - unat i) = word_of_nat (unat i + (n - unat i))" by simp
  also have "\<dots> = word_of_nat n" using True by simp
  finally show ?thesis using True by simp
next
  case False
  then have "word_of_nat n \<le> i"
    using assms by (simp add: word_le_nat_alt unsigned_of_nat take_bit_nat_eq_self)
  then show ?thesis
    using False assms by (simp add: unat_sub unsigned_of_nat take_bit_nat_eq_self)
qed

lemma report_stage:
  assumes "length xs < 2 ^ 64"
    and "\<And>j p'. unat j = unat i - length xs \<Longrightarrow>
      k j p' = list_entries report (b + word_of_nat (length xs) + j) (drop (unat j) rest) p'"
  shows "(case report_loop entry report (1 + b) i (drop (unat i) xs) p of
            Inl r \<Rightarrow> r | Inr (i', p') \<Rightarrow> k (i' - word_of_nat (length xs)) p') =
     list_entries report (b + i) (drop (unat i) (entries_at entry 0 xs @ rest)) p"
proof -
  let ?j = "i + word_of_nat (length xs - unat i) - word_of_nat (length xs)"
  have j: "unat ?j = unat i - length xs"
    using assms(1) by (rule unat_loop_exit)
  show ?thesis
    by (subst report_loop_list_entries [where k = "\<lambda>i' p'. k (i' - word_of_nat (length xs)) p'" and
          rest = "drop (unat i - length xs) rest"])
       (use assms(2) [OF j] j in \<open>simp_all add: drop_entries_at algebra_simps\<close>)
qed

lemma finish_case_sum:
  "(case (case x of Inl r \<Rightarrow> f r | Inr (i, p) \<Rightarrow> g i p) of (s, l, q) \<Rightarrow> h s l q) =
   (case x of Inl r \<Rightarrow> (case f r of (s, l, q) \<Rightarrow> h s l q) | Inr (i, p) \<Rightarrow> (case g i p of (s, l, q) \<Rightarrow> h s l q))"
  by (auto split: sum.splits prod.splits)

lemma VirtualReadDir_list_entries:
  assumes contents: "GetDirectoryContents (directoryContext d) = (Inr directory, log)"
    and small: "cas_size directory < 2 ^ 64"
  shows "casDirectory_VirtualReadDir newComponent d firstCookie report p =
    (case list_entries report firstCookie
            (drop (unat firstCookie) (cas_entries newComponent d directory)) p of
       (s, log', p') \<Rightarrow> (s, log @ log', p'))"
proof -
  let ?D = "re_Directories directory" and ?F = "re_Files directory" and ?S = "re_Symlinks directory"
  let ?nD = "word_of_nat (length ?D) :: uint64" and ?nF = "word_of_nat (length ?F) :: uint64"
  let ?ed = "entries_at (readdir_directory newComponent d) 0 ?D"
  let ?ef = "entries_at (readdir_file newComponent d) 0 ?F"
  let ?es = "entries_at (readdir_symlink newComponent d) 0 ?S"
  have len: "length ?D < 2 ^ 64" "length ?F < 2 ^ 64" "length ?S < 2 ^ 64"
    using small by (auto simp: cas_size_def)
  have symlinks: "(case report_loop (readdir_symlink newComponent d) report (1 + (?nD + ?nF)) j (drop (unat j) ?S) p' of
        Inl r \<Rightarrow> r | Inr (i3, p3) \<Rightarrow> (StatusOK, [], p3)) =
      list_entries report (?nD + ?nF + j) (drop (unat j) ?es) p'" for j p'
    using report_stage [OF len(3), where k = "\<lambda>_ p'. (StatusOK, [], p')" and rest = "[]" and i = j and b = "?nD + ?nF"
      and report = report and entry = "readdir_symlink newComponent d" and p = p'] by simp
  have files: "(case report_loop (readdir_file newComponent d) report (1 + ?nD) j (drop (unat j) ?F) p' of
        Inl r \<Rightarrow> r | Inr (i2, p2) \<Rightarrow>
          (case report_loop (readdir_symlink newComponent d) report (1 + (?nD + ?nF)) (i2 - ?nF) (drop (unat (i2 - ?nF)) ?S) p2 of
             Inl r \<Rightarrow> r | Inr (i3, p3) \<Rightarrow> (StatusOK, [], p3))) =
      list_entries report (?nD + j) (drop (unat j) (?ef @ ?es)) p'" for j p'
    by (rule report_stage [OF len(2)], rule symlinks)
  have dirs: "(case report_loop (readdir_directory newComponent d) report (1 + 0) firstCookie (drop (unat firstCookie) ?D) p of
        Inl r \<Rightarrow> r | Inr (i1, p1) \<Rightarrow>
          (case report_loop (readdir_file newComponent d) report (1 + ?nD) (i1 - ?nD) (drop (unat (i1 - ?nD)) ?F) p1 of
             Inl r \<Rightarrow> r | Inr (i2, p2) \<Rightarrow>
               (case report_loop (readdir_symlink newComponent d) report (1 + (?nD + ?nF)) (i2 - ?nF) (drop (unat (i2 - ?nF)) ?S) p2 of
                  Inl r \<Rightarrow> r | Inr (i3, p3) \<Rightarrow> (StatusOK, [], p3)))) =
      list_entries report (0 + firstCookie) (drop (unat firstCookie) (?ed @ (?ef @ ?es))) p"
    by (rule report_stage [OF len(1)], unfold add_0, rule files)
  show ?thesis
    using contents dirs [symmetric]
    by (simp add: casDirectory_VirtualReadDir_def cas_entries_def Let_def finish_case_sum add.assoc
         cong: sum.case_cong)
qed


section \<open>Lookups agree with listings\<close>

definition cas_names :: "re_Directory \<Rightarrow> string list" where
  "cas_names directory = map rdn_Name (re_Directories directory) @ map rfn_Name (re_Files directory) @
     map rsn_Name (re_Symlinks directory)"

definition cas_sorted :: "re_Directory \<Rightarrow> bool" where
  "cas_sorted directory \<longleftrightarrow> names_sorted rdn_Name (re_Directories directory) \<and>
     names_sorted rfn_Name (re_Files directory) \<and> names_sorted rsn_Name (re_Symlinks directory)"

text \<open>The result of a lookup, from the entry that a listing produces under the name.\<close>

fun lookup_of_entry :: "go_error list \<Rightarrow> (('dir, 'leaf) DirectoryChild, go_error) dir_entry option \<Rightarrow>
    ('dir, 'leaf) lookup_result \<times> go_error list" where
  "lookup_of_entry log None = (Inl StatusErrNoEnt, log)"
| "lookup_of_entry log (Some (Inl (s, log'))) = (Inl s, log @ log')"
| "lookup_of_entry log (Some (Inr (name, child))) = (Inr child, log)"

lemma search_name_map_of:
  assumes "names_sorted nm xs" "length ys = length xs"
  shows "map_of (zip (map nm xs) ys) n = map_option (\<lambda>i. ys ! i) (search_name nm xs n)"
proof (cases "search_name nm xs n")
  case None
  then have "n \<notin> set (map nm xs)" using search_name_None [OF assms(1)] by auto
  then have "map_of (zip (map nm xs) ys) n = None"
    using assms(2) by (auto simp: map_of_eq_None_iff set_zip)
  with None show ?thesis by simp
next
  case (Some i)
  then have i: "i < length xs" "nm (xs ! i) = n" using search_name_sound [of nm xs n i] by auto
  have "distinct (map nm xs)"
    using assms(1) by (simp add: names_sorted_def strict_sorted_iff)
  then have "map_of (zip (map nm xs) ys) n = Some (ys ! i)"
    using i assms(2) map_of_zip_nth [of "map nm xs" ys i] by simp
  with Some show ?thesis by simp
qed

lemma map_of_cas_entries:
  assumes "cas_sorted directory"
  shows "map_of (zip (cas_names directory) (cas_entries newComponent d directory)) n =
    (case search_name rdn_Name (re_Directories directory) n of
       Some i \<Rightarrow> Some (readdir_directory newComponent d (word_of_nat i) (re_Directories directory ! i))
     | None \<Rightarrow>
    (case search_name rfn_Name (re_Files directory) n of
       Some i \<Rightarrow> Some (readdir_file newComponent d (word_of_nat i) (re_Files directory ! i))
     | None \<Rightarrow>
    (case search_name rsn_Name (re_Symlinks directory) n of
       Some i \<Rightarrow> Some (readdir_symlink newComponent d (word_of_nat i) (re_Symlinks directory ! i))
     | None \<Rightarrow> None)))"
  using assms
  by (auto simp: cas_names_def cas_entries_def cas_sorted_def zip_append map_add_def search_name_map_of
        nth_entries_at dest: search_name_sound split: option.splits)

lemma VirtualLookup_listing:
  assumes contents: "GetDirectoryContents (directoryContext d) = (Inr directory, log)"
    and srt: "cas_sorted directory" and n: "newComponent n"
  shows "casDirectory_VirtualLookup d n =
    lookup_of_entry log (map_of (zip (cas_names directory) (cas_entries newComponent d directory)) n)"
  using contents n
  by (auto simp: casDirectory_VirtualLookup_def map_of_cas_entries [OF srt] readdir_directory_def
       readdir_file_def readdir_symlink_def Let_def createSymlink_def dest: search_name_sound
       split: option.splits sum.splits prod.splits)


lemma resolveHandle_self: "resolveHandle d (0 # r) = (Inr (FromDirectory (createSelf d)), [])"
  by (simp add: resolveHandle_def ReadUvarint_def)

lemma resolveHandle_symlink:
  assumes contents: "GetDirectoryContents (directoryContext d) = (Inr directory, log)"
    and small: "cas_size directory < 2 ^ 64 - 1" and i: "i < length (re_Symlinks directory)"
  shows "resolveHandle d (PutUvarint (word_of_nat i + 1) @ r) =
    (case createSymlink d (word_of_nat i) (rsn_Target (re_Symlinks directory ! i)) of
       (Inl s, log') \<Rightarrow> (Inl s, log @ log')
     | (Inr leaf, log') \<Rightarrow> (Inr (FromLeaf leaf), log @ log'))"
proof -
  have lens: "length (re_Symlinks directory) < 2 ^ 64 - 1" using small by (simp add: cas_size_def)
  have u: "unat (word_of_nat i :: uint64) = i" using i lens by simp
  have "unat (word_of_nat (Suc i) :: uint64) = Suc i" using i lens by (intro unat_of_nat64) simp
  then have nz: "word_of_nat i + (1 :: uint64) \<noteq> 0" by (metis Zero_not_Suc unsigned_0 add.commute of_nat_Suc)
  have lt: "\<not> word_of_nat (length (re_Symlinks directory)) \<le> (word_of_nat i :: uint64)"
    using i lens by (simp add: word_le_nat_alt)
  show ?thesis
    using contents nz lt u by (simp add: resolveHandle_def ReadUvarint_PutUvarint Let_def)
qed

text \<open>What resolving any handle can give: the directory, one of its symbolic links, or an error.\<close>

lemma resolveHandle_cases:
  assumes "resolveHandle d r = (Inr child, log)"
  shows "child = FromDirectory (createSelf d) \<or>
    (\<exists>directory log' i leaf. GetDirectoryContents (directoryContext d) = (Inr directory, log') \<and>
       i < length (re_Symlinks directory) \<and> child = FromLeaf leaf \<and>
       fst (createSymlink d (word_of_nat i) (rsn_Target (re_Symlinks directory ! i))) = Inr leaf)"
proof -
  obtain x rest where x: "ReadUvarint r = Inr (x, rest)"
    using assms by (auto simp: resolveHandle_def split: sum.splits)
  show ?thesis
  proof (cases "x = 0")
    case True
    with assms x show ?thesis by (simp add: resolveHandle_def)
  next
    case False
    with assms x obtain directory log' leaf log'' where
      d: "GetDirectoryContents (directoryContext d) = (Inr directory, log')"
      "\<not> word_of_nat (length (re_Symlinks directory)) \<le> x - 1"
      "createSymlink d (x - 1) (rsn_Target (re_Symlinks directory ! unat (x - 1))) = (Inr leaf, log'')"
      "child = FromLeaf leaf"
      by (auto simp: resolveHandle_def Let_def split: sum.splits prod.splits if_splits)
    moreover have "unat (x - 1) < length (re_Symlinks directory)"
      using d(2) by (intro less_of_nat64) simp
    ultimately show ?thesis
      by (intro disjI2 exI [of _ directory] exI [of _ log'] exI [of _ "unat (x - 1)"] exI [of _ leaf]) simp
  qed
qed

section \<open>Opening children\<close>

lemma VirtualOpenChild_opened:
  assumes "casDirectory_VirtualOpenChild ops d n sa ca eo = (OpenedLeaf leaf am s, log)"
  shows "\<exists>opts. eo = Some opts \<and> am = ToAttributesMask ops opts \<and>
    s = VirtualOpenSelf ops leaf sa opts \<and>
    casDirectory_VirtualLookup d n = (Inr (FromLeaf leaf), log)"
  using assms
  by (auto simp: casDirectory_VirtualOpenChild_def casDirectory_VirtualLookup_def Let_def
      split: option.splits sum.splits prod.splits)

section \<open>Properties\<close>

text \<open>A directory with one child of each kind, for the examples below.\<close>

definition demo_cas_contents :: re_Directory where
  "demo_cas_contents = \<lparr>
     re_Directories = [\<lparr>rdn_Name = ''d'', rdn_Digest = \<lparr>pd_Hash = ''11'', pd_SizeBytes = 1\<rparr>\<rparr>],
     re_Files = [\<lparr>rfn_Name = ''a'', rfn_Digest = \<lparr>pd_Hash = ''22'', pd_SizeBytes = 2\<rparr>, rfn_IsExecutable = True\<rparr>],
     re_Symlinks = [\<lparr>rsn_Name = ''s'', rsn_Target = ''d/x''\<rparr>]\<rparr>"

definition demo_cas :: "(proto_digest, proto_digest + bytes, (proto_digest \<times> bool) + (bytes \<times> string), string) casDirectory" where
  "demo_cas = \<lparr>
     directoryContext = \<lparr>LookupDirectory = Inl, LookupFile = (\<lambda>dg x. Inl (dg, x)),
       GetDirectoryContents = (Inr demo_cas_contents, []), LogError = id\<rparr>,
     NewDigestFromProto = Inr, AsStatelessDirectory = Inr, AsLinkableLeaf = (\<lambda>h s. Inr (h, s)),
     LookupSymlink = Inr, cd_sizeBytes = 42\<rparr>"

lemmas demo_cas_defs = demo_cas_def demo_cas_contents_def cas_size_def cas_sorted_def names_sorted_def
  cas_names_def cas_entries_def readdir_directory_def readdir_file_def readdir_symlink_def createSymlink_def

text \<open>
  C23. Listing a CAS directory. For a Directory message with fewer than $2^{64}$ nodes, a listing
  from any cookie is the reference listing of the concatenated directories, files and
  symbolic links with the cookie's number of entries skipped: no entry is skipped or repeated
  at the borders of the three lists, the unsigned subtractions never wrap, every entry is
  reported with the cookie that continues after it, and the first entry with an invalid name,
  digest or target ends the listing with an I/O error that is logged.
\<close>

theorem cas_readdir_lists_all:
  assumes "GetDirectoryContents (directoryContext d) = (Inr directory, log)"
    and "cas_size directory < 2 ^ 64"
  shows "casDirectory_VirtualReadDir newComponent d firstCookie report p =
    (case list_entries report firstCookie
            (drop (unat firstCookie) (cas_entries newComponent d directory)) p of
       (s, log', p') \<Rightarrow> (s, log @ log', p'))"
  using assms by (rule VirtualReadDir_list_entries)

theorem cas_readdir_lists_all_witness:
  "casDirectory_VirtualReadDir (\<lambda>_. True) demo_cas 1 bounded_reporter (2, []) =
     (StatusOK, [], (0, [(2, ''a'', FromLeaf (Inl (\<lparr>pd_Hash = ''22'', pd_SizeBytes = 2\<rparr>, True))),
                         (3, ''s'', FromLeaf (Inr ([1], ''d/x'')))]))"
  using cas_readdir_lists_all [of demo_cas demo_cas_contents "[]" "\<lambda>_. True" 1 bounded_reporter "(2, [])"]
  by (simp add: demo_cas_defs bounded_reporter_def PutUvarint.simps word_le_nat_alt)

text \<open>
  Listings in pages. When all entries of the message are valid, a page with room for a
  number of entries that starts at a cookie holds exactly the entries from that position on,
  each with the position after it as its cookie, so that continuing at the cookie of the last
  entry received gives every entry exactly once.
\<close>

theorem cas_readdir_pages:
  assumes "GetDirectoryContents (directoryContext d) = (Inr directory, log)"
    and "cas_size directory < 2 ^ 64"
    and "\<forall>e \<in> set (cas_entries newComponent d directory). \<exists>nc. e = Inr nc"
    and "start \<le> cas_size directory"
  shows "casDirectory_VirtualReadDir newComponent d (word_of_nat start) bounded_reporter (room, []) =
    (StatusOK, log, (room - (cas_size directory - start),
       map (\<lambda>i. (word_of_nat (Suc i), projr (cas_entries newComponent d directory ! i)))
         [start ..< min (start + room) (cas_size directory)]))"
proof -
  let ?es = "cas_entries newComponent d directory"
  have len: "length ?es = cas_size directory" by (simp add: cas_entries_def cas_size_def)
  have u: "unat (word_of_nat start :: uint64) = start" using assms(2,4) by simp
  have all: "\<forall>e \<in> set (drop start ?es). \<exists>nc. e = Inr nc" using assms(3) by (meson in_set_dropD)
  have page: "map (\<lambda>(i, e). (word_of_nat start + word_of_nat (Suc i) :: uint64, projr e))
      (zip [0..<min room (length (drop start ?es))] (drop start ?es)) =
    map (\<lambda>i. (word_of_nat (Suc i), projr (?es ! i))) [start ..< min (start + room) (cas_size directory)]"
    by (rule nth_equalityI) (use assms(4) len in \<open>auto simp: min_def ac_simps split: if_splits\<close>)
  show ?thesis
    unfolding VirtualReadDir_list_entries [OF assms(1,2)] u list_entries_bounded [OF all] page
    using len by simp
qed

theorem cas_readdir_pages_witness:
  "casDirectory_VirtualReadDir (\<lambda>_. True) demo_cas 2 bounded_reporter (5, []) =
     (StatusOK, [], (4, [(3, ''s'', FromLeaf (Inr ([1], ''d/x'')))]))"
  using cas_readdir_pages [of demo_cas demo_cas_contents "[]" "\<lambda>_. True" 2 5]
  by (simp add: demo_cas_defs PutUvarint.simps word_le_nat_alt upt_rec)

text \<open>
  C24. Lookups agree with listings. When the nodes of each kind are sorted by name, as the
  protocol asks, the binary searches of a lookup find exactly the entry that a listing
  gives the name to, directories before files before symbolic links, with the same
  child, or with the same error and log; every other name gives \<^verbatim>\<open>StatusErrNoEnt\<close>.
\<close>

theorem cas_lookup_agrees_with_listing:
  assumes "GetDirectoryContents (directoryContext d) = (Inr directory, log)"
    and "cas_sorted directory" and "newComponent n"
  shows "casDirectory_VirtualLookup d n =
    lookup_of_entry log (map_of (zip (cas_names directory) (cas_entries newComponent d directory)) n)"
  using assms by (rule VirtualLookup_listing)

theorem cas_lookup_agrees_with_listing_witness:
  "casDirectory_VirtualLookup demo_cas ''s'' = (Inr (FromLeaf (Inr ([1], ''d/x''))), []) \<and>
   casDirectory_VirtualLookup demo_cas ''zz'' = (Inl StatusErrNoEnt, [])"
  using cas_lookup_agrees_with_listing [of demo_cas demo_cas_contents "[]" "\<lambda>_. True" "''s''"]
    cas_lookup_agrees_with_listing [of demo_cas demo_cas_contents "[]" "\<lambda>_. True" "''zz''"]
  by (simp add: demo_cas_defs PutUvarint.simps word_le_nat_alt)

text \<open>
  C26. Handles of a CAS directory resolve to what they were made for. The handle of any directory
  resolves to the directory, without fetching its contents. When the contents can be fetched, the
  handle of the symbolic link with index \<open>i\<close> resolves to the link that lookups and listings
  return for that index. Whatever follows the handle's bytes is ignored.
\<close>

theorem cas_handles_resolve:
  "(\<exists>h. createSelf d = AsStatelessDirectory d h \<and>
      (\<forall>r. resolveHandle d (h @ r) = (Inr (FromDirectory (AsStatelessDirectory d h)), []))) \<and>
   (\<forall>directory log i leaf log'.
      GetDirectoryContents (directoryContext d) = (Inr directory, log) \<and> cas_size directory < 2 ^ 64 - 1 \<and>
      i < length (re_Symlinks directory) \<and>
      createSymlink d (word_of_nat i) (rsn_Target (re_Symlinks directory ! i)) = (Inr leaf, log') \<longrightarrow>
      (\<exists>h symlink. LookupSymlink d (rsn_Target (re_Symlinks directory ! i)) = Inr symlink \<and>
         leaf = AsLinkableLeaf d h symlink \<and> (\<forall>r. resolveHandle d (h @ r) = (Inr (FromLeaf leaf), log))))"
proof (intro conjI allI impI; (elim conjE)?)
  show "\<exists>h. createSelf d = AsStatelessDirectory d h \<and>
      (\<forall>r. resolveHandle d (h @ r) = (Inr (FromDirectory (AsStatelessDirectory d h)), []))"
    using resolveHandle_self [of d] by (intro exI [of _ "[0]"]) (simp add: createSelf_def)
next
  fix directory log i leaf log'
  assume a: "GetDirectoryContents (directoryContext d) = (Inr directory, log)" "cas_size directory < 2 ^ 64 - 1"
      "i < length (re_Symlinks directory)"
    and l: "createSymlink d (word_of_nat i) (rsn_Target (re_Symlinks directory ! i)) = (Inr leaf, log')"
  obtain symlink where s: "LookupSymlink d (rsn_Target (re_Symlinks directory ! i)) = Inr symlink"
    "leaf = AsLinkableLeaf d (PutUvarint (word_of_nat i + 1)) symlink" "log' = []"
    using l by (auto simp: createSymlink_def split: sum.splits)
  have "\<forall>r. resolveHandle d (PutUvarint (word_of_nat i + 1) @ r) = (Inr (FromLeaf leaf), log)"
    using resolveHandle_symlink [OF a] l s by simp
  with s show "\<exists>h symlink. LookupSymlink d (rsn_Target (re_Symlinks directory ! i)) = Inr symlink \<and>
         leaf = AsLinkableLeaf d h symlink \<and> (\<forall>r. resolveHandle d (h @ r) = (Inr (FromLeaf leaf), log))" by blast
qed

theorem cas_handles_resolve_witness:
  "createSymlink demo_cas 0 ''d/x'' = (Inr (Inr ([1], ''d/x'')), []) \<and>
   (\<exists>h. Inr ([1], ''d/x'') = AsLinkableLeaf demo_cas h ''d/x'' \<and>
     (\<forall>r. resolveHandle demo_cas (h @ r) = (Inr (FromLeaf (Inr ([1], ''d/x''))), [])))"
proof -
  have l: "createSymlink demo_cas (word_of_nat 0) (rsn_Target (re_Symlinks demo_cas_contents ! 0)) = (Inr (Inr ([1], ''d/x'')), [])"
    "GetDirectoryContents (directoryContext demo_cas) = (Inr demo_cas_contents, [])" "0 < length (re_Symlinks demo_cas_contents)"
    "cas_size demo_cas_contents < 2 ^ 64 - 1" "LookupSymlink demo_cas (rsn_Target (re_Symlinks demo_cas_contents ! 0)) = Inr ''d/x''"
    "rsn_Target (re_Symlinks demo_cas_contents ! 0) = ''d/x''"
    by (simp_all add: demo_cas_defs cas_size_def PutUvarint.simps word_le_nat_alt)
  with cas_handles_resolve [of demo_cas, THEN conjunct2, rule_format, of demo_cas_contents "[]" 0 "Inr ([1], ''d/x'')" "[]"]
  show ?thesis by auto
qed

text \<open>
  C25. Opening agrees with looking up. When opening a child of a CAS directory hands out a leaf,
  the caller asked to open existing files, a lookup of the same name gives the same leaf and
  logs the same, and the status is the one the leaf's own open call returned.
\<close>

theorem cas_open_agrees_with_lookup:
  assumes "casDirectory_VirtualOpenChild ops d n sa ca eo = (OpenedLeaf leaf am s, log)"
  shows "\<exists>opts. eo = Some opts \<and> am = ToAttributesMask ops opts \<and>
    s = VirtualOpenSelf ops leaf sa opts \<and>
    casDirectory_VirtualLookup d n = (Inr (FromLeaf leaf), log)"
  using assms by (rule VirtualOpenChild_opened)

definition demo_open_ops :: "('leaf, unit, unit, unit, nat) open_ops" where
  "demo_open_ops = \<lparr>OpenChildWrongFileType = (\<lambda>o1 s. if o1 = None then StatusErrExist else s),
     OpenChildDoesntExist = (\<lambda>a. if a = None then StatusErrNoEnt else StatusErrAccess),
     VirtualOpenSelf = (\<lambda>_ _ _. StatusOK), ToAttributesMask = (\<lambda>_. 7)\<rparr>"

theorem cas_open_agrees_with_lookup_witness:
  "casDirectory_VirtualLookup demo_cas ''a'' =
     (Inr (FromLeaf (Inl (\<lparr>pd_Hash = ''22'', pd_SizeBytes = 2\<rparr>, True))), [])"
proof -
  have "casDirectory_VirtualOpenChild demo_open_ops demo_cas ''a'' () None (Some ()) =
      (OpenedLeaf (Inl (\<lparr>pd_Hash = ''22'', pd_SizeBytes = 2\<rparr>, True)) 7 StatusOK, [])"
    by (simp add: casDirectory_VirtualOpenChild_def demo_cas_defs demo_open_ops_def search_name_def
        sort_Search_def sort_Search_loop.simps Let_def)
  from cas_open_agrees_with_lookup [OF this] show ?thesis by simp
qed

end
