(* ===== verification/CAS_Factories.thy ===== *)
theory CAS_Factories
  imports CAS_Directory
begin

text \<open>
  The factories of CAS directories, \<^verbatim>\<open>decomposed_cas_directory_factory.go\<close> and
  \<^verbatim>\<open>tree_cas_directory_factory.go\<close>, and the walker over the directories of a Tree
  object, \<^verbatim>\<open>pkg/cas/tree_directory_walker.go\<close>.

  The directory fetcher and the digests are outside the repository. The digest handle
  allocator is too: the object it makes for a blob digest and a suffix is the result of
  the fields \<open>cdf_AsStatelessDirectory\<close> and \<open>cdf_AsLinkableLeaf\<close>, where the suffixes of
  nested allocators are appended to each other. Both factories resolve what remains of a
  handle after the blob digest has been read from it.
\<close>

section \<open>Parameters\<close>

record 'd DirectoryFetcher =
  GetDirectory :: "'d \<Rightarrow> re_Directory result"
  GetTreeRootDirectory :: "'d \<Rightarrow> re_Directory result"
  GetTreeChildDirectory :: "'d \<Rightarrow> 'd \<Rightarrow> re_Directory result"

text \<open>
  \<open>FunctionNewDigestFromProto d\<close> is \<^verbatim>\<open>d.GetDigestFunction().NewDigestFromProto\<close> and
  \<open>InstanceNewDigestFromCompactBinary d\<close> is
  \<^verbatim>\<open>d.GetInstanceName().NewDigestFromCompactBinary\<close>, which returns the bytes it left.
\<close>

record 'd digest_ops =
  FunctionNewDigestFromProto :: "'d \<Rightarrow> proto_digest \<Rightarrow> 'd result"
  InstanceNewDigestFromCompactBinary :: "'d \<Rightarrow> bytes \<Rightarrow> ('d \<times> bytes) result"
  GetCompactBinary :: "'d \<Rightarrow> bytes"
  digest_GetSizeBytes :: "'d \<Rightarrow> int"
  digest_String :: "'d \<Rightarrow> string"

record ('d, 'dir, 'leaf, 'sym) casDirectoryFactory =
  cdf_LookupFile :: "'d \<Rightarrow> bool \<Rightarrow> 'leaf"
  cdf_directoryFetcher :: "'d DirectoryFetcher"
  cdf_digest :: "'d digest_ops"
  cdf_AsStatelessDirectory :: "'d \<Rightarrow> bytes \<Rightarrow> 'dir"
  cdf_AsLinkableLeaf :: "'d \<Rightarrow> bytes \<Rightarrow> 'sym \<Rightarrow> 'leaf"
  cdf_LookupSymlink :: "string \<Rightarrow> 'sym result"

text \<open>
  \<^verbatim>\<open>NewCASDirectory\<close>, as the factories call it: the handle allocation is the blob
  digest and a prefix of the suffixes the directory allocates itself.
\<close>

definition NewCASDirectory ::
    "('d, 'dir, 'leaf, 'sym) casDirectoryFactory \<Rightarrow> ('d, 'dir, 'leaf) CASDirectoryContext \<Rightarrow> 'd \<Rightarrow> bytes \<Rightarrow>
     uint64 \<Rightarrow> ('d, 'dir, 'leaf, 'sym) casDirectory" where
  "NewCASDirectory cdf context blobDigest prefix sizeBytes = \<lparr>
     directoryContext = context,
     NewDigestFromProto = FunctionNewDigestFromProto (cdf_digest cdf) blobDigest,
     AsStatelessDirectory = (\<lambda>suffix. cdf_AsStatelessDirectory cdf blobDigest (prefix @ suffix)),
     AsLinkableLeaf = (\<lambda>suffix. cdf_AsLinkableLeaf cdf blobDigest (prefix @ suffix)),
     LookupSymlink = cdf_LookupSymlink cdf,
     cd_sizeBytes = sizeBytes\<rparr>"

text \<open>The three contexts fetch a directory the same way.\<close>

definition fetch_contents ::
    "re_Directory result \<Rightarrow> (go_error \<Rightarrow> go_error) \<Rightarrow> (vstatus + re_Directory) \<times> go_error list" where
  "fetch_contents fetched logError =
     (case fetched of
        Inl err \<Rightarrow> (Inl StatusErrIO, [logError err])
      | Inr directory \<Rightarrow> (Inr directory, []))"

section \<open>decomposed\_cas\_directory\_factory.go\<close>

definition decomposed_LogError :: "('d, 'dir, 'leaf, 'sym) casDirectoryFactory \<Rightarrow> 'd \<Rightarrow> go_error \<Rightarrow> go_error" where
  "decomposed_LogError cdf blobDigest err =
     StatusWrap (Some err) ''Directory %#v'' [FStr (digest_String (cdf_digest cdf) blobDigest)]"

definition decomposed_GetDirectoryContents ::
    "('d, 'dir, 'leaf, 'sym) casDirectoryFactory \<Rightarrow> 'd \<Rightarrow> (vstatus + re_Directory) \<times> go_error list" where
  "decomposed_GetDirectoryContents cdf blobDigest =
     fetch_contents (GetDirectory (cdf_directoryFetcher cdf) blobDigest) (decomposed_LogError cdf blobDigest)"

text \<open>
  \<^verbatim>\<open>LookupDirectory\<close> makes a directory whose context makes directories in turn. The
  model names the object by its handle, which \<open>decomposed_LookupDirectory_self\<close> below shows to
  be the one \<^verbatim>\<open>createDirectory\<close> returns.
\<close>

definition decomposed_LookupDirectory :: "('d, 'dir, 'leaf, 'sym) casDirectoryFactory \<Rightarrow> 'd \<Rightarrow> 'dir" where
  "decomposed_LookupDirectory cdf blobDigest = cdf_AsStatelessDirectory cdf blobDigest [0]"

definition decomposed_createDirectory ::
    "('d, 'dir, 'leaf, 'sym) casDirectoryFactory \<Rightarrow> 'd \<Rightarrow> ('d, 'dir, 'leaf, 'sym) casDirectory" where
  "decomposed_createDirectory cdf blobDigest =
     NewCASDirectory cdf
       \<lparr>LookupDirectory = decomposed_LookupDirectory cdf,
        LookupFile = cdf_LookupFile cdf,
        GetDirectoryContents = decomposed_GetDirectoryContents cdf blobDigest,
        LogError = decomposed_LogError cdf blobDigest\<rparr>
       blobDigest [] (word_of_int (digest_GetSizeBytes (cdf_digest cdf) blobDigest))"

definition decomposed_resolve ::
    "('d, 'dir, 'leaf, 'sym) casDirectoryFactory \<Rightarrow> 'd \<Rightarrow> bytes \<Rightarrow> ('dir, 'leaf) lookup_result \<times> go_error list" where
  "decomposed_resolve cdf blobDigest r = resolveHandle (decomposed_createDirectory cdf blobDigest) r"

section \<open>tree\_cas\_directory\_factory.go\<close>

definition treeRoot_LogError :: "('d, 'dir, 'leaf, 'sym) casDirectoryFactory \<Rightarrow> 'd \<Rightarrow> go_error \<Rightarrow> go_error" where
  "treeRoot_LogError cdf treeDigest err =
     StatusWrap (Some err) ''Tree %#v root directory'' [FStr (digest_String (cdf_digest cdf) treeDigest)]"

definition treeRoot_GetDirectoryContents ::
    "('d, 'dir, 'leaf, 'sym) casDirectoryFactory \<Rightarrow> 'd \<Rightarrow> (vstatus + re_Directory) \<times> go_error list" where
  "treeRoot_GetDirectoryContents cdf treeDigest =
     fetch_contents (GetTreeRootDirectory (cdf_directoryFetcher cdf) treeDigest) (treeRoot_LogError cdf treeDigest)"

definition treeChild_LogError ::
    "('d, 'dir, 'leaf, 'sym) casDirectoryFactory \<Rightarrow> 'd \<Rightarrow> 'd \<Rightarrow> go_error \<Rightarrow> go_error" where
  "treeChild_LogError cdf treeDigest childDigest err =
     StatusWrap (Some err) ''Tree %#v child directory %#v''
       [FStr (digest_String (cdf_digest cdf) treeDigest), FStr (digest_String (cdf_digest cdf) childDigest)]"

definition treeChild_GetDirectoryContents ::
    "('d, 'dir, 'leaf, 'sym) casDirectoryFactory \<Rightarrow> 'd \<Rightarrow> 'd \<Rightarrow> (vstatus + re_Directory) \<times> go_error list" where
  "treeChild_GetDirectoryContents cdf treeDigest childDigest =
     fetch_contents (GetTreeChildDirectory (cdf_directoryFetcher cdf) treeDigest childDigest)
       (treeChild_LogError cdf treeDigest childDigest)"

definition tree_context_LookupDirectory :: "('d, 'dir, 'leaf, 'sym) casDirectoryFactory \<Rightarrow> 'd \<Rightarrow> 'd \<Rightarrow> 'dir" where
  "tree_context_LookupDirectory cdf treeDigest childDigest =
     cdf_AsStatelessDirectory cdf treeDigest (1 # GetCompactBinary (cdf_digest cdf) childDigest @ [0])"

definition tree_createRootDirectory ::
    "('d, 'dir, 'leaf, 'sym) casDirectoryFactory \<Rightarrow> 'd \<Rightarrow> ('d, 'dir, 'leaf, 'sym) casDirectory" where
  "tree_createRootDirectory cdf treeDigest =
     NewCASDirectory cdf
       \<lparr>LookupDirectory = tree_context_LookupDirectory cdf treeDigest,
        LookupFile = cdf_LookupFile cdf,
        GetDirectoryContents = treeRoot_GetDirectoryContents cdf treeDigest,
        LogError = treeRoot_LogError cdf treeDigest\<rparr>
       treeDigest [0] (word_of_int (digest_GetSizeBytes (cdf_digest cdf) treeDigest))"

definition tree_createChildDirectory ::
    "('d, 'dir, 'leaf, 'sym) casDirectoryFactory \<Rightarrow> 'd \<Rightarrow> 'd \<Rightarrow> ('d, 'dir, 'leaf, 'sym) casDirectory" where
  "tree_createChildDirectory cdf treeDigest childDigest =
     NewCASDirectory cdf
       \<lparr>LookupDirectory = tree_context_LookupDirectory cdf treeDigest,
        LookupFile = cdf_LookupFile cdf,
        GetDirectoryContents = treeChild_GetDirectoryContents cdf treeDigest childDigest,
        LogError = treeChild_LogError cdf treeDigest childDigest\<rparr>
       treeDigest (1 # GetCompactBinary (cdf_digest cdf) childDigest)
       (word_of_int (digest_GetSizeBytes (cdf_digest cdf) treeDigest))"

definition tree_LookupDirectory :: "('d, 'dir, 'leaf, 'sym) casDirectoryFactory \<Rightarrow> 'd \<Rightarrow> 'dir" where
  "tree_LookupDirectory cdf blobDigest = createSelf (tree_createRootDirectory cdf blobDigest)"

definition tree_resolve ::
    "('d, 'dir, 'leaf, 'sym) casDirectoryFactory \<Rightarrow> 'd \<Rightarrow> bytes \<Rightarrow> ('dir, 'leaf) lookup_result \<times> go_error list" where
  "tree_resolve cdf treeDigest r =
     (case r of
        [] \<Rightarrow> (Inl StatusErrBadHandle, [])
      | isChild # r1 \<Rightarrow>
          if isChild = 0 then resolveHandle (tree_createRootDirectory cdf treeDigest) r1
          else if isChild = 1
          then (case InstanceNewDigestFromCompactBinary (cdf_digest cdf) treeDigest r1 of
                  Inl err \<Rightarrow> (Inl StatusErrBadHandle, [])
                | Inr (childDigest, r2) \<Rightarrow> resolveHandle (tree_createChildDirectory cdf treeDigest childDigest) r2)
          else (Inl StatusErrBadHandle, []))"

text \<open>
  The context of a tree, which the factory makes anew to look up or resolve, is its digest: the handle
  allocator of a context resolves to the context's own \<open>tree_resolve\<close>.
\<close>

definition tree_createTreeContext ::
    "('d, 'dir, 'leaf, 'sym) casDirectoryFactory \<Rightarrow> 'd \<Rightarrow> 'd \<times> (bytes \<Rightarrow> ('dir, 'leaf) lookup_result \<times> go_error list)" where
  "tree_createTreeContext cdf blobDigest = (blobDigest, tree_resolve cdf blobDigest)"

definition tree_factory_resolve ::
    "('d, 'dir, 'leaf, 'sym) casDirectoryFactory \<Rightarrow> 'd \<Rightarrow> bytes \<Rightarrow> ('dir, 'leaf) lookup_result \<times> go_error list" where
  "tree_factory_resolve cdf blobDigest r = snd (tree_createTreeContext cdf blobDigest) r"

section \<open>tree\_directory\_walker.go\<close>

text \<open>The two walkers of a tree, \<^verbatim>\<open>treeRootDirectoryWalker\<close> and \<^verbatim>\<open>treeChildDirectoryWalker\<close>.\<close>

datatype 'd treeDirectoryWalker =
    treeRootDirectoryWalker "'d DirectoryFetcher" 'd
  | treeChildDirectoryWalker "'d DirectoryFetcher" 'd 'd

fun NewTreeDirectoryWalker :: "'d DirectoryFetcher \<Rightarrow> 'd \<Rightarrow> 'd option \<Rightarrow> 'd treeDirectoryWalker" where
  "NewTreeDirectoryWalker fetcher treeDigest None = treeRootDirectoryWalker fetcher treeDigest"
| "NewTreeDirectoryWalker fetcher treeDigest (Some rootDirectoryDigest) =
     treeChildDirectoryWalker fetcher treeDigest rootDirectoryDigest"

fun walker_GetChild :: "'d treeDirectoryWalker \<Rightarrow> 'd \<Rightarrow> 'd treeDirectoryWalker" where
  "walker_GetChild (treeRootDirectoryWalker fetcher treeDigest) childDigest =
     treeChildDirectoryWalker fetcher treeDigest childDigest"
| "walker_GetChild (treeChildDirectoryWalker fetcher treeDigest _) childDigest =
     treeChildDirectoryWalker fetcher treeDigest childDigest"

fun walker_GetContainingDigest :: "'d treeDirectoryWalker \<Rightarrow> 'd" where
  "walker_GetContainingDigest (treeRootDirectoryWalker fetcher treeDigest) = treeDigest"
| "walker_GetContainingDigest (treeChildDirectoryWalker fetcher treeDigest _) = treeDigest"

fun walker_GetDirectory :: "'d treeDirectoryWalker \<Rightarrow> re_Directory result" where
  "walker_GetDirectory (treeRootDirectoryWalker fetcher treeDigest) = GetTreeRootDirectory fetcher treeDigest"
| "walker_GetDirectory (treeChildDirectoryWalker fetcher treeDigest childDigest) =
     GetTreeChildDirectory fetcher treeDigest childDigest"

fun walker_GetDescription :: "('d \<Rightarrow> string) \<Rightarrow> 'd treeDirectoryWalker \<Rightarrow> string \<times> fmt_arg list" where
  "walker_GetDescription str (treeRootDirectoryWalker fetcher treeDigest) =
     (''Tree %#v root directory'', [FStr (str treeDigest)])"
| "walker_GetDescription str (treeChildDirectoryWalker fetcher treeDigest childDigest) =
     (''Tree %#v child directory %#v'', [FStr (str treeDigest), FStr (str childDigest)])"

section \<open>Resolvable directories\<close>

text \<open>
  What a factory promises of the directories it makes: the objects of directory \<open>k\<close> carry
  handles that start with \<open>prefix k\<close>, and resolving what starts with that prefix is left to the
  directory.
\<close>

locale resolvable_directories =
  fixes mk :: "'k \<Rightarrow> ('d, 'dir, 'leaf, 'sym) casDirectory"
    and hprefix :: "'k \<Rightarrow> bytes"
    and ok :: "'k \<Rightarrow> bool"
    and stateless :: "bytes \<Rightarrow> 'dir"
    and linkable :: "bytes \<Rightarrow> 'sym \<Rightarrow> 'leaf"
    and resolve :: "bytes \<Rightarrow> ('dir, 'leaf) lookup_result \<times> go_error list"
  assumes stateless_prefix: "AsStatelessDirectory (mk k) s = stateless (hprefix k @ s)"
    and linkable_prefix: "AsLinkableLeaf (mk k) s = linkable (hprefix k @ s)"
    and resolve_prefix: "ok k \<Longrightarrow> resolve (hprefix k @ r) = resolveHandle (mk k) r"
begin

lemma self_resolves:
  assumes "ok k"
  shows "\<exists>h. createSelf (mk k) = stateless h \<and> (\<forall>r. resolve (h @ r) = (Inr (FromDirectory (stateless h)), []))"
proof (intro exI conjI allI)
  show "createSelf (mk k) = stateless (hprefix k @ [0])" by (simp add: createSelf_def stateless_prefix)
  fix r
  show "resolve ((hprefix k @ [0]) @ r) = (Inr (FromDirectory (stateless (hprefix k @ [0]))), [])"
    using resolve_prefix [OF assms, of "0 # r"] resolveHandle_self [of "mk k" r] by (simp add: createSelf_def stateless_prefix)
qed

lemma symlink_resolves:
  assumes "ok k" "GetDirectoryContents (directoryContext (mk k)) = (Inr directory, log)"
    and "cas_size directory < 2 ^ 64 - 1" "i < length (re_Symlinks directory)"
    and "createSymlink (mk k) (word_of_nat i) (rsn_Target (re_Symlinks directory ! i)) = (Inr leaf, log')"
  shows "\<exists>h symlink. leaf = linkable h symlink \<and> (\<forall>r. resolve (h @ r) = (Inr (FromLeaf leaf), log))"
proof -
  let ?s = "PutUvarint (word_of_nat i + 1)"
  obtain symlink where s: "leaf = AsLinkableLeaf (mk k) ?s symlink" "log' = []"
    using assms(5) by (auto simp: createSymlink_def split: sum.splits)
  have "resolve ((hprefix k @ ?s) @ r) = (Inr (FromLeaf leaf), log)" for r
    using resolve_prefix [OF assms(1), of "?s @ r"] resolveHandle_symlink [OF assms(2-4), of r] assms(5) s
    by simp
  with s linkable_prefix show ?thesis by metis
qed

end

lemma NewCASDirectory_alloc [simp]:
  "AsStatelessDirectory (NewCASDirectory cdf ctx dg pre sz) s = cdf_AsStatelessDirectory cdf dg (pre @ s)"
  "AsLinkableLeaf (NewCASDirectory cdf ctx dg pre sz) s = cdf_AsLinkableLeaf cdf dg (pre @ s)"
  "directoryContext (NewCASDirectory cdf ctx dg pre sz) = ctx"
  by (simp_all add: NewCASDirectory_def)

lemma decomposed_LookupDirectory_self:
  "decomposed_LookupDirectory cdf dg = createSelf (decomposed_createDirectory cdf dg)"
  by (simp add: decomposed_LookupDirectory_def createSelf_def decomposed_createDirectory_def)

lemma tree_LookupDirectory_self:
  "tree_context_LookupDirectory cdf t c = createSelf (tree_createChildDirectory cdf t c)"
  by (simp add: tree_context_LookupDirectory_def createSelf_def tree_createChildDirectory_def)

text \<open>The directories of a tree: its root, and the children by their digest.\<close>

fun tree_directory ::
    "('d, 'dir, 'leaf, 'sym) casDirectoryFactory \<Rightarrow> 'd \<Rightarrow> 'd option \<Rightarrow> ('d, 'dir, 'leaf, 'sym) casDirectory" where
  "tree_directory cdf t None = tree_createRootDirectory cdf t"
| "tree_directory cdf t (Some c) = tree_createChildDirectory cdf t c"

fun tree_prefix :: "('d, 'dir, 'leaf, 'sym) casDirectoryFactory \<Rightarrow> 'd option \<Rightarrow> bytes" where
  "tree_prefix cdf None = [0]"
| "tree_prefix cdf (Some c) = 1 # GetCompactBinary (cdf_digest cdf) c"

text \<open>The child digest can be read back from its compact form.\<close>

fun compact_ok :: "('d, 'dir, 'leaf, 'sym) casDirectoryFactory \<Rightarrow> 'd \<Rightarrow> 'd option \<Rightarrow> bool" where
  "compact_ok cdf t None = True"
| "compact_ok cdf t (Some c) =
     (\<forall>s. InstanceNewDigestFromCompactBinary (cdf_digest cdf) t (GetCompactBinary (cdf_digest cdf) c @ s) = Inr (c, s))"

interpretation decomposed: resolvable_directories
  "\<lambda>_ :: unit. decomposed_createDirectory cdf dg" "\<lambda>_. []" "\<lambda>_. True"
  "cdf_AsStatelessDirectory cdf dg" "cdf_AsLinkableLeaf cdf dg" "decomposed_resolve cdf dg"
  for cdf dg
  by unfold_locales (simp_all add: decomposed_createDirectory_def decomposed_resolve_def)

interpretation tree: resolvable_directories
  "tree_directory cdf t" "tree_prefix cdf" "compact_ok cdf t"
  "cdf_AsStatelessDirectory cdf t" "cdf_AsLinkableLeaf cdf t" "tree_resolve cdf t"
  for cdf t
proof unfold_locales
  fix k s
  show "AsStatelessDirectory (tree_directory cdf t k) s = cdf_AsStatelessDirectory cdf t (tree_prefix cdf k @ s)"
    by (cases k) (simp_all add: tree_createRootDirectory_def tree_createChildDirectory_def)
  show "AsLinkableLeaf (tree_directory cdf t k) s = cdf_AsLinkableLeaf cdf t (tree_prefix cdf k @ s)"
    by (cases k) (simp_all add: tree_createRootDirectory_def tree_createChildDirectory_def)
next
  fix k r assume "compact_ok cdf t k"
  then show "tree_resolve cdf t (tree_prefix cdf k @ r) = resolveHandle (tree_directory cdf t k) r"
    by (cases k) (simp_all add: tree_resolve_def)
qed

section \<open>Walkers and fetch errors\<close>

lemma walker_path_child:
  "foldl walker_GetChild (treeChildDirectoryWalker f t c0) path = treeChildDirectoryWalker f t (last (c0 # path))"
  by (induction path arbitrary: c0) auto

lemma walker_path_root:
  "foldl walker_GetChild (treeRootDirectoryWalker f t) path =
   (if path = [] then treeRootDirectoryWalker f t else treeChildDirectoryWalker f t (last path))"
  by (cases path) (auto simp: walker_path_child)

text \<open>The walker after descending a path of child digests, and the virtual directory it reaches.\<close>

definition tree_walk :: "'d DirectoryFetcher \<Rightarrow> 'd \<Rightarrow> 'd list \<Rightarrow> 'd treeDirectoryWalker" where
  "tree_walk fetcher t path = foldl walker_GetChild (NewTreeDirectoryWalker fetcher t None) path"

definition tree_key :: "'d list \<Rightarrow> 'd option" where
  "tree_key path = (if path = [] then None else Some (last path))"

lemma fetch_error_everywhere:
  assumes "GetDirectoryContents (directoryContext d) = fetch_contents (Inl err) logError"
  shows "casDirectory_VirtualLookup d n = (Inl StatusErrIO, [logError err])"
    and "casDirectory_VirtualOpenChild ops d n sa ca eo = (NotOpened StatusErrIO, [logError err])"
    and "casDirectory_VirtualReadDir newComponent d cookie report p = (StatusErrIO, [logError err], p)"
  using assms by (simp_all add: fetch_contents_def casDirectory_VirtualLookup_def
      casDirectory_VirtualOpenChild_def casDirectory_VirtualReadDir_def)


section \<open>Properties\<close>

text \<open>A content addressable storage with one tree, whose digests are natural numbers.\<close>

definition demo_fetcher :: "nat DirectoryFetcher" where
  "demo_fetcher = \<lparr>
     GetDirectory = (\<lambda>d. if d = 1 then Inr demo_cas_contents else Inl (Foreign ''not found'')),
     GetTreeRootDirectory = (\<lambda>t. Inr demo_cas_contents),
     GetTreeChildDirectory = (\<lambda>t c. if c = 1 then Inr demo_cas_contents else Inl (Foreign ''not found''))\<rparr>"

definition demo_digest_ops :: "nat digest_ops" where
  "demo_digest_ops = \<lparr>
     FunctionNewDigestFromProto = (\<lambda>_ d. Inr (nat (pd_SizeBytes d))),
     InstanceNewDigestFromCompactBinary = (\<lambda>_ r. case r of [] \<Rightarrow> Inl EOF | b # r' \<Rightarrow> Inr (unat b, r')),
     GetCompactBinary = (\<lambda>n. [word_of_nat n]),
     digest_GetSizeBytes = int, digest_String = (\<lambda>_. ''d'')\<rparr>"

definition demo_cdf ::
    "(nat, nat \<times> bytes, nat \<times> bool + nat \<times> bytes \<times> string, string) casDirectoryFactory" where
  "demo_cdf = \<lparr>cdf_LookupFile = (\<lambda>d x. Inl (d, x)), cdf_directoryFetcher = demo_fetcher,
     cdf_digest = demo_digest_ops, cdf_AsStatelessDirectory = Pair,
     cdf_AsLinkableLeaf = (\<lambda>d h s. Inr (d, h, s)), cdf_LookupSymlink = Inr\<rparr>"

lemmas demo_cdf_defs = demo_cdf_def demo_fetcher_def demo_digest_ops_def demo_cas_contents_def
  NewCASDirectory_def fetch_contents_def

text \<open>
  C28. Handles made by the decomposed factory resolve. Every directory it hands out, whether or
  not its contents can be fetched, and every symbolic link found in one, carries a handle from
  which \<^verbatim>\<open>resolve\<close> makes the same object again, whatever bytes follow the handle.
\<close>

theorem decomposed_handles_resolve:
  "(\<exists>h. decomposed_LookupDirectory cdf dg = cdf_AsStatelessDirectory cdf dg h \<and>
      (\<forall>r. decomposed_resolve cdf dg (h @ r) = (Inr (FromDirectory (cdf_AsStatelessDirectory cdf dg h)), []))) \<and>
   (\<forall>directory log i leaf log'.
      decomposed_GetDirectoryContents cdf dg = (Inr directory, log) \<and> cas_size directory < 2 ^ 64 - 1 \<and>
      i < length (re_Symlinks directory) \<and>
      createSymlink (decomposed_createDirectory cdf dg) (word_of_nat i)
        (rsn_Target (re_Symlinks directory ! i)) = (Inr leaf, log') \<longrightarrow>
      (\<exists>h symlink. leaf = cdf_AsLinkableLeaf cdf dg h symlink \<and>
         (\<forall>r. decomposed_resolve cdf dg (h @ r) = (Inr (FromLeaf leaf), log))))"
  unfolding decomposed_LookupDirectory_self
proof (intro conjI allI impI; (elim conjE)?)
  show "\<exists>h. createSelf (decomposed_createDirectory cdf dg) = cdf_AsStatelessDirectory cdf dg h \<and>
      (\<forall>r. decomposed_resolve cdf dg (h @ r) = (Inr (FromDirectory (cdf_AsStatelessDirectory cdf dg h)), []))"
    using decomposed.self_resolves by simp
next
  fix directory log i leaf log'
  assume "decomposed_GetDirectoryContents cdf dg = (Inr directory, log)" "cas_size directory < 2 ^ 64 - 1"
    "i < length (re_Symlinks directory)" "createSymlink (decomposed_createDirectory cdf dg) (word_of_nat i)
        (rsn_Target (re_Symlinks directory ! i)) = (Inr leaf, log')"
  then show "\<exists>h symlink. leaf = cdf_AsLinkableLeaf cdf dg h symlink \<and>
      (\<forall>r. decomposed_resolve cdf dg (h @ r) = (Inr (FromLeaf leaf), log))"
    by (intro decomposed.symlink_resolves [where cdf = cdf and dg = dg]) (simp_all add: decomposed_createDirectory_def)
qed

theorem decomposed_handles_resolve_witness:
  "(\<exists>h. decomposed_LookupDirectory demo_cdf 9 = (9, h) \<and> (\<forall>r. decomposed_resolve demo_cdf 9 (h @ r) = (Inr (FromDirectory (9, h)), []))) \<and>
   (\<exists>h. h = [1] \<and> (\<forall>r. decomposed_resolve demo_cdf 1 (h @ r) = (Inr (FromLeaf (Inr (1, h, ''d/x''))), [])))"
proof -
  have "decomposed_GetDirectoryContents demo_cdf 1 = (Inr demo_cas_contents, [])"
    "createSymlink (decomposed_createDirectory demo_cdf 1) (word_of_nat 0)
       (rsn_Target (re_Symlinks demo_cas_contents ! 0)) = (Inr (Inr (1, [1], ''d/x'')), [])"
    "cas_size demo_cas_contents < 2 ^ 64 - 1" "0 < length (re_Symlinks demo_cas_contents)"
    by (simp_all add: decomposed_GetDirectoryContents_def decomposed_createDirectory_def createSymlink_def cas_size_def
        demo_cdf_defs PutUvarint.simps word_le_nat_alt)
  with decomposed_handles_resolve [of demo_cdf 1, THEN conjunct2, rule_format, of demo_cas_contents "[]" 0 "Inr (1, [1], ''d/x'')" "[]"]
  have link: "\<exists>h. h = [1] \<and> (\<forall>r. decomposed_resolve demo_cdf 1 (h @ r) = (Inr (FromLeaf (Inr (1, h, ''d/x''))), []))"
    by (auto simp: demo_cdf_def)
  from decomposed_handles_resolve [of demo_cdf 9, THEN conjunct1] link show ?thesis by (simp add: demo_cdf_def)
qed

text \<open>
  C27. Handles made by the tree factory resolve. For digests whose compact form reads back, the
  handle of a directory anywhere in a tree, whether or not its contents can be fetched, and of a
  symbolic link found in one, resolves to the same object: the marker byte and the child's digest
  select the directory, and the directory resolves the rest.
\<close>

theorem tree_handles_resolve:
  assumes "compact_ok cdf t k"
  shows "(\<exists>h. createSelf (tree_directory cdf t k) = cdf_AsStatelessDirectory cdf t h \<and>
      (\<forall>r. tree_resolve cdf t (h @ r) = (Inr (FromDirectory (cdf_AsStatelessDirectory cdf t h)), []))) \<and>
    (\<forall>directory log i leaf log'.
      GetDirectoryContents (directoryContext (tree_directory cdf t k)) = (Inr directory, log) \<and> cas_size directory < 2 ^ 64 - 1 \<and>
      i < length (re_Symlinks directory) \<and>
      createSymlink (tree_directory cdf t k) (word_of_nat i) (rsn_Target (re_Symlinks directory ! i)) = (Inr leaf, log') \<longrightarrow>
      (\<exists>h symlink. leaf = cdf_AsLinkableLeaf cdf t h symlink \<and> (\<forall>r. tree_resolve cdf t (h @ r) = (Inr (FromLeaf leaf), log))))"
proof (intro conjI allI impI; (elim conjE)?)
  show "\<exists>h. createSelf (tree_directory cdf t k) = cdf_AsStatelessDirectory cdf t h \<and>
      (\<forall>r. tree_resolve cdf t (h @ r) = (Inr (FromDirectory (cdf_AsStatelessDirectory cdf t h)), []))"
    by (rule tree.self_resolves [OF assms])
qed (rule tree.symlink_resolves [OF assms])

theorem tree_handles_resolve_witness:
  "(\<exists>h. createSelf (tree_directory demo_cdf 5 (Some 9)) = (5, h) \<and>
     (\<forall>r. tree_resolve demo_cdf 5 (h @ r) = (Inr (FromDirectory (5, h)), []))) \<and>
   (\<exists>h. h = [1, 1, 1] \<and> (\<forall>r. tree_resolve demo_cdf 5 (h @ r) = (Inr (FromLeaf (Inr (5, h, ''d/x''))), [])))"
proof -
  have ok: "compact_ok demo_cdf 5 (Some 9)" "compact_ok demo_cdf 5 (Some 1)"
    by (simp_all add: demo_cdf_defs)
  have "GetDirectoryContents (directoryContext (tree_directory demo_cdf 5 (Some 1))) = (Inr demo_cas_contents, [])"
    "createSymlink (tree_directory demo_cdf 5 (Some 1)) (word_of_nat 0)
       (rsn_Target (re_Symlinks demo_cas_contents ! 0)) = (Inr (Inr (5, [1, 1, 1], ''d/x'')), [])"
    "cas_size demo_cas_contents < 2 ^ 64 - 1" "0 < length (re_Symlinks demo_cas_contents)"
    by (simp_all add: treeChild_GetDirectoryContents_def tree_createChildDirectory_def createSymlink_def cas_size_def
        demo_cdf_defs PutUvarint.simps word_le_nat_alt)
  with tree_handles_resolve [OF ok(2), THEN conjunct2, rule_format, of demo_cas_contents "[]" 0 "Inr (5, [1, 1, 1], ''d/x'')" "[]"]
  have link: "\<exists>h. h = [1, 1, 1] \<and> (\<forall>r. tree_resolve demo_cdf 5 (h @ r) = (Inr (FromLeaf (Inr (5, h, ''d/x''))), []))"
    by (auto simp: demo_cdf_def)
  from tree_handles_resolve [OF ok(1), THEN conjunct1] link show ?thesis by (simp add: demo_cdf_def)
qed

text \<open>
  The walker and the virtual directories of a tree show the same contents. Descending from
  the root through any sequence of child digests, the walker stays in the same tree, and
  its message is the contents of the virtual directory of the last child; a subdirectory
  found in a virtual directory of the tree is the tree's directory of that digest.
\<close>

theorem tree_walker_agrees:
  "walker_GetContainingDigest (tree_walk (cdf_directoryFetcher cdf) t path) = t \<and>
   fst (GetDirectoryContents (directoryContext (tree_directory cdf t (tree_key path)))) =
     (case walker_GetDirectory (tree_walk (cdf_directoryFetcher cdf) t path) of
        Inl err \<Rightarrow> Inl StatusErrIO | Inr directory \<Rightarrow> Inr directory) \<and>
   LookupDirectory (directoryContext (tree_directory cdf t (tree_key path))) c =
     createSelf (tree_directory cdf t (tree_key (path @ [c])))"
  by (auto simp: tree_walk_def tree_key_def walker_path_root tree_createRootDirectory_def
      tree_createChildDirectory_def treeRoot_GetDirectoryContents_def treeChild_GetDirectoryContents_def
      fetch_contents_def tree_context_LookupDirectory_def createSelf_def split: sum.splits)

text \<open>
  A directory that cannot be fetched. When the fetcher fails, looking up, opening and
  listing give an I/O error, report no entry, and log exactly one error, which names the
  directory's digest.
\<close>

theorem decomposed_fetch_error:
  assumes "GetDirectory (cdf_directoryFetcher cdf) dg = Inl err"
  shows "casDirectory_VirtualLookup (decomposed_createDirectory cdf dg) n =
      (Inl StatusErrIO, [decomposed_LogError cdf dg err]) \<and>
    casDirectory_VirtualOpenChild ops (decomposed_createDirectory cdf dg) n sa ca eo =
      (NotOpened StatusErrIO, [decomposed_LogError cdf dg err]) \<and>
    casDirectory_VirtualReadDir newComponent (decomposed_createDirectory cdf dg) cookie report p =
      (StatusErrIO, [decomposed_LogError cdf dg err], p)"
proof -
  have "GetDirectoryContents (directoryContext (decomposed_createDirectory cdf dg)) =
      fetch_contents (Inl err) (decomposed_LogError cdf dg)"
    using assms by (simp add: decomposed_createDirectory_def decomposed_GetDirectoryContents_def)
  note errors = fetch_error_everywhere [OF this]
  show ?thesis by (intro conjI errors)
qed

theorem decomposed_fetch_error_witness:
  "casDirectory_VirtualLookup (decomposed_createDirectory demo_cdf 9) ''x'' =
     (Inl StatusErrIO, [StatusWrap (Some (Foreign ''not found'')) ''Directory %#v'' [FStr ''d'']])"
proof -
  have "GetDirectory (cdf_directoryFetcher demo_cdf) 9 = Inl (Foreign ''not found'')"
    by (simp add: demo_cdf_def demo_fetcher_def)
  then have lookup: "casDirectory_VirtualLookup (decomposed_createDirectory demo_cdf 9) ''x'' =
      (Inl StatusErrIO, [decomposed_LogError demo_cdf 9 (Foreign ''not found'')])"
    by (rule decomposed_fetch_error [THEN conjunct1])
  show ?thesis unfolding lookup by (simp add: decomposed_LogError_def demo_cdf_def demo_digest_ops_def)
qed

end
