(* ===== verification/Parsing_Directories.thy ===== *)
theory Parsing_Directories
  imports Virtual_FS
begin

text \<open>
  The directories that parse path names into digests and instance names:
  \<^verbatim>\<open>digest_parsing_directory.go\<close> and \<^verbatim>\<open>instance_name_parsing_directory.go\<close>, with the
  two functions of the Go standard library they call, \<^verbatim>\<open>strings.LastIndex\<close> and
  \<^verbatim>\<open>strconv.ParseInt\<close>. Digest functions, instance names, lookup callbacks and the handle
  allocator are parameters.
\<close>

section \<open>strings.LastIndex and strconv.ParseInt\<close>

text \<open>\<^verbatim>\<open>LastIndex\<close> of a single character, which scans from the end; \<open>None\<close> is $-1$.\<close>

fun LastIndex_loop :: "string \<Rightarrow> char \<Rightarrow> nat \<Rightarrow> nat option" where
  "LastIndex_loop s c 0 = None"
| "LastIndex_loop s c (Suc i) = (if s ! i = c then Some i else LastIndex_loop s c i)"

definition LastIndex :: "string \<Rightarrow> char \<Rightarrow> nat option" where
  "LastIndex s c = LastIndex_loop s c (length s)"

definition ErrSyntax :: go_error where "ErrSyntax = Foreign ''invalid syntax''"
definition ErrRange :: go_error where "ErrRange = Foreign ''value out of range''"

definition is_digit :: "char \<Rightarrow> bool" where
  "is_digit c \<longleftrightarrow> 48 \<le> (of_char c :: nat) \<and> (of_char c :: nat) \<le> 57"

definition digit_value :: "char \<Rightarrow> nat" where
  "digit_value c = of_char c - 48"

text \<open>The loop of \<^verbatim>\<open>ParseUint(s, 10, 64)\<close>: it stops at the first character that is no digit or overflows.\<close>

fun ParseUint_loop :: "nat \<Rightarrow> string \<Rightarrow> nat result" where
  "ParseUint_loop n [] = Inr n"
| "ParseUint_loop n (c # s) =
     (if \<not> is_digit c then Inl ErrSyntax
      else let n1 = n * 10 + digit_value c
           in if n1 > 2 ^ 64 - 1 then Inl ErrRange else ParseUint_loop n1 s)"

definition ParseUint :: "string \<Rightarrow> nat result" where
  "ParseUint s = (if s = [] then Inl ErrSyntax else ParseUint_loop 0 s)"

definition ParseInt :: "string \<Rightarrow> int result" where
  "ParseInt s =
     (if s = [] then Inl ErrSyntax
      else let neg = (hd s = CHR ''-'');
               s' = (if hd s = CHR ''+'' \<or> hd s = CHR ''-'' then tl s else s)
           in case ParseUint s' of
                Inl err \<Rightarrow> Inl err
              | Inr un \<Rightarrow>
                  if \<not> neg \<and> un \<ge> 2 ^ 63 then Inl ErrRange
                  else if neg \<and> un > 2 ^ 63 then Inl ErrRange
                  else Inr (if neg then - int un else int un))"

section \<open>digest\_parsing\_directory.go\<close>

record ('d, 'dir, 'leaf) digestParsingDirectory =
  NewDigest :: "string \<Rightarrow> int \<Rightarrow> 'd result"
  dpd_lookupFunc :: "'d \<Rightarrow> ('dir, 'leaf) lookup_result"

definition parsing_VirtualGetAttributes :: "attr_call list" where
  "parsing_VirtualGetAttributes =
     [SetChangeID 0, SetFileType FileTypeDirectory, SetHasNamedAttributes False,
      SetIsInNamedAttributeDirectory False, SetLinkCount ImplicitDirectoryLinkCount,
      SetPermissions [PermissionsExecute], SetSizeBytes 0]"

definition parseFilename :: "('d, 'dir, 'leaf) digestParsingDirectory \<Rightarrow> string \<Rightarrow> 'd option" where
  "parseFilename d n =
     (case LastIndex n CHR ''-'' of
        None \<Rightarrow> None
      | Some i \<Rightarrow>
          (case ParseInt (drop (i + 1) n) of
             Inl err \<Rightarrow> None
           | Inr sizeBytes \<Rightarrow>
               (case NewDigest d (take i n) sizeBytes of
                  Inl err \<Rightarrow> None
                | Inr fileDigest \<Rightarrow> Some fileDigest)))"

definition digestParsing_VirtualLookup ::
    "('d, 'dir, 'leaf) digestParsingDirectory \<Rightarrow> string \<Rightarrow> ('dir, 'leaf) lookup_result" where
  "digestParsing_VirtualLookup d name =
     (case parseFilename d name of
        None \<Rightarrow> Inl StatusErrNoEnt
      | Some digest \<Rightarrow> dpd_lookupFunc d digest)"

definition digestParsing_VirtualOpenChild ::
    "('leaf, 'share, 'opts, 'attrs, 'mask) open_ops \<Rightarrow> ('d, 'dir, 'leaf) digestParsingDirectory \<Rightarrow> string \<Rightarrow>
     'share \<Rightarrow> 'attrs option \<Rightarrow> 'opts option \<Rightarrow> ('leaf, 'mask) open_result" where
  "digestParsing_VirtualOpenChild ops d name shareAccess createAttributes existingOptions =
     (case parseFilename d name of
        None \<Rightarrow> NotOpened (OpenChildDoesntExist ops createAttributes)
      | Some digest \<Rightarrow>
          (case existingOptions of
             None \<Rightarrow> NotOpened StatusErrExist
           | Some options \<Rightarrow>
               (case dpd_lookupFunc d digest of
                  Inl s \<Rightarrow> NotOpened s
                | Inr (FromDirectory directory) \<Rightarrow> NotOpened StatusErrIsDir
                | Inr (FromLeaf leaf) \<Rightarrow>
                    OpenedLeaf leaf (ToAttributesMask ops options)
                      (VirtualOpenSelf ops leaf shareAccess options))))"

section \<open>instance\_name\_parsing\_directory.go\<close>

type_synonym instanceNameParsingPath = "string list"

text \<open>The bytes \<^verbatim>\<open>WriteTo\<close> emits. Its writer is a hash, whose writes do not fail.\<close>

fun WriteTo :: "instanceNameParsingPath \<Rightarrow> string" where
  "WriteTo [] = ''/''"
| "WriteTo (component # p) = component @ ''/'' @ WriteTo p"

record ('inst, 'dir) instanceNameParsingDirectoryOptions =
  NewInstanceNameFromComponents :: "string list \<Rightarrow> 'inst result"
  lookupFuncs :: "string \<rightharpoonup> ('inst \<Rightarrow> 'dir)"

text \<open>
  The directories a lookup can give: one that continues parsing, which is known by the
  identifier its handle was allocated with and the path it holds, or one that a callback
  made.
\<close>

datatype 'dir name_directory = ParsingDirectory string instanceNameParsingPath | TargetDirectory 'dir

definition inp_createDirectory :: "instanceNameParsingPath \<Rightarrow> 'dir name_directory" where
  "inp_createDirectory p = ParsingDirectory (WriteTo p) p"

definition NewInstanceNameParsingDirectory :: "'dir name_directory" where
  "NewInstanceNameParsingDirectory = inp_createDirectory []"

definition instanceNameParsing_VirtualLookup ::
    "('inst, 'dir) instanceNameParsingDirectoryOptions \<Rightarrow> instanceNameParsingPath \<Rightarrow> string \<Rightarrow>
     vstatus + 'dir name_directory" where
  "instanceNameParsing_VirtualLookup options p name =
     (case lookupFuncs options name of
        Some lookupFunc \<Rightarrow>
          (case NewInstanceNameFromComponents options p of
             Inl err \<Rightarrow> Inl StatusErrNoEnt
           | Inr instanceName \<Rightarrow> Inr (TargetDirectory (lookupFunc instanceName)))
      | None \<Rightarrow> Inr (inp_createDirectory (p @ [name])))"

definition instanceNameParsing_VirtualOpenChild ::
    "('leaf, 'share, 'opts, 'attrs, 'mask) open_ops \<Rightarrow> 'opts option \<Rightarrow> ('leaf, 'mask) open_result" where
  "instanceNameParsing_VirtualOpenChild ops existingOptions =
     NotOpened (OpenChildWrongFileType ops existingOptions StatusErrIsDir)"

definition instanceNameParsing_VirtualGetAttributes :: "attr_call list" where
  "instanceNameParsing_VirtualGetAttributes =
     [SetChangeID 0, SetFileType FileTypeDirectory, SetHasNamedAttributes False,
      SetIsInNamedAttributeDirectory False, SetLinkCount ImplicitDirectoryLinkCount,
      SetPermissions [PermissionsExecute], SetSizeBytes 0]"

text \<open>None of the directories understands requests of \<^verbatim>\<open>VirtualApply\<close>.\<close>

definition digestParsing_VirtualApply :: "'data \<Rightarrow> bool" where
  "digestParsing_VirtualApply data = False"

definition instanceNameParsing_VirtualApply :: "'data \<Rightarrow> bool" where
  "instanceNameParsing_VirtualApply data = False"

section \<open>Decimal numbers\<close>

fun decimal :: "nat \<Rightarrow> string" where
  "decimal n = (if n < 10 then [char_of (48 + n)] else decimal (n div 10) @ [char_of (48 + n mod 10)])"

declare decimal.simps [simp del]

definition decimal_value :: "string \<Rightarrow> nat" where
  "decimal_value s = foldl (\<lambda>n c. n * 10 + digit_value c) 0 s"

lemma of_char_digit: "k < 10 \<Longrightarrow> of_char (char_of (48 + k) :: char) = (48 + k :: nat)"
  by simp

lemma is_digit_char: "(k :: nat) < 10 \<Longrightarrow> is_digit (char_of (48 + k))"
  using of_char_digit [of k] by (simp add: is_digit_def)

lemma digit_value_char: "(k :: nat) < 10 \<Longrightarrow> digit_value (char_of (48 + k)) = k"
  using of_char_digit [of k] by (simp add: digit_value_def)

lemma decimal_digits: "c \<in> set (decimal n) \<Longrightarrow> is_digit c"
proof (induction n rule: decimal.induct)
  case (1 n)
  then show ?case
    using is_digit_char [of n] is_digit_char [of "n mod 10"] by (auto simp: decimal.simps [of n] split: if_splits)
qed

lemma decimal_nonempty [simp]: "decimal n \<noteq> []"
  by (simp add: decimal.simps [of n])

lemma decimal_value_decimal [simp]: "decimal_value (decimal n) = n"
proof (induction n rule: decimal.induct)
  case (1 n)
  show ?case
  proof (cases "n < 10")
    case True
    then show ?thesis using digit_value_char [of n] by (simp add: decimal.simps [of n] decimal_value_def)
  next
    case False
    with 1 show ?thesis
      using digit_value_char [of "n mod 10"] by (simp add: decimal.simps [of n] decimal_value_def)
  qed
qed

lemma foldl_digits_ge: "n \<le> foldl (\<lambda>n c. n * 10 + digit_value c) n s"
proof (induction s arbitrary: n)
  case (Cons c s)
  have "n \<le> n * 10 + digit_value c" by simp
  also note Cons.IH
  finally show ?case by simp
qed simp

lemma ParseUint_loop_iff:
  assumes "n < 2 ^ 64"
  shows "ParseUint_loop n s = Inr m \<longleftrightarrow>
    (\<forall>c \<in> set s. is_digit c) \<and> m = foldl (\<lambda>n c. n * 10 + digit_value c) n s \<and> m < 2 ^ 64"
  using assms
proof (induction s arbitrary: n)
  case Nil
  then show ?case by auto
next
  case (Cons c s)
  let ?n = "n * 10 + digit_value c"
  show ?case
  proof (cases "is_digit c \<and> ?n < 2 ^ 64")
    case True
    with Cons.IH [of ?n] show ?thesis by (auto simp: Let_def)
  next
    case False
    then show ?thesis using foldl_digits_ge [of ?n s] by (auto simp: Let_def)
  qed
qed

lemma ParseUint_iff:
  "ParseUint s = Inr m \<longleftrightarrow> s \<noteq> [] \<and> (\<forall>c \<in> set s. is_digit c) \<and> m = decimal_value s \<and> m < 2 ^ 64"
  using ParseUint_loop_iff [of 0 s m] by (auto simp: ParseUint_def decimal_value_def)

lemma digit_not_sign: "is_digit c \<Longrightarrow> c \<noteq> CHR ''-'' \<and> c \<noteq> CHR ''+''"
  by (auto simp: is_digit_def)

lemma ParseInt_unsigned:
  assumes "CHR ''-'' \<notin> set s"
  shows "ParseInt s = Inr v \<longleftrightarrow>
    (\<exists>ds. (s = ds \<or> s = CHR ''+'' # ds) \<and> ds \<noteq> [] \<and> (\<forall>c \<in> set ds. is_digit c) \<and>
       v = int (decimal_value ds) \<and> decimal_value ds < 2 ^ 63)"
proof (cases s)
  case Nil
  then show ?thesis by (simp add: ParseInt_def)
next
  case (Cons c s')
  let ?ds = "if c = CHR ''+'' then s' else s"
  have neg: "c \<noteq> CHR ''-''" using assms Cons by auto
  have 1: "ParseInt s = Inr v \<longleftrightarrow> ?ds \<noteq> [] \<and> (\<forall>c \<in> set ?ds. is_digit c) \<and>
      v = int (decimal_value ?ds) \<and> decimal_value ?ds < 2 ^ 63"
  proof (cases "ParseUint ?ds")
    case (Inl err)
    then have "ParseInt s = Inl err" using Cons neg by (cases "c = CHR ''+''") (simp_all add: ParseInt_def)
    moreover have "\<not> (?ds \<noteq> [] \<and> (\<forall>c \<in> set ?ds. is_digit c) \<and> decimal_value ?ds < 2 ^ 64)"
      using Inl ParseUint_iff [of ?ds "decimal_value ?ds"] by simp
    ultimately show ?thesis by auto
  next
    case (Inr un)
    then have "ParseInt s = (if un \<ge> 2 ^ 63 then Inl ErrRange else Inr (int un))"
      using Cons neg by (cases "c = CHR ''+''") (simp_all add: ParseInt_def)
    moreover have "?ds \<noteq> [] \<and> (\<forall>c \<in> set ?ds. is_digit c) \<and> un = decimal_value ?ds"
      using Inr ParseUint_iff [of ?ds un] by simp
    ultimately show ?thesis by auto
  qed
  have 2: "(\<exists>ds. (s = ds \<or> s = CHR ''+'' # ds) \<and> ds \<noteq> [] \<and> (\<forall>c \<in> set ds. is_digit c) \<and> P ds) \<longleftrightarrow>
      ?ds \<noteq> [] \<and> (\<forall>c \<in> set ?ds. is_digit c) \<and> P ?ds" for P
  proof (cases "c = CHR ''+''")
    case True
    moreover have "\<not> is_digit CHR ''+''" using digit_not_sign by blast
    ultimately show ?thesis using Cons by auto
  qed (use Cons in auto)
  show ?thesis unfolding 1 using 2 [of "\<lambda>ds. v = int (decimal_value ds) \<and> decimal_value ds < 2 ^ 63"] by auto
qed

lemma LastIndex_loop_iff:
  "LastIndex_loop s c n = Some i \<longleftrightarrow> i < n \<and> s ! i = c \<and> (\<forall>j. i < j \<longrightarrow> j < n \<longrightarrow> s ! j \<noteq> c)"
proof (induction n)
  case (Suc n)
  then show ?case
    by (cases "s ! n = c") (auto simp: less_Suc_eq)
qed simp

lemma LastIndex_split:
  "LastIndex s c = Some i \<longleftrightarrow> (\<exists>xs ys. s = xs @ c # ys \<and> length xs = i \<and> c \<notin> set ys)"
proof
  assume l: "LastIndex s c = Some i"
  then have i: "i < length s" "s ! i = c" "\<forall>j. i < j \<longrightarrow> j < length s \<longrightarrow> s ! j \<noteq> c"
    by (auto simp: LastIndex_def LastIndex_loop_iff)
  then have "s = take i s @ c # drop (Suc i) s" by (metis id_take_nth_drop)
  moreover have "c \<notin> set (drop (Suc i) s)" using i by (auto simp: in_set_conv_nth)
  ultimately show "\<exists>xs ys. s = xs @ c # ys \<and> length xs = i \<and> c \<notin> set ys"
    using i by (metis length_take min.absorb4)
next
  assume "\<exists>xs ys. s = xs @ c # ys \<and> length xs = i \<and> c \<notin> set ys"
  then show "LastIndex s c = Some i"
    by (auto simp: LastIndex_def LastIndex_loop_iff nth_append nth_Cons' )
qed

section \<open>File names of digests\<close>

text \<open>
  The size part of a file name: decimal digits, with an optional plus sign, of a value that
  fits in a non-negative \<^verbatim>\<open>int64\<close>.
\<close>

definition size_part :: "string \<Rightarrow> nat \<Rightarrow> bool" where
  "size_part s sz \<longleftrightarrow> (\<exists>ds. (s = ds \<or> s = CHR ''+'' # ds) \<and> ds \<noteq> [] \<and> (\<forall>c \<in> set ds. is_digit c) \<and>
     sz = decimal_value ds \<and> sz < 2 ^ 63)"

lemma size_part_no_dash: "size_part s n \<Longrightarrow> CHR ''-'' \<notin> set s"
  using digit_not_sign [of "CHR ''-''"] by (auto simp: size_part_def)

lemma size_part_decimal: "n < 2 ^ 63 \<Longrightarrow> size_part (decimal n) n"
  unfolding size_part_def using decimal_digits [of _ n] by (intro exI [of _ "decimal n"]) auto

lemma ParseInt_size_part:
  "CHR ''-'' \<notin> set s \<Longrightarrow> ParseInt s = Inr v \<longleftrightarrow> (\<exists>n. size_part s n \<and> v = int n)"
  using ParseInt_unsigned [of s v] by (auto simp: size_part_def)

lemma parseFilename_iff:
  "parseFilename d n = Some dg \<longleftrightarrow>
   (\<exists>hash s sz. n = hash @ CHR ''-'' # s \<and> size_part s sz \<and> NewDigest d hash (int sz) = Inr dg)"
proof
  assume p: "parseFilename d n = Some dg"
  then obtain i v where i: "LastIndex n CHR ''-'' = Some i" "ParseInt (drop (i + 1) n) = Inr v"
    "NewDigest d (take i n) v = Inr dg"
    by (auto simp: parseFilename_def split: option.splits sum.splits)
  then obtain xs ys where n: "n = xs @ CHR ''-'' # ys" "length xs = i" "CHR ''-'' \<notin> set ys"
    unfolding LastIndex_split by blast
  with i obtain m where "size_part ys m" "v = int m" using ParseInt_size_part [of ys v] by auto
  with n i show "\<exists>hash s sz. n = hash @ CHR ''-'' # s \<and> size_part s sz \<and> NewDigest d hash (int sz) = Inr dg"
    by auto
next
  assume "\<exists>hash s sz. n = hash @ CHR ''-'' # s \<and> size_part s sz \<and> NewDigest d hash (int sz) = Inr dg"
  then obtain hash s m where n: "n = hash @ CHR ''-'' # s" "size_part s m" "NewDigest d hash (int m) = Inr dg" by blast
  then have "LastIndex n CHR ''-'' = Some (length hash)"
    unfolding LastIndex_split using size_part_no_dash by blast
  moreover have "ParseInt s = Inr (int m)" using n ParseInt_size_part [of s "int m"] size_part_no_dash by auto
  ultimately show "parseFilename d n = Some dg" using n by (simp add: parseFilename_def)
qed

section \<open>Identifiers and walks of instance names\<close>

definition valid_component :: "string \<Rightarrow> bool" where
  "valid_component c \<longleftrightarrow> c \<noteq> [] \<and> CHR ''/'' \<notin> set c"

lemma append_sep_inj:
  "xs @ c # r = ys @ c # s \<Longrightarrow> c \<notin> set xs \<Longrightarrow> c \<notin> set ys \<Longrightarrow> xs = ys \<and> r = s"
proof (induction xs arbitrary: ys)
  case Nil
  then show ?case by (cases ys) auto
next
  case (Cons x xs)
  then show ?case by (cases ys) auto
qed

lemma WriteTo_prefix_free:
  assumes "\<forall>c \<in> set p. valid_component c" "\<forall>c \<in> set q. valid_component c"
    and "WriteTo p @ r = WriteTo q @ s"
  shows "p = q \<and> r = s"
  using assms
proof (induction p arbitrary: q)
  case Nil
  show ?case
  proof (cases q)
    case (Cons c q')
    with Nil.prems have "valid_component c" "CHR ''/'' # r = c @ CHR ''/'' # WriteTo q' @ s" by auto
    then show ?thesis by (cases c) (auto simp: valid_component_def)
  qed (use Nil in simp)
next
  case (Cons a p)
  show ?case
  proof (cases q)
    case Nil
    with Cons.prems have "valid_component a" "a @ CHR ''/'' # WriteTo p @ r = CHR ''/'' # s" by auto
    then show ?thesis by (cases a) (auto simp: valid_component_def)
  next
    case q: (Cons c q')
    with Cons.prems have "a @ CHR ''/'' # (WriteTo p @ r) = c @ CHR ''/'' # (WriteTo q' @ s)" by simp
    then have "a = c" "WriteTo p @ r = WriteTo q' @ s"
      using append_sep_inj [of a "CHR ''/''" "WriteTo p @ r" c "WriteTo q' @ s"] Cons.prems q
      by (auto simp: valid_component_def)
    with Cons.IH [of q'] Cons.prems q show ?thesis by auto
  qed
qed

text \<open>Walking names down from a directory, as path resolution does.\<close>

fun walk_names :: "('inst, 'dir) instanceNameParsingDirectoryOptions \<Rightarrow> 'dir name_directory \<Rightarrow> string list \<Rightarrow>
    (vstatus + 'dir name_directory) option" where
  "walk_names options d [] = Some (Inr d)"
| "walk_names options (ParsingDirectory h p) (n # ns) =
     (case instanceNameParsing_VirtualLookup options p n of
        Inl s \<Rightarrow> Some (Inl s)
      | Inr d \<Rightarrow> walk_names options d ns)"
| "walk_names options (TargetDirectory t) (n # ns) = None"

lemma walk_names_components:
  assumes "\<forall>n \<in> set ns. lookupFuncs options n = None"
  shows "walk_names options (inp_createDirectory p) (ns @ rest) =
    walk_names options (inp_createDirectory (p @ ns)) rest"
  using assms
proof (induction ns arbitrary: p)
  case (Cons n ns)
  then show ?case
    using Cons.IH [of "p @ [n]"] by (simp add: inp_createDirectory_def instanceNameParsing_VirtualLookup_def)
qed simp

section \<open>Properties\<close>

text \<open>
  C29. Names of digests. A file name is accepted exactly when it is a hash, a dash and a size in
  decimal digits (leading zeros and one plus sign are accepted), the size fits in a
  non-negative \<^verbatim>\<open>int64\<close> and the digest function accepts hash and size. The dash that
  separates them is the last one, so a negative size never reaches the digest function.
\<close>

theorem digest_filenames:
  "parseFilename d n = Some dg \<longleftrightarrow>
   (\<exists>hash s sz. n = hash @ CHR ''-'' # s \<and> size_part s sz \<and> NewDigest d hash (int sz) = Inr dg)"
  by (rule parseFilename_iff)

text \<open>
  C30. Round trip of digests. The canonical file name of a digest, its hash, a dash and its size
  in decimal, is parsed back into that digest, so that looking it up and opening it reach
  the callback with it.
\<close>

theorem digest_name_roundtrip:
  assumes "NewDigest d hash (int sz) = Inr dg" "sz < 2 ^ 63"
  shows "digestParsing_VirtualLookup d (hash @ ''-'' @ decimal sz) = dpd_lookupFunc d dg \<and>
    digestParsing_VirtualOpenChild ops d (hash @ ''-'' @ decimal sz) sa ca (Some opts) =
      (case dpd_lookupFunc d dg of
         Inl s \<Rightarrow> NotOpened s
       | Inr (FromDirectory _) \<Rightarrow> NotOpened StatusErrIsDir
       | Inr (FromLeaf leaf) \<Rightarrow> OpenedLeaf leaf (ToAttributesMask ops opts) (VirtualOpenSelf ops leaf sa opts))"
proof -
  have "parseFilename d (hash @ ''-'' @ decimal sz) = Some dg"
    unfolding parseFilename_iff using assms size_part_decimal by fastforce
  then show ?thesis by (simp add: digestParsing_VirtualLookup_def digestParsing_VirtualOpenChild_def)
qed

definition demo_dpd :: "(string \<times> int, unit, string \<times> int) digestParsingDirectory" where
  "demo_dpd = \<lparr>NewDigest = (\<lambda>h n. if h = ''ab'' \<and> n \<ge> 0 then Inr (h, n) else Inl (Foreign ''bad'')),
     dpd_lookupFunc = (\<lambda>dg. Inr (FromLeaf dg))\<rparr>"

theorem digest_name_roundtrip_witness:
  "digestParsing_VirtualLookup demo_dpd ''ab-123'' = Inr (FromLeaf (''ab'', 123))"
proof -
  have "decimal 123 = ''123''" by code_simp
  moreover have "NewDigest demo_dpd ''ab'' (int 123) = Inr (''ab'', 123)" by (simp add: demo_dpd_def)
  note digest_name_roundtrip [OF this, THEN conjunct1]
  ultimately show ?thesis by (simp add: demo_dpd_def)
qed

text \<open>
  C31. Identifiers of parsing directories do not collide. For paths of non-empty components
  without slashes, the bytes \<^verbatim>\<open>WriteTo\<close> emits determine the path, and none is a
  prefix of another, as the handle allocator requires.
\<close>

theorem instance_name_identifiers_prefix_free:
  assumes "\<forall>c \<in> set p. valid_component c" "\<forall>c \<in> set q. valid_component c"
    and "WriteTo p @ r = WriteTo q @ s"
  shows "p = q \<and> r = s"
  using assms by (rule WriteTo_prefix_free)

theorem instance_name_identifiers_prefix_free_witness:
  "WriteTo [''a'', ''b''] = ''a/b//'' \<and> WriteTo [''a'', ''b''] \<noteq> WriteTo [''a''] @ ''b//''"
proof -
  have "WriteTo [''a'', ''b''] @ [] = WriteTo [''a''] @ ''b//'' \<Longrightarrow> [''a'', ''b''] = [''a''] \<and> [] = ''b//''"
    by (rule instance_name_identifiers_prefix_free) (auto simp: valid_component_def)
  then show ?thesis by auto
qed

text \<open>
  Parsing of instance names. Starting at the root, walking down any number of names that
  are no reserved keywords and then a keyword reaches the keyword's callback with the
  instance name of exactly these names, or fails when they form no instance name.
\<close>

theorem instance_name_walk:
  assumes "\<forall>n \<in> set ns. lookupFuncs options n = None" "lookupFuncs options keyword = Some lookupFunc"
  shows "walk_names options NewInstanceNameParsingDirectory (ns @ [keyword]) =
    Some (case NewInstanceNameFromComponents options ns of
            Inl err \<Rightarrow> Inl StatusErrNoEnt
          | Inr instanceName \<Rightarrow> Inr (TargetDirectory (lookupFunc instanceName)))"
  unfolding NewInstanceNameParsingDirectory_def walk_names_components [OF assms(1)]
  using assms(2)
  by (simp add: inp_createDirectory_def instanceNameParsing_VirtualLookup_def split: sum.splits)

theorem instance_name_walk_witness:
  "walk_names \<lparr>NewInstanceNameFromComponents = Inr, lookupFuncs = [''blobs'' \<mapsto> concat]\<rparr>
     NewInstanceNameParsingDirectory [''a'', ''b'', ''blobs''] = Some (Inr (TargetDirectory ''ab''))"
  using instance_name_walk [of "[''a'', ''b'']" "\<lparr>NewInstanceNameFromComponents = Inr,
      lookupFuncs = [''blobs'' \<mapsto> concat]\<rparr>" "''blobs''" concat]
  by simp

end
