(* ===== verification/Command_File.thy ===== *)
theory Command_File
  imports Virtual_FS
begin

unbundle bit_operations_syntax

text \<open>
  Files that show REv2 Command messages as shell scripts:
  \<^verbatim>\<open>blob_access_command_file_factory.go\<close> and
  \<^verbatim>\<open>handle_allocating_command_file_factory.go\<close>.

  Loading a Command from the Content Addressable Storage is the argument \<open>get\<close> of the
  operations that do it, so that two calls may see different outcomes. Converting a command
  to a script is the function \<open>ConvertCommandToShellScript\<close>, which gives the strings it passes
  to its writer, and the error it stops with; both writers of the repository accept every
  string, so the strings do not depend on the writer.
\<close>

section \<open>The writers\<close>

definition sizeCountingWriter_WriteString :: "bytes \<Rightarrow> uint64 \<Rightarrow> uint64" where
  "sizeCountingWriter_WriteString s w_size = w_size + word_of_nat (length s)"

text \<open>
  \<open>rew_filled\<close> is the part of the caller's buffer that has been filled, and \<open>rew_buf\<close> the
  part that remains, which is the writer's field \<^verbatim>\<open>buf\<close>.
\<close>

record regionExtractingWriter =
  rew_filled :: bytes
  rew_buf :: bytes
  rew_offset :: uint64

definition regionExtractingWriter_WriteString :: "bytes \<Rightarrow> regionExtractingWriter \<Rightarrow> regionExtractingWriter" where
  "regionExtractingWriter_WriteString s w =
     (if rew_offset w \<ge> word_of_nat (length s)
      then w\<lparr>rew_offset := rew_offset w - word_of_nat (length s)\<rparr>
      else let src = drop (unat (rew_offset w)) s;
               n = min (length (rew_buf w)) (length src)
           in w\<lparr>rew_filled := rew_filled w @ take n src, rew_buf := drop n (rew_buf w), rew_offset := 0\<rparr>)"

section \<open>The factory\<close>

record ('d, 'cmd) blobAccessCommandFileFactory =
  ConvertCommandToShellScript :: "'cmd \<Rightarrow> bytes list \<times> go_error option"
  ff_digest_String :: "'d \<Rightarrow> string"
  BoundReadToFileSize :: "nat \<Rightarrow> uint64 \<Rightarrow> uint64 \<Rightarrow> nat \<times> bool"

definition writeShellScript ::
    "('d, 'cmd) blobAccessCommandFileFactory \<Rightarrow> ('d \<Rightarrow> 'cmd result) \<Rightarrow> 'd \<Rightarrow> (bytes \<Rightarrow> 'w \<Rightarrow> 'w) \<Rightarrow> 'w \<Rightarrow>
     vstatus \<times> go_error list \<times> 'w" where
  "writeShellScript ff get blobDigest WriteString w =
     (case get blobDigest of
        Inl err \<Rightarrow>
          (StatusErrIO, [StatusWrap (Some err) ''Failed to load command %#v''
             [FStr (ff_digest_String ff blobDigest)]], w)
      | Inr m \<Rightarrow>
          (case ConvertCommandToShellScript ff m of (strings, err) \<Rightarrow>
             (case err of
                Some e \<Rightarrow>
                  (StatusErrIO, [StatusWrap (Some e) ''Failed to convert command %#v to a shell script''
                     [FStr (ff_digest_String ff blobDigest)]], fold WriteString strings w)
              | None \<Rightarrow> (StatusOK, [], fold WriteString strings w))))"

record 'd commandFile =
  cf_blobDigest :: 'd
  cf_size :: uint64

definition command_LookupFile ::
    "('d, 'cmd) blobAccessCommandFileFactory \<Rightarrow> ('d \<Rightarrow> 'cmd result) \<Rightarrow> 'd \<Rightarrow>
     (vstatus + 'd commandFile) \<times> go_error list" where
  "command_LookupFile ff get blobDigest =
     (case writeShellScript ff get blobDigest sizeCountingWriter_WriteString 0 of (s, log, w_size) \<Rightarrow>
        if s \<noteq> StatusOK then (Inl s, log)
        else (Inr \<lparr>cf_blobDigest = blobDigest, cf_size = w_size\<rparr>, log))"

section \<open>The file\<close>

definition command_VirtualGetAttributes :: "'d commandFile \<Rightarrow> attr_call list" where
  "command_VirtualGetAttributes f =
     [SetChangeID 0, SetFileType FileTypeRegularFile, SetHasNamedAttributes False,
      SetIsInNamedAttributeDirectory False, SetPermissions [PermissionsRead, PermissionsExecute],
      SetSizeBytes (cf_size f)]"

text \<open>The attributes a caller asks to set, as far as the file looks at them.\<close>

record attributes_in =
  in_Permissions :: "Permission list option"
  in_OwnerUserID :: "uint32 option"
  in_OwnerGroupID :: "uint32 option"
  in_SizeBytes :: "uint64 option"

definition command_VirtualSetAttributes :: "'d commandFile \<Rightarrow> attributes_in \<Rightarrow> vstatus \<times> attr_call list" where
  "command_VirtualSetAttributes f ain =
     (if in_Permissions ain \<noteq> None then (StatusErrPerm, [])
      else if in_OwnerUserID ain \<noteq> None then (StatusErrPerm, [])
      else if in_OwnerGroupID ain \<noteq> None then (StatusErrPerm, [])
      else if in_SizeBytes ain \<noteq> None then (StatusErrAccess, [])
      else (StatusOK, command_VirtualGetAttributes f))"

definition command_VirtualAllocate :: "'d commandFile \<Rightarrow> uint64 \<Rightarrow> uint64 \<Rightarrow> vstatus" where
  "command_VirtualAllocate f off sizeBytes = StatusErrWrongType"

datatype RegionType = Data | Hole | OtherRegionType

fun command_VirtualSeek :: "'d commandFile \<Rightarrow> uint64 \<Rightarrow> RegionType \<Rightarrow> (vstatus + uint64) exec" where
  "command_VirtualSeek f offset Data =
     (if offset \<ge> cf_size f then Returns (Inl StatusErrNXIO) else Returns (Inr offset))"
| "command_VirtualSeek f offset Hole =
     (if offset \<ge> cf_size f then Returns (Inl StatusErrNXIO) else Returns (Inr (cf_size f)))"
| "command_VirtualSeek f offset OtherRegionType =
     Panics ''Requests for other seek modes should have been intercepted''"

definition command_VirtualOpenSelf ::
    "uint32 \<Rightarrow> 'd commandFile \<Rightarrow> uint32 \<Rightarrow> bool \<Rightarrow> vstatus \<times> attr_call list" where
  "command_VirtualOpenSelf shareMaskRead f shareAccess truncating =
     (if shareAccess AND NOT shareMaskRead \<noteq> 0 \<or> truncating then (StatusErrAccess, [])
      else (StatusOK, command_VirtualGetAttributes f))"

text \<open>
  A read returns the caller's buffer next to the number of bytes, the end-of-file flag and the
  status. The two parts of the writer are always the trimmed buffer.
\<close>

definition command_VirtualRead ::
    "('d, 'cmd) blobAccessCommandFileFactory \<Rightarrow> ('d \<Rightarrow> 'cmd result) \<Rightarrow> 'd commandFile \<Rightarrow> bytes \<Rightarrow> uint64 \<Rightarrow>
     (nat \<times> bool \<times> vstatus \<times> bytes \<times> go_error list) exec" where
  "command_VirtualRead ff get f buf0 offset =
     (case BoundReadToFileSize ff (length buf0) offset (cf_size f) of (n, eof) \<Rightarrow>
        let buf = take n buf0
        in if length buf > 0
           then (case writeShellScript ff get (cf_blobDigest f) regionExtractingWriter_WriteString
                        \<lparr>rew_filled = [], rew_buf = buf, rew_offset = offset\<rparr> of (s, log, w) \<Rightarrow>
                   let buf1 = rew_filled w @ rew_buf w @ drop n buf0
                   in if s \<noteq> StatusOK then Returns (0, False, s, buf1, log)
                      else if rew_buf w \<noteq> []
                      then Panics ''writeShellScript() only returned partial data, which conflicts with the originally computed size''
                      else Returns (length buf, eof, StatusOK, buf1, log))
           else Returns (length buf, eof, StatusOK, buf0, []))"

definition command_VirtualWrite :: "'d commandFile \<Rightarrow> bytes \<Rightarrow> uint64 \<Rightarrow> (nat \<times> vstatus) exec" where
  "command_VirtualWrite f buf offset = Panics ''Request to write to read-only file should have been intercepted''"

definition command_VirtualOpenNamedAttributes :: "bool \<Rightarrow> vstatus" where
  "command_VirtualOpenNamedAttributes createDirectory =
     (if createDirectory then StatusErrAccess else StatusErrNoEnt)"

definition command_VirtualApply :: "'data \<Rightarrow> bool" where
  "command_VirtualApply data = False"

section \<open>handle\_allocating\_command\_file\_factory.go\<close>

text \<open>
  The decorated factory gives the base's leaf a handle for its digest, through the
  parameter \<open>asLeaf\<close>. Handles resolve by looking the digest up again.
\<close>

definition handleAllocating_LookupFile ::
    "('d \<Rightarrow> (vstatus + 'base) \<times> go_error list) \<Rightarrow> ('d \<Rightarrow> 'base \<Rightarrow> 'leaf) \<Rightarrow> 'd \<Rightarrow>
     (vstatus + 'leaf) \<times> go_error list" where
  "handleAllocating_LookupFile base asLeaf blobDigest =
     (case base blobDigest of
        (Inl s, log) \<Rightarrow> (Inl s, log)
      | (Inr leaf, log) \<Rightarrow> (Inr (asLeaf blobDigest leaf), log))"

definition handleAllocating_resolve ::
    "('d \<Rightarrow> (vstatus + 'base) \<times> go_error list) \<Rightarrow> ('d \<Rightarrow> 'base \<Rightarrow> 'leaf) \<Rightarrow> 'd \<Rightarrow> bytes \<Rightarrow>
     ('dir, 'leaf) lookup_result \<times> go_error list" where
  "handleAllocating_resolve base asLeaf blobDigest remainder =
     (case handleAllocating_LookupFile base asLeaf blobDigest of
        (Inl s, log) \<Rightarrow> (Inl s, log)
      | (Inr leaf, log) \<Rightarrow> (Inr (FromLeaf leaf), log))"

section \<open>Counting and extracting\<close>

lemma fold_sizeCounting:
  "fold sizeCountingWriter_WriteString ss n = n + word_of_nat (length (concat ss))"
  by (induction ss arbitrary: n) (simp_all add: sizeCountingWriter_WriteString_def)

text \<open>
  Whatever way the script is cut into strings, the writer extracts a slice of the whole.
\<close>

definition extract_slice :: "bytes \<Rightarrow> regionExtractingWriter \<Rightarrow> regionExtractingWriter" where
  "extract_slice s w = (let src = drop (unat (rew_offset w)) s; n = min (length (rew_buf w)) (length src)
     in \<lparr>rew_filled = rew_filled w @ take n src, rew_buf = drop n (rew_buf w),
         rew_offset = word_of_nat (unat (rew_offset w) - length s)\<rparr>)"

lemma WriteString_extract:
  assumes "length s < 2 ^ 64"
  shows "regionExtractingWriter_WriteString s w = extract_slice s w"
proof (cases "word_of_nat (length s) \<le> rew_offset w")
  case True
  then have le: "length s \<le> unat (rew_offset w)" using assms by (simp add: word_le_nat_alt)
  have "rew_offset w - word_of_nat (length s) = word_of_nat (unat (rew_offset w) - length s)"
    using le by (simp add: of_nat_diff)
  with True le show ?thesis by (simp add: regionExtractingWriter_WriteString_def extract_slice_def)
next
  case False
  then have "unat (rew_offset w) < length s" using less_of_nat64 by simp
  with False show ?thesis by (simp add: regionExtractingWriter_WriteString_def extract_slice_def Let_def)
qed

lemma take_min_append:
  "take (min b (length xs)) xs @ take (min (b - min b (length xs)) (length ys)) ys =
   take (min b (length xs + length ys)) (xs @ ys)"
proof (cases "b \<le> length xs")
  case False
  then have "min b (length xs + length ys) - length xs = min (b - length xs) (length ys)" by auto
  with False show ?thesis by simp
qed simp

lemma drop_min_drop:
  "drop (min (b - min b l) m) (drop (min b l) xs) = drop (min b (l + m)) xs"
  by (simp add: min_def add.commute)

lemma extract_slice_append:
  "extract_slice t (extract_slice s w) = extract_slice (s @ t) w"
proof (cases "unat (rew_offset w) \<le> length s")
  case True
  define xs where "xs = drop (unat (rew_offset w)) s"
  define b where "b = length (rew_buf w)"
  have 1: "extract_slice s w = \<lparr>rew_filled = rew_filled w @ take (min b (length xs)) xs,
      rew_buf = drop (min b (length xs)) (rew_buf w), rew_offset = 0\<rparr>"
    using True by (simp add: extract_slice_def Let_def xs_def b_def)
  have 2: "extract_slice (s @ t) w = \<lparr>rew_filled = rew_filled w @ take (min b (length xs + length t)) (xs @ t),
      rew_buf = drop (min b (length xs + length t)) (rew_buf w), rew_offset = 0\<rparr>"
    using True by (simp add: extract_slice_def Let_def xs_def b_def)
  have 3: "length (drop (min b (length xs)) (rew_buf w)) = b - min b (length xs)" by (simp add: b_def)
  show ?thesis
    unfolding 1 2 unfolding extract_slice_def Let_def
    by (simp only: regionExtractingWriter.simps unsigned_0 drop_0 diff_0_eq_0 of_nat_0 3
        drop_min_drop append_assoc take_min_append) simp
next
  case False
  have u: "unat (word_of_nat (unat (rew_offset w) - length s) :: uint64) = unat (rew_offset w) - length s"
  proof -
    have "unat (rew_offset w) < 2 ^ LENGTH(64)" by (rule unsigned_less)
    then show ?thesis by simp
  qed
  with False show ?thesis by (simp add: extract_slice_def Let_def)
qed

lemma fold_extract:
  assumes "length (concat ss) < 2 ^ 64" "ss \<noteq> []"
  shows "fold regionExtractingWriter_WriteString ss w = extract_slice (concat ss) w"
  using assms
proof (induction ss arbitrary: w)
  case (Cons s ss)
  then have s: "regionExtractingWriter_WriteString s w = extract_slice s w" by (simp add: WriteString_extract)
  show ?case
    using Cons.IH [of "extract_slice s w"] Cons.prems s
    by (cases "ss = []") (simp_all add: extract_slice_append)
qed simp

section \<open>Reading\<close>

text \<open>
  What the file relies on: \<^verbatim>\<open>virtual.BoundReadToFileSize\<close> trims a buffer to what the file
  holds from the offset on.
\<close>

definition bounds_reads :: "('d, 'cmd) blobAccessCommandFileFactory \<Rightarrow> bool" where
  "bounds_reads ff \<longleftrightarrow> (\<forall>n off sz. fst (BoundReadToFileSize ff n off sz) =
     (if sz \<le> off then 0 else min n (unat (sz - off))))"

text \<open>The script a digest stands for, when its command can be loaded and converted.\<close>

definition has_script :: "('d, 'cmd) blobAccessCommandFileFactory \<Rightarrow> ('d \<Rightarrow> 'cmd result) \<Rightarrow> 'd \<Rightarrow> bytes \<Rightarrow> bool" where
  "has_script ff get dg script \<longleftrightarrow> (\<exists>m ss. get dg = Inr m \<and>
     ConvertCommandToShellScript ff m = (ss, None) \<and> script = concat ss)"

lemma command_LookupFile_script:
  assumes "has_script ff get dg script"
  shows "command_LookupFile ff get dg = (Inr \<lparr>cf_blobDigest = dg, cf_size = word_of_nat (length script)\<rparr>, [])"
  using assms by (auto simp: has_script_def command_LookupFile_def writeShellScript_def fold_sizeCounting)

lemma command_VirtualRead_script:
  assumes script: "has_script ff get dg script" and small: "length script < 2 ^ 64"
    and bounds: "bounds_reads ff" and f: "f = \<lparr>cf_blobDigest = dg, cf_size = word_of_nat (length script)\<rparr>"
  shows "\<exists>n eof. n = min (length buf) (length script - unat off) \<and>
    command_VirtualRead ff get f buf off =
      Returns (n, eof, StatusOK, take n (drop (unat off) script) @ drop n buf, [])"
proof -
  obtain m ss where ss: "get dg = Inr m" "ConvertCommandToShellScript ff m = (ss, None)" "script = concat ss"
    using script by (auto simp: has_script_def)
  obtain n eof where b: "BoundReadToFileSize ff (length buf) off (cf_size f) = (n, eof)" by fastforce
  have "n = (if word_of_nat (length script) \<le> off then 0 else min (length buf) (unat (word_of_nat (length script) - off)))"
    using bounds b f unfolding bounds_reads_def by (metis commandFile.select_convs(2) fst_conv)
  then have n: "n = min (length buf) (length script - unat off)"
    using small by (auto simp: word_le_nat_alt unat_sub not_le min_def)
  show ?thesis
  proof (cases "n = 0")
    case True
    with b n show ?thesis by (intro exI [of _ n] exI [of _ eof]) (simp add: command_VirtualRead_def)
  next
    case False
    then have "ss \<noteq> []" using n ss by auto
    then have "fold regionExtractingWriter_WriteString ss \<lparr>rew_filled = [], rew_buf = take n buf, rew_offset = off\<rparr> =
        \<lparr>rew_filled = take n (drop (unat off) script), rew_buf = [], rew_offset = word_of_nat (unat off - length script)\<rparr>"
      using n small ss(3) by (simp add: fold_extract extract_slice_def Let_def min_def)
    with False b n ss f show ?thesis
      by (intro exI [of _ n] exI [of _ eof]) (simp add: command_VirtualRead_def writeShellScript_def Let_def)
  qed
qed

section \<open>Properties\<close>

text \<open>
  C32. Reads of a command file. The size found when the file was looked up is the length of the
  script. Reading into any buffer at any offset, with the command loaded again, fills the
  buffer with exactly the bytes of the script from the offset on, as many as there are, and
  leaves the rest of the buffer alone, however the script is cut into strings when it is
  generated; it never panics about a size that does not match.
\<close>

theorem command_file_reads_script:
  assumes "has_script ff get dg script" "has_script ff get' dg script"
    and "length script < 2 ^ 64" "bounds_reads ff"
  shows "\<exists>f n eof. command_LookupFile ff get dg = (Inr f, []) \<and> unat (cf_size f) = length script \<and>
    n = min (length buf) (length script - unat off) \<and>
    command_VirtualRead ff get' f buf off =
      Returns (n, eof, StatusOK, take n (drop (unat off) script) @ drop n buf, [])"
proof -
  let ?f = "\<lparr>cf_blobDigest = dg, cf_size = word_of_nat (length script)\<rparr>"
  obtain n eof where "n = min (length buf) (length script - unat off)"
    "command_VirtualRead ff get' ?f buf off =
       Returns (n, eof, StatusOK, take n (drop (unat off) script) @ drop n buf, [])"
    using command_VirtualRead_script [OF assms(2-4) refl] by blast
  with command_LookupFile_script [OF assms(1)] assms(3) show ?thesis
    by (intro exI [of _ ?f] exI [of _ n] exI [of _ eof]) simp
qed

definition demo_ff :: "(nat, nat) blobAccessCommandFileFactory" where
  "demo_ff = \<lparr>ConvertCommandToShellScript = (\<lambda>m. ([[1, 2], [], [3, 4, 5]], if m = 7 then None else Some EOF)),
     ff_digest_String = (\<lambda>_. ''d''),
     BoundReadToFileSize = (\<lambda>n off sz. (if sz \<le> off then 0 else min n (unat (sz - off)), unat sz \<le> unat off + n))\<rparr>"

theorem command_file_reads_script_witness:
  "\<exists>eof. command_VirtualRead demo_ff (\<lambda>_. Inr 7) \<lparr>cf_blobDigest = 0, cf_size = 5\<rparr> [0, 0, 0, 0, 0] 1 =
     Returns (4, eof, StatusOK, [2, 3, 4, 5, 0], [])"
proof -
  have s: "has_script demo_ff (\<lambda>_. Inr 7) 0 [1, 2, 3, 4, 5]"
    by (simp add: has_script_def demo_ff_def)
  have "bounds_reads demo_ff" by (simp add: bounds_reads_def demo_ff_def)
  from command_file_reads_script [OF s s _ this, of "[0, 0, 0, 0, 0]" 1] show ?thesis
    using command_LookupFile_script [OF s] by auto
qed

text \<open>
  C33. Reads that fail. When the command can no longer be loaded or converted, a read inside
  the file reports an I/O error and no bytes, and logs exactly one error; it does not panic.
\<close>

theorem command_file_read_error:
  assumes "get dg = Inl err \<or> (\<exists>m ss e. get dg = Inr m \<and> ConvertCommandToShellScript ff m = (ss, Some e))"
    and "bounds_reads ff" "cf_blobDigest f = dg" "off < cf_size f" "buf \<noteq> []"
  shows "\<exists>buf' e. command_VirtualRead ff get f buf off = Returns (0, False, StatusErrIO, buf', [e])"
proof -
  obtain n eof where b: "BoundReadToFileSize ff (length buf) off (cf_size f) = (n, eof)" by fastforce
  have "n = min (length buf) (unat (cf_size f - off))"
    using assms(2,4) b unfolding bounds_reads_def by (metis fst_conv linorder_not_less)
  moreover have "0 < unat (cf_size f - off)"
    using assms(4) by (simp add: unat_sub word_less_nat_alt less_imp_le)
  ultimately have "take n buf \<noteq> []" using assms(5) by auto
  with b assms(1,3) show ?thesis
    by (auto simp: command_VirtualRead_def writeShellScript_def Let_def)
qed

theorem command_file_read_error_witness:
  "\<exists>buf' e. command_VirtualRead demo_ff (\<lambda>_. Inl EOF) \<lparr>cf_blobDigest = 0, cf_size = 5\<rparr> [0] 1 =
     Returns (0, False, StatusErrIO, buf', [e])"
  by (rule command_file_read_error [where err = EOF])
     (auto simp: bounds_reads_def demo_ff_def word_less_nat_alt)

end
