(* ===== verification/Error_Retrying.thy ===== *)
theory Error_Retrying
  imports BB_Prelude
begin

text \<open>
  The storage decorator that retries failing reads, \<^verbatim>\<open>error_retrying_blob_access.go\<close>.

  The clock, the random number generator, the timer and the backend live in a world of type
  \<open>'s\<close>. Instants are integers in nanoseconds, durations are \<^verbatim>\<open>int64\<close> values. Waiting for the
  timer or the end of the context gives \<open>True\<close> when the timer fired first.
\<close>

section \<open>Parameters\<close>

record 's retry_env =
  clock_Now :: "'s \<Rightarrow> int \<times> 's"
  random_Duration :: "int \<Rightarrow> 's \<Rightarrow> int \<times> 's"
  wait_timer :: "int \<Rightarrow> 's \<Rightarrow> bool \<times> 's"
  IsInfrastructureError :: "go_error \<Rightarrow> bool"

text \<open>The calls into the backend. A buffer is what \<^verbatim>\<open>Get\<close> returns.\<close>

record ('d, 'set, 'inst, 'cap, 'slicer, 'buf, 's) base_BlobAccess =
  base_Get :: "'d \<Rightarrow> 's \<Rightarrow> 'buf \<times> 's"
  base_GetFromComposite :: "'d \<Rightarrow> 'd \<Rightarrow> 'slicer \<Rightarrow> 's \<Rightarrow> 'buf \<times> 's"
  base_FindMissing :: "'set \<Rightarrow> 's \<Rightarrow> 'set result \<times> 's"
  base_GetCapabilities :: "'inst \<Rightarrow> 's \<Rightarrow> 'cap result \<times> 's"

section \<open>error\_retrying\_blob\_access.go\<close>

record errorRetryingBlobAccess =
  initialInterval :: int
  maximumInterval :: int
  maximumDelay :: int

record retryState =
  endTime :: int
  interval :: int

definition getRetryState :: "'s retry_env \<Rightarrow> errorRetryingBlobAccess \<Rightarrow> 's \<Rightarrow> retryState \<times> 's" where
  "getRetryState env ba st =
     (case clock_Now env st of (now, st1) \<Rightarrow>
        (\<lparr>endTime = now + maximumDelay ba, interval = initialInterval ba\<rparr>, st1))"

text \<open>
  The result is whether to stop, the updated state of the retries, what was logged, and the
  world. The clock is only read for a retriable error. The library's random duration panics for an
  interval that is not positive, which is not modelled: the intervals \<^verbatim>\<open>main\<close> configures, one second
  and at most 30, are positive, and stay so when doubled (\<open>backoff_bounds\<close>).
\<close>

definition maybeSleep ::
    "'s retry_env \<Rightarrow> errorRetryingBlobAccess \<Rightarrow> retryState \<Rightarrow> go_error \<Rightarrow> 's \<Rightarrow>
     bool \<times> retryState \<times> go_error list \<times> 's" where
  "maybeSleep env ba rs err st =
     (if \<not> IsInfrastructureError env err then (True, rs, [], st)
      else (case clock_Now env st of (now, st1) \<Rightarrow>
        if now > endTime rs then (True, rs, [], st1)
        else (case random_Duration env (interval rs) st1 of (randomInterval, st2) \<Rightarrow>
          let log = [StatusWrap (Some err) ''Retrying failed operation after %s'' [FInt randomInterval]]
          in case wait_timer env randomInterval st2 of (fired, st3) \<Rightarrow>
             if fired
             then (let doubled = to_int64 (interval rs * 2);
                       capped = (if doubled > maximumInterval ba then maximumInterval ba else doubled)
                   in (False, rs\<lparr>interval := capped\<rparr>, log, st3))
             else (True, rs, log, st3))))"

text \<open>The loop that \<^verbatim>\<open>FindMissing\<close> and \<^verbatim>\<open>GetCapabilities\<close> share.\<close>

partial_function (option) retry_loop ::
    "'s retry_env \<Rightarrow> errorRetryingBlobAccess \<Rightarrow> ('s \<Rightarrow> 'a result \<times> 's) \<Rightarrow> retryState \<Rightarrow> go_error list \<Rightarrow> 's \<Rightarrow>
     ('a result \<times> go_error list \<times> 's) option" where
  "retry_loop env ba operation rs log st =
     (case operation st of
        (Inr v, st1) \<Rightarrow> Some (Inr v, log, st1)
      | (Inl err, st1) \<Rightarrow>
          (case maybeSleep env ba rs err st1 of (stop, rs', log', st2) \<Rightarrow>
             if stop then Some (Inl err, log @ log', st2)
             else retry_loop env ba operation rs' (log @ log') st2))"

declare retry_loop.simps [code]

definition retrying_FindMissing ::
    "'s retry_env \<Rightarrow> ('d, 'set, 'inst, 'cap, 'slicer, 'buf, 's) base_BlobAccess \<Rightarrow> errorRetryingBlobAccess \<Rightarrow>
     'set \<Rightarrow> 's \<Rightarrow> ('set result \<times> go_error list \<times> 's) option" where
  "retrying_FindMissing env base ba digests st =
     (case getRetryState env ba st of (rs, st1) \<Rightarrow>
        retry_loop env ba (base_FindMissing base digests) rs [] st1)"

definition retrying_GetCapabilities ::
    "'s retry_env \<Rightarrow> ('d, 'set, 'inst, 'cap, 'slicer, 'buf, 's) base_BlobAccess \<Rightarrow> errorRetryingBlobAccess \<Rightarrow>
     'inst \<Rightarrow> 's \<Rightarrow> ('cap result \<times> go_error list \<times> 's) option" where
  "retrying_GetCapabilities env base ba instanceName st =
     (case getRetryState env ba st of (rs, st1) \<Rightarrow>
        retry_loop env ba (base_GetCapabilities base instanceName) rs [] st1)"

text \<open>
  \<^verbatim>\<open>Get\<close> and \<^verbatim>\<open>GetFromComposite\<close> return the backend's buffer with an error handler
  attached, which the buffer calls each time it fails. The handler knows what to fetch again.
\<close>

datatype ('d, 'slicer) retry_target = GetTarget 'd | GetFromCompositeTarget 'd 'd 'slicer

record ('d, 'slicer) retryingErrorHandler =
  eh_target :: "('d, 'slicer) retry_target"
  eh_retryState :: retryState

fun fetch_target ::
    "('d, 'set, 'inst, 'cap, 'slicer, 'buf, 's) base_BlobAccess \<Rightarrow> ('d, 'slicer) retry_target \<Rightarrow> 's \<Rightarrow> 'buf \<times> 's" where
  "fetch_target base (GetTarget digest) st = base_Get base digest st"
| "fetch_target base (GetFromCompositeTarget parentDigest childDigest slicer) st =
     base_GetFromComposite base parentDigest childDigest slicer st"

definition retrying_Get ::
    "'s retry_env \<Rightarrow> ('d, 'set, 'inst, 'cap, 'slicer, 'buf, 's) base_BlobAccess \<Rightarrow> errorRetryingBlobAccess \<Rightarrow>
     'd \<Rightarrow> 's \<Rightarrow> 'buf \<times> ('d, 'slicer) retryingErrorHandler \<times> 's" where
  "retrying_Get env base ba digest st =
     (case getRetryState env ba st of (rs, st1) \<Rightarrow>
        (case base_Get base digest st1 of (buf, st2) \<Rightarrow>
           (buf, \<lparr>eh_target = GetTarget digest, eh_retryState = rs\<rparr>, st2)))"

definition retrying_GetFromComposite ::
    "'s retry_env \<Rightarrow> ('d, 'set, 'inst, 'cap, 'slicer, 'buf, 's) base_BlobAccess \<Rightarrow> errorRetryingBlobAccess \<Rightarrow>
     'd \<Rightarrow> 'd \<Rightarrow> 'slicer \<Rightarrow> 's \<Rightarrow> 'buf \<times> ('d, 'slicer) retryingErrorHandler \<times> 's" where
  "retrying_GetFromComposite env base ba parentDigest childDigest slicer st =
     (case getRetryState env ba st of (rs, st1) \<Rightarrow>
        (case base_GetFromComposite base parentDigest childDigest slicer st1 of (buf, st2) \<Rightarrow>
           (buf, \<lparr>eh_target = GetFromCompositeTarget parentDigest childDigest slicer, eh_retryState = rs\<rparr>, st2)))"

definition OnError ::
    "'s retry_env \<Rightarrow> ('d, 'set, 'inst, 'cap, 'slicer, 'buf, 's) base_BlobAccess \<Rightarrow> errorRetryingBlobAccess \<Rightarrow>
     ('d, 'slicer) retryingErrorHandler \<Rightarrow> go_error \<Rightarrow> 's \<Rightarrow>
     'buf result \<times> ('d, 'slicer) retryingErrorHandler \<times> go_error list \<times> 's" where
  "OnError env base ba eh err st =
     (case maybeSleep env ba (eh_retryState eh) err st of (stop, rs, log, st1) \<Rightarrow>
        if stop then (Inl err, eh\<lparr>eh_retryState := rs\<rparr>, log, st1)
        else (case fetch_target base (eh_target eh) st1 of (buf, st2) \<Rightarrow>
           (Inr buf, eh\<lparr>eh_retryState := rs\<rparr>, log, st2)))"

section \<open>One decision\<close>

lemma maybeSleep_continue:
  assumes "maybeSleep env ba rs err st = (False, rs', log, st')"
  shows "IsInfrastructureError env err \<and> fst (clock_Now env st) \<le> endTime rs \<and>
    rs' = rs\<lparr>interval := min (to_int64 (interval rs * 2)) (maximumInterval ba)\<rparr> \<and>
    (\<exists>d. log = [StatusWrap (Some err) ''Retrying failed operation after %s'' [FInt d]])"
  using assms
  by (auto simp: maybeSleep_def Let_def min_def split: if_splits prod.splits)

lemma maybeSleep_stop:
  assumes "maybeSleep env ba rs err st = (True, rs', log, st')"
  shows "rs' = rs \<and> (\<not> IsInfrastructureError env err \<or> fst (clock_Now env st) > endTime rs \<or>
    (\<exists>d st2. wait_timer env d st2 = (False, st')))"
  using assms
  by (auto simp: maybeSleep_def Let_def split: if_splits prod.splits)

section \<open>Runs of attempts\<close>

text \<open>
  The states an operation passes through: \<open>retry_run env ba operation rs0 st0 k rs log st\<close> says that
  after \<open>k\<close> failed attempts, all of them followed by a sleep, the loop is about to make
  another attempt.
\<close>

inductive retry_run ::
    "'s retry_env \<Rightarrow> errorRetryingBlobAccess \<Rightarrow> ('s \<Rightarrow> 'a result \<times> 's) \<Rightarrow> retryState \<Rightarrow> 's \<Rightarrow>
     nat \<Rightarrow> retryState \<Rightarrow> go_error list \<Rightarrow> 's \<Rightarrow> bool"
  for env ba operation rs0 st0 where
  run_start: "retry_run env ba operation rs0 st0 0 rs0 [] st0"
| run_again: "retry_run env ba operation rs0 st0 k rs log st \<Longrightarrow> operation st = (Inl err, st1) \<Longrightarrow>
    maybeSleep env ba rs err st1 = (False, rs', log', st2) \<Longrightarrow>
    retry_run env ba operation rs0 st0 (Suc k) rs' (log @ log') st2"

text \<open>What can end a run.\<close>

definition run_ends ::
    "'s retry_env \<Rightarrow> errorRetryingBlobAccess \<Rightarrow> ('s \<Rightarrow> 'a result \<times> 's) \<Rightarrow> retryState \<Rightarrow> go_error list \<Rightarrow> 's \<Rightarrow>
     'a result \<Rightarrow> go_error list \<Rightarrow> 's \<Rightarrow> bool" where
  "run_ends env ba operation rs log st r log1 st' \<longleftrightarrow>
     (\<exists>v. operation st = (Inr v, st') \<and> r = Inr v \<and> log1 = log) \<or>
     (\<exists>err st1 rs' log'. operation st = (Inl err, st1) \<and> maybeSleep env ba rs err st1 = (True, rs', log', st') \<and>
        r = Inl err \<and> log1 = log @ log')"

definition run_result ::
    "'s retry_env \<Rightarrow> errorRetryingBlobAccess \<Rightarrow> ('s \<Rightarrow> 'a result \<times> 's) \<Rightarrow> retryState \<Rightarrow> 's \<Rightarrow>
     'a result \<times> go_error list \<times> 's \<Rightarrow> bool" where
  "run_result env ba operation rs0 st0 res \<longleftrightarrow> (\<exists>k rs log st. retry_run env ba operation rs0 st0 k rs log st \<and>
     run_ends env ba operation rs log st (fst res) (fst (snd res)) (snd (snd res)))"

lemma run_resultI:
  "retry_run env ba operation rs0 st0 k rs log st \<Longrightarrow> run_ends env ba operation rs log st r log1 st' \<Longrightarrow>
   run_result env ba operation rs0 st0 (r, log1, st')"
  by (auto simp: run_result_def)

lemma retry_loop_run:
  fixes operation :: "'s \<Rightarrow> 'a result \<times> 's"
  assumes "retry_loop env ba operation rs log st = Some res"
    and "retry_run env ba operation rs0 st0 k rs log st"
  shows "run_result env ba operation rs0 st0 res"
proof -
  have "\<forall>k. retry_run env ba operation rs0 st0 k rs log st \<longrightarrow> run_result env ba operation rs0 st0 res"
  proof (rule retry_loop.raw_induct [where P = "\<lambda>env ba operation rs log st res.
      \<forall>k. retry_run env ba operation rs0 st0 k rs log st \<longrightarrow> run_result env ba operation rs0 st0 res",
      OF _ assms(1)], intro allI impI)
    fix loop env ba and operation :: "'s \<Rightarrow> 'a result \<times> 's" and rs log st res k
    assume IH: "\<And>env ba (operation :: 's \<Rightarrow> 'a result \<times> 's) rs log st res.
        loop env ba operation rs log st = Some res \<Longrightarrow>
        \<forall>k. retry_run env ba operation rs0 st0 k rs log st \<longrightarrow> run_result env ba operation rs0 st0 res"
      and eq: "(case operation st of
          (Inl err, st1) \<Rightarrow> (case maybeSleep env ba rs err st1 of (stop, rs', log', st2) \<Rightarrow>
             if stop then Some (Inl err, log @ log', st2) else loop env ba operation rs' (log @ log') st2)
        | (Inr v, st1) \<Rightarrow> Some (Inr v, log, st1)) = Some res"
      and run: "retry_run env ba operation rs0 st0 k rs log st"
    obtain x st1 where x: "operation st = (x, st1)" by fastforce
    show "run_result env ba operation rs0 st0 res"
    proof (cases x)
      case (Inr v)
      with x eq have "res = (Inr v, log, st1)" by simp
      moreover have "run_ends env ba operation rs log st (Inr v) log st1"
        using x Inr by (simp add: run_ends_def)
      ultimately show ?thesis using run_resultI [OF run] by simp
    next
      case (Inl err)
      obtain stop rs' log' st2 where m: "maybeSleep env ba rs err st1 = (stop, rs', log', st2)"
        by (metis prod_cases4)
      show ?thesis
      proof (cases stop)
        case True
        with x Inl m eq have "res = (Inl err, log @ log', st2)" by simp
        moreover have "run_ends env ba operation rs log st (Inl err) (log @ log') st2"
          using x Inl m True by (simp add: run_ends_def)
        ultimately show ?thesis using run_resultI [OF run] by simp
      next
        case False
        with x Inl m eq have "loop env ba operation rs' (log @ log') st2 = Some res" by simp
        moreover have "retry_run env ba operation rs0 st0 (Suc k) rs' (log @ log') st2"
          using run_again [OF run] x Inl m False by simp
        ultimately show ?thesis using IH by blast
      qed
    qed
  qed
  with assms(2) show ?thesis by blast
qed

section \<open>Intervals and deadlines along a run\<close>

text \<open>Sensible settings: positive intervals that can be doubled within an \<^verbatim>\<open>int64\<close>.\<close>

definition intervals_ok :: "errorRetryingBlobAccess \<Rightarrow> bool" where
  "intervals_ok ba \<longleftrightarrow> 0 < initialInterval ba \<and> initialInterval ba \<le> maximumInterval ba \<and>
     maximumInterval ba < 2 ^ 62"

definition backoff :: "errorRetryingBlobAccess \<Rightarrow> nat \<Rightarrow> int" where
  "backoff ba k = min (maximumInterval ba) (initialInterval ba * 2 ^ k)"

lemma backoff_Suc:
  assumes "intervals_ok ba"
  shows "min (to_int64 (backoff ba k * 2)) (maximumInterval ba) = backoff ba (Suc k)"
proof -
  let ?M = "maximumInterval ba" and ?i = "initialInterval ba * 2 ^ k"
  have pos: "0 < ?i" "0 < ?M" "?M < 2 ^ 62" using assms by (auto simp: intervals_ok_def)
  then have "0 < backoff ba k" "backoff ba k < 2 ^ 62" by (auto simp: backoff_def)
  then have "to_int64 (backoff ba k * 2) = backoff ba k * 2" by (intro to_int64_id) auto
  moreover have "min (min ?M ?i * 2) ?M = min ?M (?i * 2)" using pos by (auto simp: min_def)
  ultimately show ?thesis by (simp add: backoff_def mult.assoc mult.commute)
qed

lemma backoff_bounds:
  assumes "intervals_ok ba"
  shows "0 < backoff ba k \<and> backoff ba k \<le> maximumInterval ba"
  using assms by (auto simp: intervals_ok_def backoff_def)

lemma retry_run_backoff:
  assumes "retry_run env ba operation rs0 st0 k rs log st"
    and "intervals_ok ba" "interval rs0 = initialInterval ba"
  shows "interval rs = backoff ba k \<and> endTime rs = endTime rs0 \<and> length log = k"
  using assms
proof (induction rule: retry_run.induct)
  case run_start
  then show ?case by (simp add: backoff_def intervals_ok_def)
next
  case (run_again k rs log st err st1 rs' log' st2)
  then have ih: "interval rs = backoff ba k" "endTime rs = endTime rs0" "length log = k" by auto
  from maybeSleep_continue [OF run_again.hyps(3)] obtain d where
    s: "rs' = rs\<lparr>interval := min (to_int64 (interval rs * 2)) (maximumInterval ba)\<rparr>"
      "log' = [StatusWrap (Some err) ''Retrying failed operation after %s'' [FInt d]]" by blast
  show ?case using ih backoff_Suc [OF run_again.prems(1), of k] by (simp add: s)
qed

section \<open>Attempts in terms of the clock and the timer\<close>

text \<open>
  A failed attempt that is repeated: \<open>failed_attempt env ba operation deadline i st e st'\<close> says that the
  call fails in \<open>st\<close> with a retriable error, the clock does not show more than \<open>deadline\<close> after it,
  a duration is drawn for the initial interval doubled \<open>i\<close> times, up to the maximum, \<open>e\<close> is logged
  and the timer fires, which gives \<open>st'\<close>.
\<close>

definition failed_attempt ::
    "'s retry_env \<Rightarrow> errorRetryingBlobAccess \<Rightarrow> ('s \<Rightarrow> 'a result \<times> 's) \<Rightarrow> int \<Rightarrow> nat \<Rightarrow> 's \<Rightarrow> go_error \<Rightarrow> 's \<Rightarrow> bool" where
  "failed_attempt env ba operation deadline i st e st' \<longleftrightarrow>
     (\<exists>err st1 now st2 d st3. operation st = (Inl err, st1) \<and> IsInfrastructureError env err \<and>
        clock_Now env st1 = (now, st2) \<and> now \<le> deadline \<and> random_Duration env (backoff ba i) st2 = (d, st3) \<and>
        wait_timer env d st3 = (True, st') \<and> e = StatusWrap (Some err) ''Retrying failed operation after %s'' [FInt d])"

lemma failed_attemptI:
  assumes "operation st = (Inl err, st1)" "maybeSleep env ba rs err st1 = (False, rs', log, st')"
    and "interval rs = backoff ba i" "endTime rs = deadline"
  shows "\<exists>e. log = [e] \<and> failed_attempt env ba operation deadline i st e st'"
proof -
  obtain now st2 where n: "clock_Now env st1 = (now, st2)" by fastforce
  obtain d st3 where r: "random_Duration env (interval rs) st2 = (d, st3)" by fastforce
  obtain fired st4 where w: "wait_timer env d st3 = (fired, st4)" by fastforce
  have "IsInfrastructureError env err" "now \<le> deadline" "fired" "st4 = st'"
    "log = [StatusWrap (Some err) ''Retrying failed operation after %s'' [FInt d]]"
    using assms(2,4) n r w by (auto simp: maybeSleep_def Let_def split: if_splits)
  with assms(1,3) n r w show ?thesis by (simp add: failed_attempt_def)
qed

lemma retry_run_attempts:
  assumes "retry_run env ba operation rs0 st0 k rs log st"
    and "intervals_ok ba" "interval rs0 = initialInterval ba"
  shows "\<exists>sts. sts 0 = st0 \<and> sts k = st \<and> length log = k \<and>
    (\<forall>i < k. failed_attempt env ba operation (endTime rs0) i (sts i) (log ! i) (sts (Suc i)))"
  using assms
proof (induction rule: retry_run.induct)
  case run_start
  then show ?case by (intro exI [of _ "\<lambda>_. st0"]) simp
next
  case (run_again k rs log st err st1 rs' log' st2)
  then obtain sts where s: "sts 0 = st0" "sts k = st" "length log = k"
    "\<forall>i < k. failed_attempt env ba operation (endTime rs0) i (sts i) (log ! i) (sts (Suc i))" by blast
  have b: "interval rs = backoff ba k" "endTime rs = endTime rs0"
    using retry_run_backoff [OF run_again.hyps(1) run_again.prems] by auto
  obtain e where e: "log' = [e]" "failed_attempt env ba operation (endTime rs0) k st e st2"
    using failed_attemptI [where operation = operation and i = k and deadline = "endTime rs0", OF run_again.hyps(2,3) b] by blast
  have "failed_attempt env ba operation (endTime rs0) i ((sts(Suc k := st2)) i) ((log @ log') ! i) ((sts(Suc k := st2)) (Suc i))"
    if "i < Suc k" for i
    using that s e by (cases "i = k") (auto simp: nth_append)
  with s e show ?case by (intro exI [of _ "sts(Suc k := st2)"]) simp
qed

text \<open>Why an error of the call after \<open>k\<close> repeated ones is returned.\<close>

definition gives_up ::
    "'s retry_env \<Rightarrow> errorRetryingBlobAccess \<Rightarrow> int \<Rightarrow> nat \<Rightarrow> go_error \<Rightarrow> 's \<Rightarrow> go_error list \<Rightarrow> go_error list \<Rightarrow> 's \<Rightarrow> bool" where
  "gives_up env ba deadline k err st1 retries log st' \<longleftrightarrow>
     (\<not> IsInfrastructureError env err \<and> log = retries \<and> st' = st1) \<or>
     (IsInfrastructureError env err \<and> (\<exists>now. clock_Now env st1 = (now, st') \<and> now > deadline) \<and> log = retries) \<or>
     (IsInfrastructureError env err \<and> (\<exists>now st2 d st3. clock_Now env st1 = (now, st2) \<and> now \<le> deadline \<and>
        random_Duration env (backoff ba k) st2 = (d, st3) \<and> wait_timer env d st3 = (False, st') \<and>
        log = retries @ [StatusWrap (Some err) ''Retrying failed operation after %s'' [FInt d]]))"

lemma maybeSleep_gives_up:
  assumes "maybeSleep env ba rs err st1 = (True, rs', log, st')" "interval rs = backoff ba k" "endTime rs = deadline"
  shows "gives_up env ba deadline k err st1 retries (retries @ log) st'"
  using assms
  by (auto simp: gives_up_def maybeSleep_def Let_def split: if_splits prod.splits)

section \<open>Termination\<close>

text \<open>
  What the code relies on to stop: the clock never runs backwards, and a call into the backend
  takes at least a nanosecond by it.
\<close>

definition time_advances :: "'s retry_env \<Rightarrow> ('s \<Rightarrow> int) \<Rightarrow> ('s \<Rightarrow> 'a result \<times> 's) \<Rightarrow> bool" where
  "time_advances env time operation \<longleftrightarrow>
     (\<forall>st. time st \<le> fst (clock_Now env st) \<and> time st \<le> time (snd (clock_Now env st))) \<and>
     (\<forall>d st. time st \<le> time (snd (random_Duration env d st))) \<and>
     (\<forall>d st. time st \<le> time (snd (wait_timer env d st))) \<and>
     (\<forall>st. time st + 1 \<le> time (snd (operation st)))"

lemma maybeSleep_time:
  assumes adv: "time_advances env time operation"
    and "maybeSleep env ba rs err st = (False, rs', log, st')"
  shows "time st \<le> endTime rs \<and> time st \<le> time st'"
proof -
  obtain now st1 where n: "clock_Now env st = (now, st1)" by fastforce
  obtain d st2 where r: "random_Duration env (interval rs) st1 = (d, st2)" by fastforce
  obtain fired st3 where w: "wait_timer env d st2 = (fired, st3)" by fastforce
  have "time st \<le> now" "time st \<le> time st1" "time st1 \<le> time st2" "time st2 \<le> time st3"
    using adv n r w unfolding time_advances_def by (metis fst_conv snd_conv)+
  moreover have "now \<le> endTime rs" "st' = st3"
    using assms(2) n r w by (auto simp: maybeSleep_def Let_def split: if_splits)
  ultimately show ?thesis by simp
qed

lemma retry_loop_returns:
  assumes adv: "time_advances env time operation"
  shows "\<exists>res. retry_loop env ba operation rs log st = Some res"
proof (induction "nat (endTime rs - time st)" arbitrary: rs log st rule: less_induct)
  case less
  obtain x st1 where x: "operation st = (x, st1)" by fastforce
  have t1: "time st + 1 \<le> time st1" using adv x unfolding time_advances_def by (metis snd_conv)
  show ?case
  proof (cases x)
    case (Inr v)
    with x show ?thesis by (simp add: retry_loop.simps)
  next
    case (Inl err)
    obtain stop rs' log' st2 where m: "maybeSleep env ba rs err st1 = (stop, rs', log', st2)"
      by (metis prod_cases4)
    show ?thesis
    proof (cases stop)
      case True
      with x Inl m show ?thesis by (simp add: retry_loop.simps)
    next
      case False
      with m have "time st1 \<le> endTime rs" "time st1 \<le> time st2" "endTime rs' = endTime rs"
        using maybeSleep_time [OF adv, of ba rs err st1 rs' log' st2]
          maybeSleep_continue [of env ba rs err st1 rs' log' st2] by auto
      with t1 have "nat (endTime rs' - time st2) < nat (endTime rs - time st)" by simp
      from less [OF this, of "log @ log'"] show ?thesis
        using x Inl m False by (subst retry_loop.simps) simp
    qed
  qed
qed

lemma getRetryState_initial:
  "getRetryState env ba st = (rs, st1) \<Longrightarrow> interval rs = initialInterval ba \<and>
     endTime rs = fst (clock_Now env st) + maximumDelay ba"
  by (auto simp: getRetryState_def split: prod.splits)

text \<open>The attempts of a whole call, and how the last one ends it.\<close>

lemma FindMissing_attempts:
  assumes "retrying_FindMissing env base ba digests st = Some (r, log, st')" and "intervals_ok ba"
  shows "\<exists>k sts retries deadline. deadline = fst (clock_Now env st) + maximumDelay ba \<and>
    sts 0 = snd (clock_Now env st) \<and> length retries = k \<and>
    (\<forall>i < k. failed_attempt env ba (base_FindMissing base digests) deadline i (sts i) (retries ! i) (sts (Suc i))) \<and>
    ((\<exists>missing. base_FindMissing base digests (sts k) = (Inr missing, st') \<and> r = Inr missing \<and> log = retries) \<or>
     (\<exists>err st1. base_FindMissing base digests (sts k) = (Inl err, st1) \<and> r = Inl err \<and>
        gives_up env ba deadline k err st1 retries log st'))"
proof -
  obtain rs0 st0 where g: "getRetryState env ba st = (rs0, st0)" by fastforce
  then have st0: "st0 = snd (clock_Now env st)" by (auto simp: getRetryState_def split: prod.splits)
  have "retry_loop env ba (base_FindMissing base digests) rs0 [] st0 = Some (r, log, st')"
    using assms(1) g by (simp add: retrying_FindMissing_def)
  from retry_loop_run [OF this run_start] obtain k rs retries stk where
    run: "retry_run env ba (base_FindMissing base digests) rs0 st0 k rs retries stk"
    and ends: "run_ends env ba (base_FindMissing base digests) rs retries stk r log st'"
    by (auto simp: run_result_def)
  note init = getRetryState_initial [OF g]
  have rs: "interval rs = backoff ba k" "endTime rs = fst (clock_Now env st) + maximumDelay ba"
    using retry_run_backoff [OF run assms(2)] init by auto
  obtain sts where s: "sts 0 = snd (clock_Now env st)" "sts k = stk" "length retries = k"
    "\<forall>i < k. failed_attempt env ba (base_FindMissing base digests) (fst (clock_Now env st) + maximumDelay ba) i (sts i) (retries ! i) (sts (Suc i))"
    using retry_run_attempts [OF run assms(2)] init st0 by auto
  from ends show ?thesis unfolding run_ends_def
  proof (elim disjE exE conjE)
    fix v assume "base_FindMissing base digests stk = (Inr v, st')" "r = Inr v" "log = retries"
    with s show ?thesis
      by (intro exI [of _ k] exI [of _ sts] exI [of _ retries] exI conjI refl disjI1) (assumption | simp)+
  next
    fix err st1 rs' log' assume e: "base_FindMissing base digests stk = (Inl err, st1)" "r = Inl err" "log = retries @ log'"
      and m: "maybeSleep env ba rs err st1 = (True, rs', log', st')"
    note g = maybeSleep_gives_up [OF m rs, of retries, folded e(3)]
    show ?thesis
      by (intro exI conjI) (rule refl, rule s(1), rule s(3), rule s(4), intro disjI2 exI conjI, unfold s(2), rule e(1), rule e(2), rule g)
  qed
qed

section \<open>Properties\<close>

text \<open>A world with a clock that ticks at every step, and a backend that fails a number of times.\<close>

record demo_world =
  dw_time :: int
  dw_failures :: nat

definition demo_env :: "demo_world retry_env" where
  "demo_env = \<lparr>clock_Now = (\<lambda>w. (dw_time w, w)), random_Duration = (\<lambda>d w. (d - 1, w)),
     wait_timer = (\<lambda>d w. (True, w\<lparr>dw_time := dw_time w + max 0 d\<rparr>)),
     IsInfrastructureError = (\<lambda>e. e = Status Unavailable ''down'' [])\<rparr>"

definition demo_call :: "'a \<Rightarrow> demo_world \<Rightarrow> 'a result \<times> demo_world" where
  "demo_call v w = (if dw_failures w = 0 then (Inr v, w\<lparr>dw_time := dw_time w + 1\<rparr>)
     else (Inl (Status Unavailable ''down'' []),
           w\<lparr>dw_time := dw_time w + 1, dw_failures := dw_failures w - 1\<rparr>))"

definition demo_base :: "(nat, nat list, nat, nat, nat, nat, demo_world) base_BlobAccess" where
  "demo_base = \<lparr>base_Get = Pair, base_GetFromComposite = (\<lambda>p c s. Pair c),
     base_FindMissing = demo_call, base_GetCapabilities = demo_call\<rparr>"

definition demo_retrying :: errorRetryingBlobAccess where
  "demo_retrying = \<lparr>initialInterval = 10, maximumInterval = 15, maximumDelay = 1000\<rparr>"

lemma demo_time_advances: "time_advances demo_env dw_time (demo_call v)"
  by (auto simp: time_advances_def demo_env_def demo_call_def)

lemmas demo_retrying_defs = demo_env_def demo_base_def demo_retrying_def demo_call_def getRetryState_def
  maybeSleep_def

text \<open>
  C37. Retrying ends. When the clock does not run backwards and calls into the backend take time,
  \<^verbatim>\<open>FindMissing\<close> and \<^verbatim>\<open>GetCapabilities\<close> return, whatever the backend does:
  the loop cannot be kept alive past the maximum delay.
\<close>

theorem retrying_returns:
  assumes "\<And>digests. time_advances env time (base_FindMissing base digests)"
    and "\<And>instanceName. time_advances env time (base_GetCapabilities base instanceName)"
  shows "(\<exists>res. retrying_FindMissing env base ba digests st = Some res) \<and>
    (\<exists>res. retrying_GetCapabilities env base ba instanceName st = Some res)"
  using retry_loop_returns [OF assms(1)] retry_loop_returns [OF assms(2)]
  by (simp add: retrying_FindMissing_def retrying_GetCapabilities_def split: prod.splits)

theorem retrying_returns_witness:
  "\<exists>res. retrying_FindMissing demo_env demo_base demo_retrying [1] \<lparr>dw_time = 0, dw_failures = 100000\<rparr> = Some res"
proof -
  have "time_advances demo_env dw_time (base_FindMissing demo_base ds)"
    "time_advances demo_env dw_time (base_GetCapabilities demo_base i)" for ds i
    using demo_time_advances by (simp_all add: demo_base_def)
  from retrying_returns [OF this] show ?thesis by blast
qed

text \<open>
  C39. What retrying returns. The result of \<^verbatim>\<open>FindMissing\<close> is the result of the last of a
  number of calls into the backend. The deadline is the maximum delay after the time at which
  \<^verbatim>\<open>FindMissing\<close> was called. Each of the earlier calls failed with a retriable error, and the
  clock read after it did not show more than the deadline; then, for call \<open>i\<close>, a duration was drawn
  for the initial interval doubled \<open>i\<close> times, but never above the maximum, one error was logged and
  the timer fired. A success of the last call is returned as it is. An error of it is returned only
  when it is not retriable, the deadline has passed, or the context ended while waiting.
\<close>

theorem retrying_FindMissing_result:
  assumes "retrying_FindMissing env base ba digests st = Some (r, log, st')" and "intervals_ok ba"
  shows "\<exists>k sts retries deadline. deadline = fst (clock_Now env st) + maximumDelay ba \<and>
    sts 0 = snd (clock_Now env st) \<and> length retries = k \<and>
    (\<forall>i < k. \<exists>err st1 now st2 d st3. base_FindMissing base digests (sts i) = (Inl err, st1) \<and> IsInfrastructureError env err \<and>
       clock_Now env st1 = (now, st2) \<and> now \<le> deadline \<and>
       random_Duration env (min (maximumInterval ba) (initialInterval ba * 2 ^ i)) st2 = (d, st3) \<and>
       wait_timer env d st3 = (True, sts (Suc i)) \<and>
       retries ! i = StatusWrap (Some err) ''Retrying failed operation after %s'' [FInt d]) \<and>
    ((\<exists>missing. base_FindMissing base digests (sts k) = (Inr missing, st') \<and> r = Inr missing \<and> log = retries) \<or>
     (\<exists>err st1. base_FindMissing base digests (sts k) = (Inl err, st1) \<and> r = Inl err \<and>
        ((\<not> IsInfrastructureError env err \<and> log = retries \<and> st' = st1) \<or>
         (IsInfrastructureError env err \<and> (\<exists>now. clock_Now env st1 = (now, st') \<and> now > deadline) \<and> log = retries) \<or>
         (IsInfrastructureError env err \<and> (\<exists>now st2 d st3. clock_Now env st1 = (now, st2) \<and> now \<le> deadline \<and>
            random_Duration env (min (maximumInterval ba) (initialInterval ba * 2 ^ k)) st2 = (d, st3) \<and>
            wait_timer env d st3 = (False, st') \<and>
            log = retries @ [StatusWrap (Some err) ''Retrying failed operation after %s'' [FInt d]])))))"
  by (rule FindMissing_attempts [OF assms, unfolded failed_attempt_def gives_up_def backoff_def])

lemma demo_FindMissing:
  "retrying_FindMissing demo_env demo_base demo_retrying [1] \<lparr>dw_time = 0, dw_failures = 2\<rparr> =
     Some (Inr [1], [StatusWrap (Some (Status Unavailable ''down'' [])) ''Retrying failed operation after %s'' [FInt 9],
                     StatusWrap (Some (Status Unavailable ''down'' [])) ''Retrying failed operation after %s'' [FInt 14]],
       \<lparr>dw_time = 26, dw_failures = 0\<rparr>)"
  by (simp add: retrying_FindMissing_def demo_retrying_defs retry_loop.simps Let_def)

theorem retrying_FindMissing_result_witness:
  "retrying_FindMissing demo_env demo_base demo_retrying [1] \<lparr>dw_time = 0, dw_failures = 2\<rparr> =
     Some (Inr [1], [StatusWrap (Some (Status Unavailable ''down'' [])) ''Retrying failed operation after %s'' [FInt 9],
                     StatusWrap (Some (Status Unavailable ''down'' [])) ''Retrying failed operation after %s'' [FInt 14]],
       \<lparr>dw_time = 26, dw_failures = 0\<rparr>) \<and>
   (\<exists>st. base_FindMissing demo_base [1] st = (Inr [1], \<lparr>dw_time = 26, dw_failures = 0\<rparr>))"
proof -
  have ok: "intervals_ok demo_retrying" by (simp add: intervals_ok_def demo_retrying_defs)
  from retrying_FindMissing_result [OF demo_FindMissing ok]
  have "\<exists>st. base_FindMissing demo_base [1] st = (Inr [1], \<lparr>dw_time = 26, dw_failures = 0\<rparr>)"
    by (elim exE conjE disjE) (simp_all only: sum.inject sum.distinct, blast)
  with demo_FindMissing show ?thesis by blast
qed

text \<open>
  C40. The error handlers of \<^verbatim>\<open>Get\<close> and \<^verbatim>\<open>GetFromComposite\<close>. When a handler gives out a
  new buffer, the error was retriable and the deadline not passed, the buffer is the backend's
  for the same digests, and the handler keeps its target and deadline and doubles its interval
  up to the maximum. Otherwise it returns the error it was given and stays as it was.
\<close>

theorem OnError_retries:
  "case OnError env base ba eh err st of (res, eh', log, st') \<Rightarrow>
     (case res of
        Inr buf \<Rightarrow> IsInfrastructureError env err \<and> fst (clock_Now env st) \<le> endTime (eh_retryState eh) \<and>
          (\<exists>st1. fetch_target base (eh_target eh) st1 = (buf, st')) \<and>
          eh' = eh\<lparr>eh_retryState := (eh_retryState eh)\<lparr>interval :=
            min (to_int64 (interval (eh_retryState eh) * 2)) (maximumInterval ba)\<rparr>\<rparr>
      | Inl e \<Rightarrow> e = err \<and> eh' = eh \<and>
          (\<not> IsInfrastructureError env err \<or> fst (clock_Now env st) > endTime (eh_retryState eh) \<or>
           (\<exists>d st2. wait_timer env d st2 = (False, st'))))"
proof -
  obtain stop rs log st1 where m: "maybeSleep env ba (eh_retryState eh) err st = (stop, rs, log, st1)"
    by (metis prod_cases4)
  show ?thesis
  proof (cases stop)
    case True
    with m maybeSleep_stop [of env ba "eh_retryState eh" err st rs log st1] show ?thesis
      by (auto simp: OnError_def)
  next
    case False
    with m maybeSleep_continue [of env ba "eh_retryState eh" err st rs log st1] show ?thesis
      by (auto simp: OnError_def split: prod.splits)
  qed
qed

theorem OnError_retries_witness:
  "\<exists>eh' log st'. OnError demo_env demo_base demo_retrying
     \<lparr>eh_target = GetTarget 3, eh_retryState = \<lparr>endTime = 5, interval = 10\<rparr>\<rparr> EOF \<lparr>dw_time = 0, dw_failures = 0\<rparr> =
     (Inl EOF, eh', log, st') \<and> eh_retryState eh' = \<lparr>endTime = 5, interval = 10\<rparr>"
proof -
  let ?eh = "\<lparr>eh_target = GetTarget 3, eh_retryState = \<lparr>endTime = 5, interval = 10\<rparr>\<rparr>"
  let ?w = "\<lparr>dw_time = 0, dw_failures = 0\<rparr>"
  obtain res eh' log st' where r: "OnError demo_env demo_base demo_retrying ?eh EOF ?w = (res, eh', log, st')"
    by (metis prod_cases4)
  have "\<not> IsInfrastructureError demo_env EOF" by (simp add: demo_env_def)
  with r OnError_retries [where env = demo_env and base = demo_base and ba = demo_retrying and eh = ?eh and err = EOF and st = ?w] show ?thesis
    by (cases res) auto
qed

section \<open>Outages\<close>

text \<open>
  An outage that is over at an instant \<open>until\<close>: calls that start then or later succeed. Before, calls may fail, with
  retriable errors, and at the latest \<open>slack\<close> after they started the clock is read for the decision to retry. Requests
  are not cancelled, so that the timer always fires.
\<close>

definition outage ::
    "'s retry_env \<Rightarrow> ('s \<Rightarrow> int) \<Rightarrow> int \<Rightarrow> int \<Rightarrow> ('s \<Rightarrow> 'a result \<times> 's) \<Rightarrow> bool" where
  "outage env time until slack operation \<longleftrightarrow>
     (\<forall>st err st1. operation st = (Inl err, st1) \<longrightarrow>
        time st < until \<and> IsInfrastructureError env err \<and> fst (clock_Now env st1) \<le> time st + slack) \<and>
     (\<forall>d st. fst (wait_timer env d st))"

lemma outage_continues:
  assumes out: "outage env time until slack operation" and op: "operation st = (Inl err, st1)"
    and long: "until + slack \<le> endTime rs"
  shows "time st < until \<and> (\<exists>rs' log st2. maybeSleep env ba rs err st1 = (False, rs', log, st2) \<and> endTime rs' = endTime rs)"
proof -
  obtain stop rs' log st2 where m: "maybeSleep env ba rs err st1 = (stop, rs', log, st2)" by (metis prod_cases4)
  have o: "time st < until" "IsInfrastructureError env err" "fst (clock_Now env st1) \<le> time st + slack"
    using out op by (auto simp: outage_def)
  have "wait_timer env d s \<noteq> (False, s')" for d s s' using out by (auto simp: outage_def dest: spec2 [of _ d s])
  with maybeSleep_stop [of env ba rs err st1 rs' log st2] m o long have "\<not> stop" by auto
  with m maybeSleep_continue [of env ba rs err st1 rs' log st2] o(1) show ?thesis by auto
qed

lemma retry_loop_survives:
  assumes adv: "time_advances env time operation" and out: "outage env time until slack operation"
  shows "until + slack \<le> endTime rs \<Longrightarrow> \<exists>v log' st'. retry_loop env ba operation rs log st = Some (Inr v, log', st')"
proof (induction "nat (until - time st)" arbitrary: rs log st rule: less_induct)
  case less
  obtain x st1 where x: "operation st = (x, st1)" by fastforce
  show ?case
  proof (cases x)
    case (Inr v)
    with x show ?thesis by (simp add: retry_loop.simps)
  next
    case (Inl err)
    obtain rs' log' st2 where m: "time st < until" "maybeSleep env ba rs err st1 = (False, rs', log', st2)" "endTime rs' = endTime rs"
      using outage_continues [OF out x [unfolded Inl] less.prems] by blast
    have "time st + 1 \<le> time st1" using adv x unfolding time_advances_def by (metis snd_conv)
    moreover have "time st1 \<le> time st2" using maybeSleep_time [OF adv m(2)] by simp
    ultimately have "nat (until - time st2) < nat (until - time st)" using m(1) by simp
    from less.hyps [OF this, of rs' "log @ log'"] less.prems m(3)
    obtain v log'' st' where "retry_loop env ba operation rs' (log @ log') st2 = Some (Inr v, log'', st')" by auto
    then show ?thesis using x Inl m(2) by (subst retry_loop.simps) simp
  qed
qed

text \<open>
  C38. Outages are survived. When calls into the backend fail, with retriable errors, only until some instant, and
  that instant comes (with the time a call takes) before the deadline, the maximum delay after the start, then
  \<^verbatim>\<open>FindMissing\<close> and \<^verbatim>\<open>GetCapabilities\<close> return, and what they return is a result, not an error.
\<close>

theorem short_outage_survived:
  assumes "\<And>digests. time_advances env time (base_FindMissing base digests)"
    "\<And>instanceName. time_advances env time (base_GetCapabilities base instanceName)"
    and "\<And>digests. outage env time until slack (base_FindMissing base digests)"
    "\<And>instanceName. outage env time until slack (base_GetCapabilities base instanceName)"
    and "until + slack \<le> fst (clock_Now env st) + maximumDelay ba"
  shows "(\<exists>missing log st'. retrying_FindMissing env base ba digests st = Some (Inr missing, log, st')) \<and>
    (\<exists>capabilities log st'. retrying_GetCapabilities env base ba instanceName st = Some (Inr capabilities, log, st'))"
proof -
  obtain rs st1 where g: "getRetryState env ba st = (rs, st1)" by fastforce
  with getRetryState_initial [OF g] assms(5) have e: "until + slack \<le> endTime rs" by simp
  show ?thesis
    using retry_loop_survives [OF assms(1,3) e] retry_loop_survives [OF assms(2,4) e] g
    by (simp add: retrying_FindMissing_def retrying_GetCapabilities_def)
qed

definition demo_outage :: "'a \<Rightarrow> demo_world \<Rightarrow> 'a result \<times> demo_world" where
  "demo_outage v w = (if dw_time w < 50 then Inl (Status Unavailable ''down'' []) else Inr v, w\<lparr>dw_time := dw_time w + 1\<rparr>)"

theorem short_outage_survived_witness:
  "\<exists>log st'. retrying_FindMissing demo_env (demo_base\<lparr>base_FindMissing := demo_outage, base_GetCapabilities := demo_outage\<rparr>)
     demo_retrying [1] \<lparr>dw_time = 0, dw_failures = 0\<rparr> = Some (Inr [1], log, st')"
proof -
  let ?base = "demo_base\<lparr>base_FindMissing := demo_outage, base_GetCapabilities := demo_outage\<rparr>"
  let ?w = "\<lparr>dw_time = 0, dw_failures = 0\<rparr>"
  have t: "time_advances demo_env dw_time (base_FindMissing ?base ds)" "time_advances demo_env dw_time (base_GetCapabilities ?base i)"
    "outage demo_env dw_time 50 1 (base_FindMissing ?base ds)" "outage demo_env dw_time 50 1 (base_GetCapabilities ?base i)" for ds i
    by (auto simp: time_advances_def outage_def demo_env_def demo_outage_def split: if_splits)
  have "50 + 1 \<le> fst (clock_Now demo_env ?w) + maximumDelay demo_retrying" by (simp add: demo_env_def demo_retrying_def)
  from short_outage_survived [OF t this, THEN conjunct1]
  obtain r log st' where r: "retrying_FindMissing demo_env ?base demo_retrying [1] ?w = Some (Inr r, log, st')" by blast
  obtain rs0 st0 where g: "getRetryState demo_env demo_retrying ?w = (rs0, st0)" by fastforce
  have "retry_loop demo_env demo_retrying (demo_outage [1]) rs0 [] st0 = Some (Inr r, log, st')"
    using r g by (simp add: retrying_FindMissing_def)
  from retry_loop_run [OF this run_start] have "r = [1]"
    by (auto simp: run_result_def run_ends_def demo_outage_def split: if_splits)
  with r show ?thesis by blast
qed

end
