(* ===== verification/Output_Paths.thy ===== *)
theory Output_Paths
  imports State_Store
begin

text \<open>
  Output paths, where the results of builds are stored: \<^verbatim>\<open>in_memory_output_path_factory.go\<close>,
  \<^verbatim>\<open>local_file_uploading_output_path_factory.go\<close> and
  \<^verbatim>\<open>persistent_output_path_factory.go\<close>, with the interfaces of
  \<^verbatim>\<open>output_path_factory.go\<close> and \<^verbatim>\<open>store.go\<close>.

  The directory tree of an output path (\<^verbatim>\<open>virtual.PrepopulatedDirectory\<close>) is outside the
  repository. Its operations are the fields of \<open>prepopulated_ops\<close>, over a state \<open>'v\<close> of the
  virtual file system, handles \<open>'dd\<close> of directories and leaves \<open>'l\<close>. What
  \<^verbatim>\<open>LookupAllChildren\<close> returns for a directory and in turn for its subdirectories is the
  tree \<open>LookupAllChildren d v\<close>. The map of new children that \<^verbatim>\<open>CreateChildren\<close> takes is an
  association list with distinct names.
\<close>

section \<open>Parameters\<close>

datatype 'l vnode = LookupFails go_error | VDir "(string \<times> 'l vnode) list" "(string \<times> 'l) list"

record ('v, 'dd, 'l) prepopulated_ops =
  NewInMemoryPrepopulatedDirectory :: "'v \<Rightarrow> 'dd \<times> 'v"
  LookupAllChildren :: "'dd \<Rightarrow> 'v \<Rightarrow> 'l vnode"
  CreateAndEnterPrepopulatedDirectory :: "'dd \<Rightarrow> string \<Rightarrow> 'v \<Rightarrow> 'dd result \<times> 'v"
  CreateChildren :: "'dd \<Rightarrow> (string \<times> 'l) list \<Rightarrow> bool \<Rightarrow> 'v \<Rightarrow> go_error option \<times> 'v"
  prepopulated_RemoveAllChildren :: "'dd \<Rightarrow> bool \<Rightarrow> 'v \<Rightarrow> go_error option \<times> 'v"
  Unlink :: "'l \<Rightarrow> 'v \<Rightarrow> 'v"

section \<open>output\_path\_factory.go\<close>

text \<open>
  The interface \<^verbatim>\<open>OutputPathFactory\<close>, with the methods of the output paths \<open>'op\<close> it makes.
  Operations return what they logged.
\<close>

record ('s, 'op, 'dd) OutputPathFactory =
  StartInitialBuild :: "string \<Rightarrow> 's \<Rightarrow> ('op \<times> go_error list \<times> 's) exec"
  opf_Clean :: "string \<Rightarrow> 's \<Rightarrow> go_error option \<times> 's"
  op_directory :: "'op \<Rightarrow> 'dd"
  FinalizeBuild :: "'op \<Rightarrow> 's \<Rightarrow> (go_error list \<times> 's) exec"
  RemoveAllChildren :: "'op \<Rightarrow> bool \<Rightarrow> 's \<Rightarrow> go_error option \<times> 's"

section \<open>in\_memory\_output\_path\_factory.go\<close>

definition inMemoryOutputPathFactory :: "('v, 'dd, 'l) prepopulated_ops \<Rightarrow> ('v, 'dd, 'dd) OutputPathFactory" where
  "inMemoryOutputPathFactory ops = \<lparr>
     StartInitialBuild = (\<lambda>outputBaseID v.
       case NewInMemoryPrepopulatedDirectory ops v of (d, v1) \<Rightarrow> Returns (d, [], v1)),
     opf_Clean = (\<lambda>outputBaseID v. (None, v)),
     op_directory = (\<lambda>d. d),
     FinalizeBuild = (\<lambda>d v. Returns ([], v)),
     RemoveAllChildren = prepopulated_RemoveAllChildren ops\<rparr>"

section \<open>local\_file\_uploading\_output\_path\_factory.go\<close>

text \<open>
  Uploading a leaf through \<^verbatim>\<open>ApplyUploadFile\<close> either is not supported by the leaf (\<open>None\<close>) or
  leaves an error or nil. The batching wrapper around the storage is flushed at the end.
\<close>

record ('s, 'l) upload_ops =
  ApplyUploadFile :: "'l \<Rightarrow> 's \<Rightarrow> go_error option option \<times> 's"
  flusher :: "'s \<Rightarrow> go_error option \<times> 's"
  status_Code :: "go_error \<Rightarrow> code"

fun upload_leaves ::
    "('s, 'l) upload_ops \<Rightarrow> string \<Rightarrow> string list \<Rightarrow> (string \<times> 'l) list \<Rightarrow> 's \<Rightarrow> (go_error option \<times> 's) exec" where
  "upload_leaves up outputBaseID dPath [] s = Returns (None, s)"
| "upload_leaves up outputBaseID dPath ((name, child) # leaves) s =
     (case ApplyUploadFile up child s of
        (None, s1) \<Rightarrow> Panics ''output path contains leaves that don't support ApplyUploadFile''
      | (Some err, s1) \<Rightarrow>
          (case err of
             None \<Rightarrow> upload_leaves up outputBaseID dPath leaves s1
           | Some e \<Rightarrow>
               if status_Code up e \<noteq> InvalidArgument
               then Returns (Some (StatusWrap (Some e) ''Failed to upload local file %#v in output path %#v''
                      [FPath (dPath @ [name]), FStr outputBaseID]), s1)
               else upload_leaves up outputBaseID dPath leaves s1))"

fun uploadLocalFilesRecursive ::
    "('s, 'l) upload_ops \<Rightarrow> string \<Rightarrow> string list \<Rightarrow> 'l vnode \<Rightarrow> 's \<Rightarrow> (go_error option \<times> 's) exec"
  and upload_directories ::
    "('s, 'l) upload_ops \<Rightarrow> string \<Rightarrow> string list \<Rightarrow> (string \<times> 'l vnode) list \<Rightarrow> 's \<Rightarrow> (go_error option \<times> 's) exec" where
  "uploadLocalFilesRecursive up outputBaseID dPath (LookupFails err) s =
     Returns (Some (StatusWrap (Some err) ''Failed to look up children of directory %#v in output path %#v''
       [FPath dPath, FStr outputBaseID]), s)"
| "uploadLocalFilesRecursive up outputBaseID dPath (VDir directories leaves) s =
     exec_bind (upload_directories up outputBaseID dPath directories s) (\<lambda>(err, s1).
       case err of
         Some e \<Rightarrow> Returns (Some e, s1)
       | None \<Rightarrow> upload_leaves up outputBaseID dPath leaves s1)"
| "upload_directories up outputBaseID dPath [] s = Returns (None, s)"
| "upload_directories up outputBaseID dPath ((name, child) # directories) s =
     exec_bind (uploadLocalFilesRecursive up outputBaseID (dPath @ [name]) child s) (\<lambda>(err, s1).
       case err of
         Some e \<Rightarrow> Returns (Some e, s1)
       | None \<Rightarrow> upload_directories up outputBaseID dPath directories s1)"

record 'op localFileUploadingOutputPath =
  lfu_OutputPath :: 'op
  lfu_outputBaseID :: string

definition localFileUploading_FinalizeBuild ::
    "('s, 'op, 'dd) OutputPathFactory \<Rightarrow> ('dd \<Rightarrow> 's \<Rightarrow> 'l vnode) \<Rightarrow> ('s, 'l) upload_ops \<Rightarrow>
     'op localFileUploadingOutputPath \<Rightarrow> 's \<Rightarrow> (go_error list \<times> 's) exec" where
  "localFileUploading_FinalizeBuild base lookupAll up op s =
     exec_bind (FinalizeBuild base (lfu_OutputPath op) s) (\<lambda>(log, s1).
       exec_bind (uploadLocalFilesRecursive up (lfu_outputBaseID op) []
           (lookupAll (op_directory base (lfu_OutputPath op)) s1) s1) (\<lambda>(err1, s2).
         case flusher up s2 of (err2, s3) \<Rightarrow>
           Returns (log @
             (case err1 of
                Some e \<Rightarrow> [e]
              | None \<Rightarrow>
                  (case err2 of
                     Some e \<Rightarrow> [StatusWrap (Some e) ''Failed to upload the contents of output path %#v''
                       [FStr (lfu_outputBaseID op)]]
                   | None \<Rightarrow> [])), s3)))"

definition localFileUploadingOutputPathFactory ::
    "('s, 'op, 'dd) OutputPathFactory \<Rightarrow> ('dd \<Rightarrow> 's \<Rightarrow> 'l vnode) \<Rightarrow> ('s, 'l) upload_ops \<Rightarrow>
     ('s, 'op localFileUploadingOutputPath, 'dd) OutputPathFactory" where
  "localFileUploadingOutputPathFactory base lookupAll up = \<lparr>
     StartInitialBuild = (\<lambda>outputBaseID s.
       exec_bind (StartInitialBuild base outputBaseID s) (\<lambda>(op, log, s1).
         Returns (\<lparr>lfu_OutputPath = op, lfu_outputBaseID = outputBaseID\<rparr>, log, s1))),
     opf_Clean = opf_Clean base,
     op_directory = (\<lambda>op. op_directory base (lfu_OutputPath op)),
     FinalizeBuild = localFileUploading_FinalizeBuild base lookupAll up,
     RemoveAllChildren = (\<lambda>op. RemoveAllChildren base (lfu_OutputPath op))\<rparr>"

section \<open>store.go, reader.go and writer.go\<close>

text \<open>
  The interfaces \<^verbatim>\<open>Store\<close>, \<^verbatim>\<open>ReadCloser\<close> and \<^verbatim>\<open>WriteCloser\<close>. A writer holds the state of
  the store while it is open, and gives it back when it is finalized or closed.
\<close>

record ('d, 'r, 'w) Store =
  store_Read :: "string \<Rightarrow> 'd \<Rightarrow> ((fileReader \<times> 'r) \<times> RootDirectory) result exec \<times> 'd"
  reader_ReadDirectory :: "fileReader \<Rightarrow> FileRegion option \<Rightarrow> (fileReader \<times> Directory) result exec"
  reader_Close :: "'r \<Rightarrow> 'd \<Rightarrow> 'd"
  store_Write :: "string \<Rightarrow> 'd \<Rightarrow> 'w result \<times> 'd"
  writer_WriteDirectory :: "Directory \<Rightarrow> 'w \<Rightarrow> (FileRegion option result \<times> 'w) exec"
  writer_Finalize :: "RootDirectory \<Rightarrow> 'w \<Rightarrow> (go_error option \<times> 'd) exec"
  writer_Close :: "'w \<Rightarrow> go_error option \<times> 'd"
  store_Clean :: "string \<Rightarrow> 'd \<Rightarrow> go_error option \<times> 'd"

definition directoryBackedStore_Store ::
    "(string \<Rightarrow> bool) \<Rightarrow> codec \<Rightarrow> ('d, 'h, 'r) directoryBackedStore \<Rightarrow>
     ('d, 'r, ('d, 'h, 'r) directoryBackedWriter) Store" where
  "directoryBackedStore_Store newComponent c s = \<lparr>
     store_Read = dbs_Read c s,
     reader_ReadDirectory = ReadDirectory (unmarshalDirectory c),
     reader_Close = CloseRead (dbs_directory s),
     store_Write = dbs_Write newComponent s,
     writer_WriteDirectory = dbw_WriteDirectory c,
     writer_Finalize = dbw_Finalize c,
     writer_Close = (\<lambda>w. dbw_Close w (dbw_state w)),
     store_Clean = dbs_Clean newComponent s\<rparr>"

definition maximumAgeStore_Store ::
    "time_ops \<Rightarrow> int \<Rightarrow> int \<Rightarrow> ('d, 'r, 'w) Store \<Rightarrow> ('d, 'r, 'w) Store" where
  "maximumAgeStore_Store tm maximumStateFileAge now base =
     base\<lparr>store_Read := mas_Read tm (store_Read base) (reader_Close base) maximumStateFileAge now\<rparr>"

section \<open>persistent\_output\_path\_factory.go: restoring\<close>

record ('dg, 'l) stateRestorer =
  sr_LookupFile :: "'dg \<Rightarrow> bool \<Rightarrow> 'l"
  sr_LookupSymlink :: "string \<Rightarrow> 'l result"
  sr_NewDigestFromProto :: "proto_digest \<Rightarrow> 'dg result"
  sr_NewComponent :: "string \<Rightarrow> bool"

text \<open>
  The two loops that fill \<^verbatim>\<open>initialNodes\<close>. The map is the association list of its insertions,
  whose keys are distinct; it is returned on an error too, because the deferred function
  unlinks the leaves it holds.
\<close>

fun restore_files ::
    "('dg, 'l) stateRestorer \<Rightarrow> string list \<Rightarrow> FileNode list \<Rightarrow> (string \<times> 'l) list \<Rightarrow>
     go_error option \<times> (string \<times> 'l) list" where
  "restore_files sr dPath [] initialNodes = (None, initialNodes)"
| "restore_files sr dPath (entry # entries) initialNodes =
     (if \<not> sr_NewComponent sr (fn_Name entry)
      then (Some (Status InvalidArgument ''File %#v inside directory %#v has an invalid name''
             [FStr (fn_Name entry), FPath dPath]), initialNodes)
      else if map_of initialNodes (fn_Name entry) \<noteq> None
      then (Some (Status InvalidArgument ''Directory contains multiple children named %#v''
             [FStr (fn_Name entry)]), initialNodes)
      else (case sr_NewDigestFromProto sr (fn_Digest entry) of
              Inl err \<Rightarrow> (Some (StatusWrap (Some err) ''Failed to obtain digest for file %#v''
                [FPath (dPath @ [fn_Name entry])]), initialNodes)
            | Inr childDigest \<Rightarrow>
                restore_files sr dPath entries
                  (initialNodes @ [(fn_Name entry, sr_LookupFile sr childDigest (fn_IsExecutable entry))])))"

fun restore_symlinks ::
    "('dg, 'l) stateRestorer \<Rightarrow> string list \<Rightarrow> SymlinkNode list \<Rightarrow> (string \<times> 'l) list \<Rightarrow>
     go_error option \<times> (string \<times> 'l) list" where
  "restore_symlinks sr dPath [] initialNodes = (None, initialNodes)"
| "restore_symlinks sr dPath (entry # entries) initialNodes =
     (if \<not> sr_NewComponent sr (sn_Name entry)
      then (Some (Status InvalidArgument ''Symlink %#v inside directory %#v has an invalid name''
             [FStr (sn_Name entry), FPath dPath]), initialNodes)
      else if map_of initialNodes (sn_Name entry) \<noteq> None
      then (Some (Status InvalidArgument ''Directory contains multiple children named %#v''
             [FStr (sn_Name entry)]), initialNodes)
      else (case sr_LookupSymlink sr (sn_Target entry) of
              Inl err \<Rightarrow> (Some (Status InvalidArgument ''Failed to create symbolic link %#v with target %#v''
                [FStr (sn_Name entry), FStr (sn_Target entry)]), initialNodes)
            | Inr symlinkNode \<Rightarrow>
                restore_symlinks sr dPath entries (initialNodes @ [(sn_Name entry, symlinkNode)])))"

text \<open>
  The second half of \<^verbatim>\<open>restoreDirectoryRecursive\<close> with its deferred function. The order in
  which Go iterates over a map is the parameter \<open>mapOrder\<close>, a permutation of the entries where a
  property depends on it (\<open>unlink_all_leaves\<close>).
\<close>

definition unlink_all ::
    "('v, 'dd, 'l) prepopulated_ops \<Rightarrow> ((string \<times> 'l) list \<Rightarrow> (string \<times> 'l) list) \<Rightarrow> (string \<times> 'l) list \<Rightarrow> 'v \<Rightarrow> 'v" where
  "unlink_all ops mapOrder initialNodes v = fold (\<lambda>(name, leaf). Unlink ops leaf) (mapOrder initialNodes) v"

definition restore_leaves ::
    "('v, 'dd, 'l) prepopulated_ops \<Rightarrow> ((string \<times> 'l) list \<Rightarrow> (string \<times> 'l) list) \<Rightarrow> ('dg, 'l) stateRestorer \<Rightarrow>
     Directory \<Rightarrow> 'dd \<Rightarrow> string list \<Rightarrow> 'v \<Rightarrow> go_error option \<times> 'v" where
  "restore_leaves ops mapOrder sr contents d dPath v =
     (case restore_files sr dPath (Files contents) [] of
        (Some e, initialNodes) \<Rightarrow> (Some e, unlink_all ops mapOrder initialNodes v)
      | (None, initialNodes) \<Rightarrow>
          (case restore_symlinks sr dPath (Symlinks contents) initialNodes of
             (Some e, initialNodes) \<Rightarrow> (Some e, unlink_all ops mapOrder initialNodes v)
           | (None, initialNodes) \<Rightarrow>
               (case CreateChildren ops d initialNodes True v of
                  (Some err, v1) \<Rightarrow>
                    (Some (StatusWrap (Some err) ''Failed to create files and symbolic links'' []),
                     unlink_all ops mapOrder initialNodes v1)
                | (None, v1) \<Rightarrow> (None, v1))))"

text \<open>
  The recursion is over the state file, whose readers permit smaller and smaller offsets. It is
  modelled with fuel, of which \<open>restore_returns\<close> below shows the reader's offset to be enough.
\<close>

fun restoreDirectoryRecursive ::
    "('v, 'dd, 'l) prepopulated_ops \<Rightarrow> ((string \<times> 'l) list \<Rightarrow> (string \<times> 'l) list) \<Rightarrow>
     (fileReader \<Rightarrow> FileRegion option \<Rightarrow> (fileReader \<times> Directory) result exec) \<Rightarrow> ('dg, 'l) stateRestorer \<Rightarrow> nat \<Rightarrow>
     fileReader \<Rightarrow> Directory \<Rightarrow> 'dd \<Rightarrow> string list \<Rightarrow> 'v \<Rightarrow> (go_error option \<times> 'v) exec"
  and restore_directories ::
    "('v, 'dd, 'l) prepopulated_ops \<Rightarrow> ((string \<times> 'l) list \<Rightarrow> (string \<times> 'l) list) \<Rightarrow>
     (fileReader \<Rightarrow> FileRegion option \<Rightarrow> (fileReader \<times> Directory) result exec) \<Rightarrow> ('dg, 'l) stateRestorer \<Rightarrow> nat \<Rightarrow>
     fileReader \<Rightarrow> DirectoryNode list \<Rightarrow> 'dd \<Rightarrow> string list \<Rightarrow> 'v \<Rightarrow> (go_error option \<times> 'v) exec" where
  "restoreDirectoryRecursive ops mapOrder readDir sr 0 reader contents d dPath v = Diverges"
| "restoreDirectoryRecursive ops mapOrder readDir sr (Suc fuel) reader contents d dPath v =
     exec_bind (restore_directories ops mapOrder readDir sr fuel reader (Directories contents) d dPath v) (\<lambda>(err, v1).
       case err of
         Some e \<Rightarrow> Returns (Some e, v1)
       | None \<Rightarrow> Returns (restore_leaves ops mapOrder sr contents d dPath v1))"
| "restore_directories ops mapOrder readDir sr fuel reader [] d dPath v = Returns (None, v)"
| "restore_directories ops mapOrder readDir sr fuel reader (entry # entries) d dPath v =
     (if \<not> sr_NewComponent sr (dn_Name entry)
      then Returns (Some (Status InvalidArgument ''Directory %#v inside directory %#v has an invalid name''
             [FStr (dn_Name entry), FPath dPath]), v)
      else let childPath = dPath @ [dn_Name entry]
           in exec_bind (readDir reader (dn_FileRegion entry)) (\<lambda>r.
                case r of
                  Inl err \<Rightarrow> Returns (Some (StatusWrap (Some err) ''Failed to load directory %#v'' [FPath childPath]), v)
                | Inr (childReader, childContents) \<Rightarrow>
                    (case CreateAndEnterPrepopulatedDirectory ops d (dn_Name entry) v of
                       (Inl err, v1) \<Rightarrow>
                         Returns (Some (StatusWrap (Some err) ''Failed to create directory %#v'' [FPath childPath]), v1)
                     | (Inr childDirectory, v1) \<Rightarrow>
                         exec_bind (restoreDirectoryRecursive ops mapOrder readDir sr fuel childReader childContents
                             childDirectory childPath v1) (\<lambda>(err, v2).
                           case err of
                             Some e \<Rightarrow> Returns (Some e, v2)
                           | None \<Rightarrow>
                               restore_directories ops mapOrder readDir sr fuel reader entries d dPath v2))))"

section \<open>persistent\_output\_path\_factory.go: saving\<close>

text \<open>
  \<open>ApplyAppend\<close> is \<^verbatim>\<open>VirtualApply\<close> of a leaf on
  \<^verbatim>\<open>ApplyAppendOutputPathPersistencyDirectoryNode\<close>: it appends a node to the message, or is not
  supported (\<open>None\<close>).
\<close>

fun save_leaves ::
    "('l \<Rightarrow> string \<Rightarrow> Directory \<Rightarrow> Directory option) \<Rightarrow> string list \<Rightarrow> (string \<times> 'l) list \<Rightarrow> Directory \<Rightarrow>
     Directory exec" where
  "save_leaves applyAppend dPath [] directory = Returns directory"
| "save_leaves applyAppend dPath ((name, child) # leaves) directory =
     (if dPath = [] \<and> (name = ''stable-status.txt'' \<or> name = ''volatile-status.txt'')
      then save_leaves applyAppend dPath leaves directory
      else (case applyAppend child name directory of
              None \<Rightarrow> Panics ''output path contains leaves that don't support ApplyAppendOutputPathPersistencyDirectoryNode''
            | Some directory \<Rightarrow> save_leaves applyAppend dPath leaves directory))"

fun saveDirectoryRecursive ::
    "('l \<Rightarrow> string \<Rightarrow> Directory \<Rightarrow> Directory option) \<Rightarrow>
     (Directory \<Rightarrow> 'w \<Rightarrow> (FileRegion option result \<times> 'w) exec) \<Rightarrow> 'l vnode \<Rightarrow> string list \<Rightarrow> 'w \<Rightarrow>
     (Directory result \<times> 'w) exec"
  and save_directories ::
    "('l \<Rightarrow> string \<Rightarrow> Directory \<Rightarrow> Directory option) \<Rightarrow>
     (Directory \<Rightarrow> 'w \<Rightarrow> (FileRegion option result \<times> 'w) exec) \<Rightarrow> (string \<times> 'l vnode) list \<Rightarrow> string list \<Rightarrow>
     Directory \<Rightarrow> 'w \<Rightarrow> (Directory result \<times> 'w) exec" where
  "saveDirectoryRecursive applyAppend writeDir (LookupFails err) dPath w =
     Returns (Inl (StatusWrap (Some err) ''Failed to look up children of directory %#v'' [FPath dPath]), w)"
| "saveDirectoryRecursive applyAppend writeDir (VDir directories leaves) dPath w =
     exec_bind (save_directories applyAppend writeDir directories dPath empty_Directory w) (\<lambda>(res, w1).
       case res of
         Inl err \<Rightarrow> Returns (Inl err, w1)
       | Inr directory \<Rightarrow>
           exec_bind (save_leaves applyAppend dPath leaves directory) (\<lambda>directory. Returns (Inr directory, w1)))"
| "save_directories applyAppend writeDir [] dPath directory w = Returns (Inr directory, w)"
| "save_directories applyAppend writeDir ((name, child) # directories) dPath directory w =
     exec_bind (saveDirectoryRecursive applyAppend writeDir child (dPath @ [name]) w) (\<lambda>(res, w1).
       case res of
         Inl err \<Rightarrow> Returns (Inl err, w1)
       | Inr childDirectory \<Rightarrow>
           exec_bind (writeDir childDirectory w1) (\<lambda>(res, w2).
             case res of
               Inl err \<Rightarrow>
                 Returns (Inl (StatusWrap (Some err) ''Failed to write directory %#v to state file''
                   [FPath (dPath @ [name])]), w2)
             | Inr fileRegion \<Rightarrow>
                 save_directories applyAppend writeDir directories dPath
                   (directory\<lparr>Directories := Directories directory @
                      [\<lparr>dn_Name = name, dn_FileRegion = fileRegion\<rparr>]\<rparr>) w2))"

section \<open>persistent\_output\_path\_factory.go: the factory\<close>

text \<open>
  What the factory is made of, next to its base. \<open>pf_Now\<close> is what the clock shows at the time
  of the call.
\<close>

record ('v, 'dd, 'l, 'dg, 'd, 'r, 'w) persistentOutputPathFactory =
  pf_ops :: "('v, 'dd, 'l) prepopulated_ops"
  pf_mapOrder :: "(string \<times> 'l) list \<Rightarrow> (string \<times> 'l) list"
  pf_restorer :: "('dg, 'l) stateRestorer"
  pf_applyAppend :: "'l \<Rightarrow> string \<Rightarrow> Directory \<Rightarrow> Directory option"
  pf_store :: "('d, 'r, 'w) Store"
  pf_Now :: Timestamp

record 'op persistentOutputPath =
  pop_OutputPath :: 'op
  pop_outputBaseID :: string
  pop_initialCreationTime :: Timestamp

text \<open>The state is that of the base and its virtual directories, and that of the store.\<close>

definition persistent_StartInitialBuild ::
    "('v, 'dd, 'l, 'dg, 'd, 'r, 'w) persistentOutputPathFactory \<Rightarrow> ('v, 'op, 'dd) OutputPathFactory \<Rightarrow>
     string \<Rightarrow> 'v \<times> 'd \<Rightarrow> ('op persistentOutputPath \<times> go_error list \<times> 'v \<times> 'd) exec" where
  "persistent_StartInitialBuild pf base outputBaseID st =
     exec_bind (StartInitialBuild base outputBaseID (fst st)) (\<lambda>(d, log, v).
       case store_Read (pf_store pf) outputBaseID (snd st) of (r, d1) \<Rightarrow>
       exec_bind r (\<lambda>res.
         let finish = (\<lambda>initialCreationTime errs v d1.
               Returns (\<lparr>pop_OutputPath = d, pop_outputBaseID = outputBaseID,
                   pop_initialCreationTime = (case initialCreationTime of None \<Rightarrow> pf_Now pf | Some t \<Rightarrow> t)\<rparr>,
                 log @ errs, v, d1))
         in case res of
              Inl err \<Rightarrow>
                finish None [StatusWrap (Some err) ''Failed to open state file for output path %#v'' [FStr outputBaseID]] v d1
            | Inr ((reader, handle), rootDirectory) \<Rightarrow>
                (case Contents rootDirectory of
                   None \<Rightarrow>
                     finish None [Status InvalidArgument ''State file for output path %#v does not contain a root directory''
                       [FStr outputBaseID]] v (reader_Close (pf_store pf) handle d1)
                 | Some contents \<Rightarrow>
                     exec_bind (restoreDirectoryRecursive (pf_ops pf) (pf_mapOrder pf)
                         (reader_ReadDirectory (pf_store pf)) (pf_restorer pf)
                         (Suc (nat (maximumOffsetBytes reader))) reader contents (op_directory base d) [] v)
                       (\<lambda>(err, v2).
                         finish (InitialCreationTime rootDirectory)
                           (case err of
                              None \<Rightarrow> []
                            | Some e \<Rightarrow> [StatusWrap (Some e) ''Failed to restore state file for output path %#v''
                                [FStr outputBaseID]])
                           v2 (reader_Close (pf_store pf) handle d1)))))"

definition persistent_Clean ::
    "('v, 'dd, 'l, 'dg, 'd, 'r, 'w) persistentOutputPathFactory \<Rightarrow> ('v, 'op, 'dd) OutputPathFactory \<Rightarrow>
     string \<Rightarrow> 'v \<times> 'd \<Rightarrow> go_error option \<times> 'v \<times> 'd" where
  "persistent_Clean pf base outputBaseID st =
     (case opf_Clean base outputBaseID (fst st) of (err, v) \<Rightarrow>
        (case err of
           Some e \<Rightarrow> (Some e, v, snd st)
         | None \<Rightarrow>
             (case store_Clean (pf_store pf) outputBaseID (snd st) of (err2, d1) \<Rightarrow>
                (case err2 of
                   Some e \<Rightarrow> (Some (StatusWrap (Some e) ''Failed to remove persistent state for output path'' []), v, d1)
                 | None \<Rightarrow> (None, v, d1)))))"

definition saveOutputPath ::
    "('v, 'dd, 'l, 'dg, 'd, 'r, 'w) persistentOutputPathFactory \<Rightarrow> 'l vnode \<Rightarrow> string \<Rightarrow> Timestamp \<Rightarrow> 'd \<Rightarrow>
     (go_error option \<times> 'd) exec" where
  "saveOutputPath pf tree outputBaseID initialCreationTime d =
     (case store_Write (pf_store pf) outputBaseID d of
        (Inl err, d1) \<Rightarrow> Returns (Some err, d1)
      | (Inr writer, d1) \<Rightarrow>
          exec_bind (saveDirectoryRecursive (pf_applyAppend pf) (writer_WriteDirectory (pf_store pf)) tree [] writer)
            (\<lambda>(res, writer).
              case res of
                Inl err \<Rightarrow> Returns (Some err, snd (writer_Close (pf_store pf) writer))
              | Inr contents \<Rightarrow>
                  writer_Finalize (pf_store pf)
                    \<lparr>InitialCreationTime = Some initialCreationTime, Contents = Some contents\<rparr> writer))"

definition persistent_FinalizeBuild ::
    "('v, 'dd, 'l, 'dg, 'd, 'r, 'w) persistentOutputPathFactory \<Rightarrow> ('v, 'op, 'dd) OutputPathFactory \<Rightarrow>
     'op persistentOutputPath \<Rightarrow> 'v \<times> 'd \<Rightarrow> (go_error list \<times> 'v \<times> 'd) exec" where
  "persistent_FinalizeBuild pf base op st =
     exec_bind (FinalizeBuild base (pop_OutputPath op) (fst st)) (\<lambda>(log, v).
       exec_bind (saveOutputPath pf (LookupAllChildren (pf_ops pf) (op_directory base (pop_OutputPath op)) v)
           (pop_outputBaseID op) (pop_initialCreationTime op) (snd st)) (\<lambda>(err, d1).
         Returns (log @
           (case err of
              None \<Rightarrow> []
            | Some e \<Rightarrow> [StatusWrap (Some e) ''Failed to save the contents of output path %#v''
                [FStr (pop_outputBaseID op)]]), v, d1)))"

definition persistent_RemoveAllChildren ::
    "('v, 'dd, 'l, 'dg, 'd, 'r, 'w) persistentOutputPathFactory \<Rightarrow> ('v, 'op, 'dd) OutputPathFactory \<Rightarrow>
     'op persistentOutputPath \<Rightarrow> bool \<Rightarrow> 'v \<times> 'd \<Rightarrow> go_error option \<times> 'v \<times> 'd" where
  "persistent_RemoveAllChildren pf base op forbidNewChildren st =
     (case RemoveAllChildren base (pop_OutputPath op) forbidNewChildren (fst st) of (err, v) \<Rightarrow>
        (case err of
           Some e \<Rightarrow> (Some e, v, snd st)
         | None \<Rightarrow>
             if forbidNewChildren
             then (case store_Clean (pf_store pf) (pop_outputBaseID op) (snd st) of (err2, d1) \<Rightarrow>
                (case err2 of
                   Some e \<Rightarrow> (Some (StatusWrap (Some e) ''Failed to remove persistent state for output path'' []), v, d1)
                 | None \<Rightarrow> (None, v, d1)))
             else (None, v, snd st)))"

definition persistentOutputPathFactory_Factory ::
    "('v, 'dd, 'l, 'dg, 'd, 'r, 'w) persistentOutputPathFactory \<Rightarrow> ('v, 'op, 'dd) OutputPathFactory \<Rightarrow>
     ('v \<times> 'd, 'op persistentOutputPath, 'dd) OutputPathFactory" where
  "persistentOutputPathFactory_Factory pf base = \<lparr>
     StartInitialBuild = persistent_StartInitialBuild pf base,
     opf_Clean = persistent_Clean pf base,
     op_directory = (\<lambda>op. op_directory base (pop_OutputPath op)),
     FinalizeBuild = persistent_FinalizeBuild pf base,
     RemoveAllChildren = persistent_RemoveAllChildren pf base\<rparr>"

end
