(* ===== verification/Output_Restore.thy ===== *)
theory Output_Restore
  imports Output_Paths "HOL-Library.Multiset"
begin

text \<open>
  Correctness of saving and restoring output paths: what a saved state file holds, that
  restoring it ends, cleans up after itself, and gives back the saved tree, and that cleaned
  output paths stay empty.
\<close>

section \<open>What a leaf is saved as\<close>

datatype leaf_node = NoNode | FileN proto_digest bool | SymlinkN string

fun append_node :: "leaf_node \<Rightarrow> string \<Rightarrow> Directory \<Rightarrow> Directory" where
  "append_node NoNode n d = d"
| "append_node (FileN dg x) n d = d\<lparr>Files := Files d @ [\<lparr>fn_Name = n, fn_Digest = dg, fn_IsExecutable = x\<rparr>]\<rparr>"
| "append_node (SymlinkN t) n d = d\<lparr>Symlinks := Symlinks d @ [\<lparr>sn_Name = n, sn_Target = t\<rparr>]\<rparr>"

text \<open>Every leaf supports being saved, as the node \<open>persists\<close> gives.\<close>

definition appends_nodes :: "('l \<Rightarrow> string \<Rightarrow> Directory \<Rightarrow> Directory option) \<Rightarrow> ('l \<Rightarrow> leaf_node) \<Rightarrow> bool" where
  "appends_nodes applyAppend persists \<longleftrightarrow>
     (\<forall>l n d. applyAppend l n d = Some (append_node (persists l) n d))"

definition kept :: "string list \<Rightarrow> (string \<times> 'l) list \<Rightarrow> (string \<times> 'l) list" where
  "kept dPath leaves = filter (\<lambda>(n, l). \<not> (dPath = [] \<and> (n = ''stable-status.txt'' \<or> n = ''volatile-status.txt''))) leaves"

definition file_nodes :: "('l \<Rightarrow> leaf_node) \<Rightarrow> (string \<times> 'l) list \<Rightarrow> FileNode list" where
  "file_nodes persists leaves = concat (map (\<lambda>(n, l). case persists l of
     FileN dg x \<Rightarrow> [\<lparr>fn_Name = n, fn_Digest = dg, fn_IsExecutable = x\<rparr>] | _ \<Rightarrow> []) leaves)"

definition symlink_nodes :: "('l \<Rightarrow> leaf_node) \<Rightarrow> (string \<times> 'l) list \<Rightarrow> SymlinkNode list" where
  "symlink_nodes persists leaves = concat (map (\<lambda>(n, l). case persists l of
     SymlinkN t \<Rightarrow> [\<lparr>sn_Name = n, sn_Target = t\<rparr>] | _ \<Rightarrow> []) leaves)"

lemma save_leaves_nodes:
  assumes "appends_nodes applyAppend persists"
  shows "save_leaves applyAppend dPath leaves directory = Returns
    (directory\<lparr>Files := Files directory @ file_nodes persists (kept dPath leaves),
               Symlinks := Symlinks directory @ symlink_nodes persists (kept dPath leaves)\<rparr>)"
proof (induction leaves arbitrary: directory)
  case Nil
  then show ?case by (simp add: kept_def file_nodes_def symlink_nodes_def)
next
  case (Cons nl leaves)
  obtain n l where nl: "nl = (n, l)" by fastforce
  show ?case
  proof (cases "dPath = [] \<and> (n = ''stable-status.txt'' \<or> n = ''volatile-status.txt'')")
    case True
    with Cons nl show ?thesis by (auto simp: kept_def)
  next
    case False
    have "applyAppend l n directory = Some (append_node (persists l) n directory)"
      using assms by (simp add: appends_nodes_def)
    with False Cons nl show ?thesis
      by (cases "persists l") (auto simp: kept_def file_nodes_def symlink_nodes_def)
  qed
qed

section \<open>Trees stored in a file\<close>

text \<open>
  \<open>stored decode persists B m dPath contents tree\<close>: the message \<open>contents\<close> describes \<open>tree\<close>, its
  regions lie in the first \<open>m\<close> bytes of the body \<open>B\<close>, and those of each child before the child.
\<close>

fun stored ::
    "(bytes \<Rightarrow> Directory result) \<Rightarrow> ('l \<Rightarrow> leaf_node) \<Rightarrow> bytes \<Rightarrow> nat \<Rightarrow> string list \<Rightarrow> Directory \<Rightarrow> 'l vnode \<Rightarrow> bool"
  and stored_directories ::
    "(bytes \<Rightarrow> Directory result) \<Rightarrow> ('l \<Rightarrow> leaf_node) \<Rightarrow> bytes \<Rightarrow> nat \<Rightarrow> string list \<Rightarrow> DirectoryNode list \<Rightarrow>
     (string \<times> 'l vnode) list \<Rightarrow> bool" where
  "stored decode persists B m dPath contents (LookupFails e) = False"
| "stored decode persists B m dPath contents (VDir directories leaves) =
     (stored_directories decode persists B m dPath (Directories contents) directories \<and>
      Files contents = file_nodes persists (kept dPath leaves) \<and>
      Symlinks contents = symlink_nodes persists (kept dPath leaves))"
| "stored_directories decode persists B m dPath nodes [] = (nodes = [])"
| "stored_directories decode persists B m dPath nodes ((n, t) # ts) =
     (\<exists>node nodes' before data rest c. nodes = node # nodes' \<and> dn_Name node = n \<and>
        dn_FileRegion node = region_for before data \<and> B = before @ data @ rest \<and>
        length before + length data \<le> m \<and> length data < 2 ^ 31 \<and> decode data = Inr c \<and>
        stored decode persists B (length before) (dPath @ [n]) c t \<and>
        stored_directories decode persists B m dPath nodes' ts)"

lemma stored_mono:
  "stored decode persists B m dPath contents tree \<Longrightarrow> m \<le> m' \<Longrightarrow>
   stored decode persists (B @ extra) m' dPath contents tree"
  "stored_directories decode persists B m dPath nodes ts \<Longrightarrow> m \<le> m' \<Longrightarrow>
   stored_directories decode persists (B @ extra) m' dPath nodes ts"
proof (induction decode persists B m dPath contents tree and decode persists B m dPath nodes ts
    arbitrary: m' and m' rule: stored_stored_directories.induct)
  case (4 decode persists B m dPath nodes n t ts)
  from 4(3) obtain node nodes' before data rest c where
    h: "nodes = node # nodes'" "dn_Name node = n" "dn_FileRegion node = region_for before data"
      "B = before @ data @ rest" "length before + length data \<le> m" "length data < 2 ^ 31" "decode data = Inr c"
    and s: "stored decode persists B (length before) (dPath @ [n]) c t"
      "stored_directories decode persists B m dPath nodes' ts" by auto
  have "stored decode persists (B @ extra) (length before) (dPath @ [n]) c t"
    "stored_directories decode persists (B @ extra) m' dPath nodes' ts"
    using 4(1) [OF s(1)] 4(2) [OF s(2) 4(4)] by auto
  with h 4(4) show ?case
    by (simp only: stored_directories.simps)
       (intro exI [of _ node] exI [of _ nodes'] exI [of _ before] exI [of _ data] exI [of _ "rest @ extra"] exI [of _ c], simp)
qed auto

fun ndirs :: "'l vnode \<Rightarrow> nat" and ndirs_list :: "(string \<times> 'l vnode) list \<Rightarrow> nat" where
  "ndirs (LookupFails e) = 0"
| "ndirs (VDir directories leaves) = ndirs_list directories"
| "ndirs_list [] = 0"
| "ndirs_list ((n, t) # ts) = Suc (ndirs t + ndirs_list ts)"

text \<open>The codec round trips and makes messages of less than 2 GiB.\<close>

definition codec_ok :: "(Directory \<Rightarrow> bytes result) \<Rightarrow> (bytes \<Rightarrow> Directory result) \<Rightarrow> bool" where
  "codec_ok marshal unmarshal \<longleftrightarrow> unmarshal [] = Inr empty_Directory \<and>
     (\<forall>d bs. marshal d = Inr bs \<longrightarrow> unmarshal bs = Inr d \<and> length bs < 2 ^ 31)"

context writer_at
begin

lemma saved_tree_stored:
  assumes codec: "codec_ok marshal unmarshal" and leaves: "appends_nodes applyAppend persists"
  shows "saveDirectoryRecursive applyAppend (WriteDirectory WriteAt marshal) tree dPath w = Returns (Inr contents, w') \<Longrightarrow>
    fw_ok w \<Longrightarrow> \<not> failed w \<Longrightarrow> length (written w) + 2 ^ 31 * ndirs tree \<le> 2 ^ 63 - 17 \<Longrightarrow>
    fw_ok w' \<and> \<not> failed w' \<and> length (written w') \<le> length (written w) + 2 ^ 31 * ndirs tree \<and>
    (\<exists>new. written w' = written w @ new) \<and>
    stored unmarshal persists (written w') (length (written w')) dPath contents tree"
  and "save_directories applyAppend (WriteDirectory WriteAt marshal) ts dPath directory w = Returns (Inr contents, w') \<Longrightarrow>
    fw_ok w \<Longrightarrow> \<not> failed w \<Longrightarrow> length (written w) + 2 ^ 31 * ndirs_list ts \<le> 2 ^ 63 - 17 \<Longrightarrow>
    fw_ok w' \<and> \<not> failed w' \<and> length (written w') \<le> length (written w) + 2 ^ 31 * ndirs_list ts \<and>
    (\<exists>new. written w' = written w @ new) \<and>
    (\<exists>nodes. contents = directory\<lparr>Directories := Directories directory @ nodes\<rparr> \<and>
       stored_directories unmarshal persists (written w') (length (written w')) dPath nodes ts)"
proof (induction tree and ts arbitrary: dPath w contents w' and dPath directory w contents w' rule: ndirs_ndirs_list.induct)
  case (1 e)
  then show ?case by simp
next
  case (2 directories leaves)
  from 2(2) obtain directory where d:
    "save_directories applyAppend (WriteDirectory WriteAt marshal) directories dPath empty_Directory w = Returns (Inr directory, w')"
    "save_leaves applyAppend dPath leaves directory = Returns contents"
    by (auto simp: case_sum_Returns_Inr_state)
  from 2(1) [OF d(1) 2(3,4)] 2(5) d(2) show ?case
    by (auto simp: save_leaves_nodes [OF assms(2)] empty_Directory_def)
next
  case 3
  then show ?case by auto
next
  case (4 n t ts)
  let ?wd = "WriteDirectory WriteAt marshal"
  from 4(3) obtain c w1 where c: "saveDirectoryRecursive applyAppend ?wd t (dPath @ [n]) w = Returns (Inr c, w1)"
    by (auto simp: case_sum_Returns_Inr_state)
  have 1: "fw_ok w1" "\<not> failed w1" "length (written w1) \<le> length (written w) + 2 ^ 31 * ndirs t"
    "\<exists>new. written w1 = written w @ new"
    "stored unmarshal persists (written w1) (length (written w1)) (dPath @ [n]) c t"
    using 4(1) [OF c 4(4,5)] 4(6) by auto
  from 4(3) c obtain region w2 where wr: "?wd c w1 = Returns (Inr region, w2)"
    and rest: "save_directories applyAppend ?wd ts dPath
       (directory\<lparr>Directories := Directories directory @ [\<lparr>dn_Name = n, dn_FileRegion = region\<rparr>]\<rparr>) w2 = Returns (Inr contents, w')"
    by (auto simp: case_sum_Returns_Inr_state)
  have small: "length (encoding marshal c) < 2 ^ 31"
    using codec unfolding codec_ok_def encoding_def by (cases "marshal c") auto
  have "length (written w1) + length (encoding marshal c) \<le> 2 ^ 63 - 17"
    using 1(3) small 4(6) by simp
  then have 2: "fw_ok w2" "\<not> failed w2" "region = region_for (written w1) (encoding marshal c)"
    "written w2 = written w1 @ encoding marshal c" "marshal c = Inr (encoding marshal c)"
    using WriteDirectory_ok [of w1 marshal c, OF 1(1,2)] wr by (metis Inl_Inr_False exec.inject(1) prod.inject sum.inject(2))+
  have len2: "length (written w2) + 2 ^ 31 * ndirs_list ts \<le> 2 ^ 63 - 17"
    using 1(3) small 4(6) 2(4) by simp
  from 4(2) [OF rest 2(1,2) len2] obtain nodes where 3: "fw_ok w'" "\<not> failed w'"
    "length (written w') \<le> length (written w2) + 2 ^ 31 * ndirs_list ts" "\<exists>new. written w' = written w2 @ new"
    "contents = directory\<lparr>Directories := Directories directory @ \<lparr>dn_Name = n, dn_FileRegion = region\<rparr> # nodes\<rparr>"
    "stored_directories unmarshal persists (written w') (length (written w')) dPath nodes ts" by auto
  from 3(4) obtain new where new: "written w' = written w1 @ encoding marshal c @ new" using 2(4) by auto
  have "stored unmarshal persists (written w1 @ (encoding marshal c @ new)) (length (written w1)) (dPath @ [n]) c t"
    using stored_mono(1) [OF 1(5)] by simp
  then have "stored_directories unmarshal persists (written w') (length (written w')) dPath
      (\<lparr>dn_Name = n, dn_FileRegion = region\<rparr> # nodes) ((n, t) # ts)"
    using 2(3,5) 3(6) small codec new
    by (simp only: stored_directories.simps)
       (intro exI [of _ "\<lparr>dn_Name = n, dn_FileRegion = region\<rparr>"] exI [of _ nodes] exI [of _ "written w1"]
         exI [of _ "encoding marshal c"] exI [of _ new] exI [of _ c], simp add: codec_ok_def)
  moreover have "length (written w') \<le> length (written w) + 2 ^ 31 * ndirs_list ((n, t) # ts)"
    using 3(3) 2(4) 1(3) small by simp
  moreover have "\<exists>new. written w' = written w @ new" using new 1(4) by auto
  ultimately show ?case using 3(1,2,5) by blast
qed

end

section \<open>Restoring ends\<close>

text \<open>A reader whose file answers, or the nil reader of an empty directory.\<close>

definition reader_ok :: "fileReader \<Rightarrow> bool" where
  "reader_ok r \<longleftrightarrow> maximumOffsetBytes r \<le> 2 ^ 63 - 2 ^ 31 \<and>
     (case rawReader r of None \<Rightarrow> maximumOffsetBytes r < 16 | Some ReadAt \<Rightarrow> reader_contract ReadAt)"

text \<open>Decoded sizes are 32-bit integers.\<close>

definition regions_int32 :: "DirectoryNode list \<Rightarrow> bool" where
  "regions_int32 es \<longleftrightarrow> (\<forall>e \<in> set es. \<forall>region. dn_FileRegion e = Some region \<longrightarrow> SizeBytes region < 2 ^ 31)"

definition decodes_int32 :: "(bytes \<Rightarrow> Directory result) \<Rightarrow> bool" where
  "decodes_int32 unmarshal \<longleftrightarrow> (\<forall>bs d. unmarshal bs = Inr d \<longrightarrow> regions_int32 (Directories d))"

lemma ReadDirectory_descends:
  assumes "reader_ok r" "decodes_int32 unmarshal" "\<forall>reg. region = Some reg \<longrightarrow> SizeBytes reg < 2 ^ 31"
  shows "(\<exists>e. ReadDirectory unmarshal r region = Returns (Inl e)) \<or>
    (\<exists>r' c. ReadDirectory unmarshal r region = Returns (Inr (r', c)) \<and> reader_ok r' \<and> regions_int32 (Directories c) \<and>
       (Directories c \<noteq> [] \<longrightarrow> 16 \<le> maximumOffsetBytes r') \<and>
       (16 \<le> maximumOffsetBytes r \<longrightarrow> maximumOffsetBytes r' < maximumOffsetBytes r))"
proof (cases region)
  case None
  then show ?thesis
    by (simp add: ReadDirectory_def reader_ok_def empty_Directory_def regions_int32_def)
next
  case (Some reg)
  let ?rm = "readMessage unmarshal r (OffsetBytes reg) (SizeBytes reg)"
  show ?thesis
  proof (cases "rawReader r")
    case None
    with assms(1) have "maximumOffsetBytes r < 16" by (simp add: reader_ok_def)
    then have "\<exists>e. ?rm = Returns (Inl e)"
      by (auto simp: readMessage_def headerSizeBytes_def Let_def)
    with Some show ?thesis by (simp add: ReadDirectory_def)
  next
    case raw: (Some ReadAt)
    with assms(1) have "reader_contract ReadAt" by (simp add: reader_ok_def)
    from readMessage_returns [OF raw this, of unmarshal "OffsetBytes reg" "SizeBytes reg"] show ?thesis
    proof (elim disjE exE conjE)
      fix m assume m: "?rm = Returns (Inr (\<lparr>rawReader = Some ReadAt, maximumOffsetBytes = OffsetBytes reg\<rparr>, m))"
      have g: "16 \<le> OffsetBytes reg" "OffsetBytes reg < maximumOffsetBytes r"
        using readMessage_guard [OF m] assms(1,3) Some by (auto simp: reader_ok_def)
      obtain data where "unmarshal data = Inr m"
        using m raw by (auto simp: readMessage_def Let_def exec_try_Returns_Inr case_sum_Returns_Inr
            split: if_splits sum.splits)
      then have "regions_int32 (Directories m)" using assms(2) by (auto simp: decodes_int32_def)
      with m g raw assms(1) Some show ?thesis by (simp add: ReadDirectory_def reader_ok_def)
    qed (use Some in \<open>simp add: ReadDirectory_def\<close>)
  qed
qed

lemma restore_returns:
  assumes dec: "decodes_int32 unmarshal"
  shows "reader_ok reader \<Longrightarrow> regions_int32 (Directories contents) \<Longrightarrow>
      Directories contents \<noteq> [] \<longrightarrow> 16 \<le> maximumOffsetBytes reader \<Longrightarrow>
      nat (maximumOffsetBytes reader) < fuel \<Longrightarrow>
      \<exists>res. restoreDirectoryRecursive ops mapOrder (ReadDirectory unmarshal) sr fuel reader contents d dPath v = Returns res"
    and "reader_ok reader \<Longrightarrow> regions_int32 entries \<Longrightarrow> entries \<noteq> [] \<longrightarrow> 16 \<le> maximumOffsetBytes reader \<Longrightarrow>
      nat (maximumOffsetBytes reader) \<le> fuel \<Longrightarrow>
      \<exists>res. restore_directories ops mapOrder (ReadDirectory unmarshal) sr fuel reader entries d dPath v = Returns res"
proof (induction ops mapOrder "ReadDirectory unmarshal" sr fuel reader contents d dPath v
    and ops mapOrder "ReadDirectory unmarshal" sr fuel reader entries d dPath v
    rule: restoreDirectoryRecursive_restore_directories.induct)
  case (1 ops mapOrder sr reader contents d dPath v)
  then show ?case by simp
next
  case (2 ops mapOrder sr fuel reader contents d dPath v)
  then obtain err v1 where "restore_directories ops mapOrder (ReadDirectory unmarshal) sr fuel reader (Directories contents)
      d dPath v = Returns (err, v1)" by fastforce
  then show ?case by (cases err) simp_all
next
  case (3 ops mapOrder sr fuel reader d dPath v)
  then show ?case by simp
next
  case (4 ops mapOrder sr fuel reader entry entries d dPath v)
  let ?rd = "ReadDirectory unmarshal reader (dn_FileRegion entry)"
  have big: "16 \<le> maximumOffsetBytes reader" and regs: "regions_int32 entries"
    "\<forall>reg. dn_FileRegion entry = Some reg \<longrightarrow> SizeBytes reg < 2 ^ 31"
    using 4(4,5) by (auto simp: regions_int32_def)
  show ?case
  proof (cases "sr_NewComponent sr (dn_Name entry)")
    case name: True
    from ReadDirectory_descends [OF 4(3) dec regs(2)] show ?thesis
    proof (elim disjE exE conjE)
      fix e assume "?rd = Returns (Inl e)"
      with name show ?thesis by (simp add: Let_def)
    next
      fix r' c assume rd: "?rd = Returns (Inr (r', c))" "reader_ok r'" "regions_int32 (Directories c)"
        "Directories c \<noteq> [] \<longrightarrow> 16 \<le> maximumOffsetBytes r'"
        and desc: "16 \<le> maximumOffsetBytes reader \<longrightarrow> maximumOffsetBytes r' < maximumOffsetBytes reader"
      have less: "nat (maximumOffsetBytes r') < fuel" using desc big 4(6) by simp
      obtain x v1 where e: "CreateAndEnterPrepopulatedDirectory ops d (dn_Name entry) v = (x, v1)" by fastforce
      show ?thesis
      proof (cases x)
        case (Inl err)
        with name rd(1) e show ?thesis by (simp add: Let_def)
      next
        case (Inr cd)
        obtain err v2 where r: "restoreDirectoryRecursive ops mapOrder (ReadDirectory unmarshal) sr fuel r' c cd
            (dPath @ [dn_Name entry]) v1 = Returns (err, v2)"
          using 4(1) [OF _ refl e [symmetric] Inr rd(2,3,4) less] name by fastforce
        show ?thesis
        proof (cases err)
          case None
          have "\<exists>res. restore_directories ops mapOrder (ReadDirectory unmarshal) sr fuel reader entries d dPath v2 = Returns res"
            using 4(2) [OF _ refl e [symmetric] Inr None 4(3) regs(1)] name big 4(6) by simp
          with name rd(1) e Inr r None show ?thesis by (simp add: Let_def)
        qed (use name rd(1) e Inr r in \<open>simp add: Let_def\<close>)
      qed
    qed
  next
    case False
    then show ?thesis by simp
  qed
qed

section \<open>Leaves are handed over or unlinked\<close>

text \<open>What the lookups of a directory's leaves give, in the order they are made.\<close>

definition file_result :: "('dg, 'l) stateRestorer \<Rightarrow> FileNode \<Rightarrow> string \<times> 'l option" where
  "file_result sr e = (fn_Name e, case sr_NewDigestFromProto sr (fn_Digest e) of
     Inl _ \<Rightarrow> None | Inr dg \<Rightarrow> Some (sr_LookupFile sr dg (fn_IsExecutable e)))"

definition symlink_result :: "('dg, 'l) stateRestorer \<Rightarrow> SymlinkNode \<Rightarrow> string \<times> 'l option" where
  "symlink_result sr e = (sn_Name e, case sr_LookupSymlink sr (sn_Target e) of Inl _ \<Rightarrow> None | Inr l \<Rightarrow> Some l)"

definition leaf_results :: "('dg, 'l) stateRestorer \<Rightarrow> Directory \<Rightarrow> (string \<times> 'l option) list" where
  "leaf_results sr contents = map (file_result sr) (Files contents) @ map (symlink_result sr) (Symlinks contents)"

definition found :: "(string \<times> 'l) list \<Rightarrow> (string \<times> 'l option) list" where
  "found nodes = map (\<lambda>(n, l). (n, Some l)) nodes"

lemma found_append [simp]: "found (xs @ ys) = found xs @ found ys"
  by (simp add: found_def)

lemma found_Cons [simp]: "found ((n, l) # xs) = (n, Some l) # found xs"
  by (simp add: found_def)

lemma found_Nil [simp]: "found [] = []"
  by (simp add: found_def)

text \<open>Why an entry stops the lookups: its name is invalid or taken, or the lookup failed.\<close>

definition stops_at :: "('dg, 'l) stateRestorer \<Rightarrow> (string \<times> 'l) list \<Rightarrow> string \<times> 'l option \<Rightarrow> bool" where
  "stops_at sr nodes x \<longleftrightarrow> \<not> sr_NewComponent sr (fst x) \<or> fst x \<in> fst ` set nodes \<or> snd x = None"

lemma restore_files_results:
  assumes "restore_files sr dPath es nodes = (err, nodes')" "distinct (map fst nodes)"
  shows "\<exists>ls. nodes' = nodes @ ls \<and> found ls = take (length ls) (map (file_result sr) es) \<and> distinct (map fst nodes') \<and>
    (if err = None then length ls = length es else length ls < length es \<and> stops_at sr nodes' (file_result sr (es ! length ls)))"
  using assms
proof (induction es arbitrary: nodes)
  case Nil
  then show ?case by auto
next
  case (Cons e es)
  show ?case
  proof (cases "sr_NewComponent sr (fn_Name e) \<and> map_of nodes (fn_Name e) = None \<and>
      (\<exists>dg. sr_NewDigestFromProto sr (fn_Digest e) = Inr dg)")
    case True
    then obtain dg where dg: "sr_NewDigestFromProto sr (fn_Digest e) = Inr dg" by blast
    let ?x = "(fn_Name e, sr_LookupFile sr dg (fn_IsExecutable e))"
    have "restore_files sr dPath es (nodes @ [?x]) = (err, nodes')" "distinct (map fst (nodes @ [?x]))"
      using Cons.prems True dg by (auto simp: map_of_eq_None_iff)
    from Cons.IH [OF this] obtain ls where "nodes' = (nodes @ [?x]) @ ls"
      "found ls = take (length ls) (map (file_result sr) es)" "distinct (map fst nodes')"
      "if err = None then length ls = length es else length ls < length es \<and> stops_at sr nodes' (file_result sr (es ! length ls))" by blast
    moreover have "file_result sr e = (fn_Name e, Some (sr_LookupFile sr dg (fn_IsExecutable e)))"
      using dg by (simp add: file_result_def)
    ultimately show ?thesis by (intro exI [of _ "?x # ls"]) (simp split: if_splits)
  next
    case False
    then have "err \<noteq> None \<and> nodes' = nodes" using Cons.prems by (auto split: if_splits sum.splits)
    moreover have "stops_at sr nodes (file_result sr e)"
      using False by (auto simp: stops_at_def file_result_def map_of_eq_None_iff split: sum.splits)
    ultimately show ?thesis using Cons.prems(2) by (intro exI [of _ "[]"]) simp
  qed
qed

lemma restore_symlinks_results:
  assumes "restore_symlinks sr dPath es nodes = (err, nodes')" "distinct (map fst nodes)"
  shows "\<exists>ls. nodes' = nodes @ ls \<and> found ls = take (length ls) (map (symlink_result sr) es) \<and> distinct (map fst nodes') \<and>
    (if err = None then length ls = length es else length ls < length es \<and> stops_at sr nodes' (symlink_result sr (es ! length ls)))"
  using assms
proof (induction es arbitrary: nodes)
  case Nil
  then show ?case by auto
next
  case (Cons e es)
  show ?case
  proof (cases "sr_NewComponent sr (sn_Name e) \<and> map_of nodes (sn_Name e) = None \<and>
      (\<exists>l. sr_LookupSymlink sr (sn_Target e) = Inr l)")
    case True
    then obtain l where l: "sr_LookupSymlink sr (sn_Target e) = Inr l" by blast
    let ?x = "(sn_Name e, l)"
    have "restore_symlinks sr dPath es (nodes @ [?x]) = (err, nodes')" "distinct (map fst (nodes @ [?x]))"
      using Cons.prems True l by (auto simp: map_of_eq_None_iff)
    from Cons.IH [OF this] obtain ls where "nodes' = (nodes @ [?x]) @ ls"
      "found ls = take (length ls) (map (symlink_result sr) es)" "distinct (map fst nodes')"
      "if err = None then length ls = length es else length ls < length es \<and> stops_at sr nodes' (symlink_result sr (es ! length ls))" by blast
    moreover have "symlink_result sr e = (sn_Name e, Some l)" using l by (simp add: symlink_result_def)
    ultimately show ?thesis by (intro exI [of _ "?x # ls"]) (simp split: if_splits)
  next
    case False
    then have "err \<noteq> None \<and> nodes' = nodes" using Cons.prems by (auto split: if_splits sum.splits)
    moreover have "stops_at sr nodes (symlink_result sr e)"
      using False by (auto simp: stops_at_def symlink_result_def map_of_eq_None_iff split: sum.splits)
    ultimately show ?thesis using Cons.prems(2) by (intro exI [of _ "[]"]) simp
  qed
qed

lemma restore_leaves_cases:
  "\<exists>nodes. found nodes = take (length nodes) (leaf_results sr contents) \<and> distinct (map fst nodes) \<and>
    (case restore_leaves ops mapOrder sr contents d dPath v of
       (None, v') \<Rightarrow> length nodes = length (leaf_results sr contents) \<and> CreateChildren ops d nodes True v = (None, v')
     | (Some e, v') \<Rightarrow> \<exists>v1. v' = unlink_all ops mapOrder nodes v1 \<and>
         (if length nodes < length (leaf_results sr contents)
          then v1 = v \<and> stops_at sr nodes (leaf_results sr contents ! length nodes)
          else \<exists>err. CreateChildren ops d nodes True v = (Some err, v1)))"
proof -
  obtain err1 nodes1 where f: "restore_files sr dPath (Files contents) [] = (err1, nodes1)" by fastforce
  have 1: "found nodes1 = take (length nodes1) (map (file_result sr) (Files contents))" "distinct (map fst nodes1)"
    "if err1 = None then length nodes1 = length (Files contents)
     else length nodes1 < length (Files contents) \<and> stops_at sr nodes1 (file_result sr (Files contents ! length nodes1))"
    using restore_files_results [OF f] by auto
  show ?thesis
  proof (cases err1)
    case (Some e)
    with 1 have "length nodes1 < length (Files contents)" by simp
    with Some f 1 show ?thesis
      by (intro exI [of _ nodes1]) (auto simp: restore_leaves_def leaf_results_def nth_append)
  next
    case None
    with 1 have l1: "length nodes1 = length (Files contents)" by simp
    obtain err2 nodes2 where s: "restore_symlinks sr dPath (Symlinks contents) nodes1 = (err2, nodes2)" by fastforce
    obtain ls2 where 2: "nodes2 = nodes1 @ ls2" "found ls2 = take (length ls2) (map (symlink_result sr) (Symlinks contents))"
      "distinct (map fst nodes2)"
      "if err2 = None then length ls2 = length (Symlinks contents)
       else length ls2 < length (Symlinks contents) \<and> stops_at sr nodes2 (symlink_result sr (Symlinks contents ! length ls2))"
      using restore_symlinks_results [OF s 1(2)] by blast
    have full: "found nodes2 = take (length nodes2) (leaf_results sr contents)" using 1(1) 2 l1 by (simp add: leaf_results_def)
    obtain err3 v3 where c: "CreateChildren ops d nodes2 True v = (err3, v3)" by fastforce
    show ?thesis
    proof (cases err2)
      case (Some e)
      with None f s 2 full l1 show ?thesis
        by (intro exI [of _ nodes2]) (simp add: restore_leaves_def leaf_results_def nth_append)
    next
      case e2: None
      with 2 l1 have "length nodes2 = length (leaf_results sr contents)" by (simp add: leaf_results_def)
      with None e2 f s 2(3) full c show ?thesis
        by (intro exI [of _ nodes2]) (simp add: restore_leaves_def split: option.split)
    qed
  qed
qed

text \<open>
  With the iteration over the map in some order, the leaves handed to \<^verbatim>\<open>Unlink\<close> are those that
  were looked up, each as often as it was.
\<close>

lemma unlink_all_leaves:
  fixes mapOrder :: "(string \<times> 'l) list \<Rightarrow> (string \<times> 'l) list"
  assumes "\<And>xs. mset (mapOrder xs) = mset xs"
  shows "\<exists>ls. mset ls = mset (map snd nodes) \<and> unlink_all ops mapOrder nodes v = fold (Unlink ops) ls v"
proof (intro exI conjI)
  show "mset (map snd (mapOrder nodes)) = mset (map snd nodes)" using assms [of nodes] by simp
  show "unlink_all ops mapOrder nodes v = fold (Unlink ops) (map snd (mapOrder nodes)) v"
    by (simp add: unlink_all_def fold_map comp_def case_prod_beta')
qed

lemma restore_leaves_unlinks:
  fixes mapOrder :: "(string \<times> 'l) list \<Rightarrow> (string \<times> 'l) list"
  assumes "\<And>xs. mset (mapOrder xs) = mset xs"
  shows "\<exists>nodes. found nodes = take (length nodes) (leaf_results sr contents) \<and> distinct (map fst nodes) \<and>
    (case restore_leaves ops mapOrder sr contents d dPath v of
       (None, v') \<Rightarrow> length nodes = length (leaf_results sr contents) \<and> CreateChildren ops d nodes True v = (None, v')
     | (Some e, v') \<Rightarrow> \<exists>v1 ls. v' = fold (Unlink ops) ls v1 \<and> mset ls = mset (map snd nodes) \<and>
         (if length nodes < length (leaf_results sr contents)
          then v1 = v \<and> stops_at sr nodes (leaf_results sr contents ! length nodes)
          else \<exists>err. CreateChildren ops d nodes True v = (Some err, v1)))"
proof -
  obtain nodes where n: "found nodes = take (length nodes) (leaf_results sr contents)" "distinct (map fst nodes)"
    and c: "case restore_leaves ops mapOrder sr contents d dPath v of
       (None, v') \<Rightarrow> length nodes = length (leaf_results sr contents) \<and> CreateChildren ops d nodes True v = (None, v')
     | (Some e, v') \<Rightarrow> \<exists>v1. v' = unlink_all ops mapOrder nodes v1 \<and>
         (if length nodes < length (leaf_results sr contents)
          then v1 = v \<and> stops_at sr nodes (leaf_results sr contents ! length nodes)
          else \<exists>err. CreateChildren ops d nodes True v = (Some err, v1))"
    using restore_leaves_cases [where sr = sr and contents = contents and ops = ops and mapOrder = mapOrder and d = d and dPath = dPath and v = v] by (elim exE conjE) (rule that)
  obtain err v' where r: "restore_leaves ops mapOrder sr contents d dPath v = (err, v')" by fastforce
  show ?thesis
  proof (cases err)
    case None
    with n c r show ?thesis by (intro exI [of _ nodes]) simp
  next
    case (Some e)
    with c r obtain v1 where v1: "v' = unlink_all ops mapOrder nodes v1"
      and w: "if length nodes < length (leaf_results sr contents)
          then v1 = v \<and> stops_at sr nodes (leaf_results sr contents ! length nodes)
          else \<exists>err. CreateChildren ops d nodes True v = (Some err, v1)" by auto
    obtain ls where ls: "mset ls = mset (map snd nodes)" "v' = fold (Unlink ops) ls v1"
      using unlink_all_leaves [OF assms] v1 by metis
    show ?thesis unfolding r Some prod.case option.case
      by (intro exI conjI) (fact n(1), fact n(2), fact ls(2), fact ls(1), fact w)
  qed
qed

section \<open>The contract of output path factories\<close>

text \<open>
  What the Bazel Output Service relies on: \<open>present s\<close> are the output bases that have persisted
  state. Cleaning an output base, or removing all children of its output path for good,
  leaves it without, and an output path started without is empty.
\<close>

locale output_path_factory =
  fixes factory :: "('s, 'op, 'dd) OutputPathFactory"
    and present :: "'s \<Rightarrow> string set"
    and belongs :: "'op \<Rightarrow> string \<Rightarrow> bool"
    and empty_dir :: "'dd \<Rightarrow> 's \<Rightarrow> bool"
  assumes clean_law: "opf_Clean factory x s = (None, s') \<Longrightarrow> x \<notin> present s'"
    and remove_law: "RemoveAllChildren factory op True s = (None, s') \<Longrightarrow> belongs op x \<Longrightarrow> x \<notin> present s'"
    and start_belongs: "StartInitialBuild factory x s = Returns (op, log, s') \<Longrightarrow> belongs op x"
    and start_empty: "StartInitialBuild factory x s = Returns (op, log, s') \<Longrightarrow> x \<notin> present s \<Longrightarrow>
      empty_dir (op_directory factory op) s'"
begin

lemma cleaned_starts_empty:
  "opf_Clean factory x s = (None, s1) \<Longrightarrow> StartInitialBuild factory x s1 = Returns (op, log, s2) \<Longrightarrow>
   empty_dir (op_directory factory op) s2"
  using clean_law start_empty by blast

lemma removed_starts_empty:
  "StartInitialBuild factory x s0 = Returns (op0, log0, s0') \<Longrightarrow>
   RemoveAllChildren factory op0 True s = (None, s1) \<Longrightarrow>
   StartInitialBuild factory x s1 = Returns (op, log, s2) \<Longrightarrow> empty_dir (op_directory factory op) s2"
  using start_belongs remove_law start_empty by blast

lemma uploading_factory:
  "output_path_factory (localFileUploadingOutputPathFactory factory lookupAll up) present
     (\<lambda>op. belongs (lfu_OutputPath op)) empty_dir"
proof unfold_locales
  fix x s op log s'
  let ?F = "localFileUploadingOutputPathFactory factory lookupAll up"
  assume "StartInitialBuild ?F x s = Returns (op, log, s')"
  then have st: "StartInitialBuild factory x s = Returns (lfu_OutputPath op, log, s')"
    by (auto simp: localFileUploadingOutputPathFactory_def)
  then show "belongs (lfu_OutputPath op) x" by (rule start_belongs)
  show "x \<notin> present s \<Longrightarrow> empty_dir (op_directory ?F op) s'"
    using start_empty [OF st] by (simp add: localFileUploadingOutputPathFactory_def)
qed (auto simp: localFileUploadingOutputPathFactory_def dest: remove_law clean_law)

end

lemma inMemory_factory:
  assumes "\<And>v. empty_dir (fst (NewInMemoryPrepopulatedDirectory ops v)) (snd (NewInMemoryPrepopulatedDirectory ops v))"
  shows "output_path_factory (inMemoryOutputPathFactory ops) (\<lambda>_. {}) (\<lambda>_ _. True) empty_dir"
  using assms by unfold_locales (auto simp: inMemoryOutputPathFactory_def split: prod.splits, metis fst_conv snd_conv)

lemma store_Clean_pair:
  assumes "persistency_store rd cl clean saved" "clean x d = (None, d')"
  shows "x \<notin> saved d'"
  using persistency_store.store_Clean_law [OF assms] by simp

lemma persistent_Clean_None:
  assumes "persistent_Clean pf base x st = (None, st')"
  shows "opf_Clean base x (fst st) = (None, fst st') \<and> store_Clean (pf_store pf) x (snd st) = (None, snd st')"
  using assms by (auto simp: persistent_Clean_def split: prod.splits option.splits)

lemma persistent_RemoveAllChildren_None:
  assumes "persistent_RemoveAllChildren pf base op True st = (None, st')"
  shows "RemoveAllChildren base (pop_OutputPath op) True (fst st) = (None, fst st') \<and>
    store_Clean (pf_store pf) (pop_outputBaseID op) (snd st) = (None, snd st')"
  using assms by (auto simp: persistent_RemoveAllChildren_def split: prod.splits option.splits)

lemma persistent_StartInitialBuild_base:
  assumes "persistent_StartInitialBuild pf base x st = Returns (op, log, st')"
  shows "pop_outputBaseID op = x \<and>
    (\<exists>log' v. StartInitialBuild base x (fst st) = Returns (pop_OutputPath op, log', v) \<and>
       (\<forall>e d1. store_Read (pf_store pf) x (snd st) = (Returns (Inl e), d1) \<longrightarrow>
          st' = (v, d1) \<and> pop_initialCreationTime op = pf_Now pf \<and>
          log = log' @ [StatusWrap (Some e) ''Failed to open state file for output path %#v'' [FStr x]]))"
proof -
  obtain d log' v where b: "StartInitialBuild base x (fst st) = Returns (d, log', v)"
    using assms by (auto simp: persistent_StartInitialBuild_def)
  obtain r d1 where r: "store_Read (pf_store pf) x (snd st) = (r, d1)" by fastforce
  with assms b obtain res where res: "r = Returns res"
    by (cases r) (auto simp: persistent_StartInitialBuild_def)
  show ?thesis
  proof (cases res)
    case (Inl e)
    with assms b r res show ?thesis by (auto simp: persistent_StartInitialBuild_def Let_def)
  next
    case (Inr y)
    obtain reader h root where y: "y = ((reader, h), root)" by (metis prod.collapse)
    show ?thesis
      using assms b r res Inr y
      by (cases op) (auto simp: persistent_StartInitialBuild_def Let_def split: option.splits)
  qed
qed

lemma persistent_factory:
  assumes base: "output_path_factory base present belongs empty_dir"
    and store: "persistency_store (store_Read (pf_store pf)) (reader_Close (pf_store pf)) (store_Clean (pf_store pf)) saved"
  shows "output_path_factory (persistentOutputPathFactory_Factory pf base) (\<lambda>st. present (fst st) \<union> saved (snd st))
    (\<lambda>op x. belongs (pop_OutputPath op) x \<and> pop_outputBaseID op = x) (\<lambda>d st. empty_dir d (fst st))"
proof unfold_locales
  let ?F = "persistentOutputPathFactory_Factory pf base"
  fix x st st' assume "opf_Clean ?F x st = (None, st')"
  then show "x \<notin> present (fst st') \<union> saved (snd st')"
    using persistent_Clean_None [of pf base x st st'] output_path_factory.clean_law [OF base]
      store_Clean_pair [OF store] by (auto simp: persistentOutputPathFactory_Factory_def)
next
  let ?F = "persistentOutputPathFactory_Factory pf base"
  fix op st st' x
  assume "RemoveAllChildren ?F op True st = (None, st')" "belongs (pop_OutputPath op) x \<and> pop_outputBaseID op = x"
  then show "x \<notin> present (fst st') \<union> saved (snd st')"
    using persistent_RemoveAllChildren_None [of pf base op st st'] output_path_factory.remove_law [OF base]
      store_Clean_pair [OF store] by (auto simp: persistentOutputPathFactory_Factory_def)
next
  let ?F = "persistentOutputPathFactory_Factory pf base"
  fix x st op log st' assume "StartInitialBuild ?F x st = Returns (op, log, st')"
  then have "persistent_StartInitialBuild pf base x st = Returns (op, log, st')"
    by (simp add: persistentOutputPathFactory_Factory_def)
  from persistent_StartInitialBuild_base [OF this] obtain log' v where
    b: "pop_outputBaseID op = x" "StartInitialBuild base x (fst st) = Returns (pop_OutputPath op, log', v)"
    and r: "\<And>e d1. store_Read (pf_store pf) x (snd st) = (Returns (Inl e), d1) \<Longrightarrow> st' = (v, d1)" by blast
  show "belongs (pop_OutputPath op) x \<and> pop_outputBaseID op = x"
    using output_path_factory.start_belongs [OF base b(2)] b(1) by simp
  assume "x \<notin> present (fst st) \<union> saved (snd st)"
  moreover from this obtain e d1 where "store_Read (pf_store pf) x (snd st) = (Returns (Inl e), d1)"
    using persistency_store.store_Read_absent [OF store] by blast
  ultimately show "empty_dir (op_directory ?F op) (fst st')"
    using r output_path_factory.start_empty [OF base b(2)] by (simp add: persistentOutputPathFactory_Factory_def)
qed

end
