(* ===== verification/Output_Roundtrip.thy ===== *)
theory Output_Roundtrip
  imports Output_Restore "HOL-Library.Sublist"
begin

text \<open>
  Restoring gives back what was saved: the tree a successful restore leaves in the virtual file
  system is the tree that was saved, for every state file that saving produced.
\<close>

section \<open>What a restored tree holds\<close>

fun restored_leaf :: "('dg, 'l) stateRestorer \<Rightarrow> leaf_node \<Rightarrow> 'l option" where
  "restored_leaf sr NoNode = None"
| "restored_leaf sr (FileN dg x) =
     (case sr_NewDigestFromProto sr dg of Inl _ \<Rightarrow> None | Inr d \<Rightarrow> Some (sr_LookupFile sr d x))"
| "restored_leaf sr (SymlinkN t) = (case sr_LookupSymlink sr t of Inl _ \<Rightarrow> None | Inr l \<Rightarrow> Some l)"

text \<open>The leaves of a saved tree by their paths, as far as they can be persisted.\<close>

fun view :: "('dg, 'l) stateRestorer \<Rightarrow> ('l \<Rightarrow> leaf_node) \<Rightarrow> string list \<Rightarrow> 'l vnode \<Rightarrow> string list \<Rightarrow> 'l option" where
  "view sr persists dPath (LookupFails e) q = None"
| "view sr persists dPath (VDir directories leaves) [] = None"
| "view sr persists dPath (VDir directories leaves) [n] =
     (case map_of (kept dPath leaves) n of None \<Rightarrow> None | Some l \<Rightarrow> restored_leaf sr (persists l))"
| "view sr persists dPath (VDir directories leaves) (n # m # q) =
     (case map_of directories n of None \<Rightarrow> None | Some t \<Rightarrow> view sr persists (dPath @ [n]) t (m # q))"

text \<open>Every name occurs once in its directory.\<close>

fun wf_tree :: "'l vnode \<Rightarrow> bool" and wf_trees :: "(string \<times> 'l vnode) list \<Rightarrow> bool" where
  "wf_tree (LookupFails e) = True"
| "wf_tree (VDir directories leaves) = (distinct (map fst directories @ map fst leaves) \<and> wf_trees directories)"
| "wf_trees [] = True"
| "wf_trees ((n, t) # ts) = (wf_tree t \<and> wf_trees ts)"

lemma found_mem: "(n, Some l) \<in> set (found nodes) \<longleftrightarrow> (n, l) \<in> set nodes"
  by (force simp: found_def)

lemma file_nodes_mem:
  "e \<in> set (file_nodes persists ls) \<longleftrightarrow>
   (\<exists>n l dg x. (n, l) \<in> set ls \<and> persists l = FileN dg x \<and> e = \<lparr>fn_Name = n, fn_Digest = dg, fn_IsExecutable = x\<rparr>)"
proof
  assume "e \<in> set (file_nodes persists ls)"
  then obtain n l where "(n, l) \<in> set ls" "e \<in> set (case persists l of
      FileN dg x \<Rightarrow> [\<lparr>fn_Name = n, fn_Digest = dg, fn_IsExecutable = x\<rparr>] | _ \<Rightarrow> [])"
    by (auto simp: file_nodes_def)
  then show "\<exists>n l dg x. (n, l) \<in> set ls \<and> persists l = FileN dg x \<and>
      e = \<lparr>fn_Name = n, fn_Digest = dg, fn_IsExecutable = x\<rparr>"
    by (cases "persists l") auto
next
  assume "\<exists>n l dg x. (n, l) \<in> set ls \<and> persists l = FileN dg x \<and>
      e = \<lparr>fn_Name = n, fn_Digest = dg, fn_IsExecutable = x\<rparr>"
  then show "e \<in> set (file_nodes persists ls)"
    by (auto simp: file_nodes_def intro: rev_bexI)
qed

lemma symlink_nodes_mem:
  "e \<in> set (symlink_nodes persists ls) \<longleftrightarrow>
   (\<exists>n l t. (n, l) \<in> set ls \<and> persists l = SymlinkN t \<and> e = \<lparr>sn_Name = n, sn_Target = t\<rparr>)"
proof
  assume "e \<in> set (symlink_nodes persists ls)"
  then obtain n l where "(n, l) \<in> set ls" "e \<in> set (case persists l of
      SymlinkN t \<Rightarrow> [\<lparr>sn_Name = n, sn_Target = t\<rparr>] | _ \<Rightarrow> [])"
    by (auto simp: symlink_nodes_def)
  then show "\<exists>n l t. (n, l) \<in> set ls \<and> persists l = SymlinkN t \<and> e = \<lparr>sn_Name = n, sn_Target = t\<rparr>"
    by (cases "persists l") auto
next
  assume "\<exists>n l t. (n, l) \<in> set ls \<and> persists l = SymlinkN t \<and> e = \<lparr>sn_Name = n, sn_Target = t\<rparr>"
  then show "e \<in> set (symlink_nodes persists ls)"
    by (auto simp: symlink_nodes_def intro: rev_bexI)
qed

lemma leaf_results_mem:
  assumes "Files contents = file_nodes persists ls" "Symlinks contents = symlink_nodes persists ls"
  shows "(n, Some l') \<in> set (leaf_results sr contents) \<longleftrightarrow>
    (\<exists>l. (n, l) \<in> set ls \<and> restored_leaf sr (persists l) = Some l')"
proof
  assume "(n, Some l') \<in> set (leaf_results sr contents)"
  then consider e where "e \<in> set (file_nodes persists ls)" "file_result sr e = (n, Some l')"
    | e where "e \<in> set (symlink_nodes persists ls)" "symlink_result sr e = (n, Some l')"
    by (auto simp: leaf_results_def assms image_iff)
  then show "\<exists>l. (n, l) \<in> set ls \<and> restored_leaf sr (persists l) = Some l'"
  proof cases
    case 1
    then obtain m l dg x where e: "(m, l) \<in> set ls" "persists l = FileN dg x"
      "e = \<lparr>fn_Name = m, fn_Digest = dg, fn_IsExecutable = x\<rparr>" unfolding file_nodes_mem by blast
    with 1(2) show ?thesis by (intro exI [of _ l]) (auto simp: file_result_def split: sum.splits)
  next
    case 2
    then obtain m l t where e: "(m, l) \<in> set ls" "persists l = SymlinkN t"
      "e = \<lparr>sn_Name = m, sn_Target = t\<rparr>" unfolding symlink_nodes_mem by blast
    with 2(2) show ?thesis by (intro exI [of _ l]) (auto simp: symlink_result_def split: sum.splits)
  qed
next
  assume "\<exists>l. (n, l) \<in> set ls \<and> restored_leaf sr (persists l) = Some l'"
  then obtain l where l: "(n, l) \<in> set ls" "restored_leaf sr (persists l) = Some l'" by blast
  show "(n, Some l') \<in> set (leaf_results sr contents)"
  proof (cases "persists l")
    case (FileN dg x)
    let ?e = "\<lparr>fn_Name = n, fn_Digest = dg, fn_IsExecutable = x\<rparr>"
    have "?e \<in> set (file_nodes persists ls)" using l FileN by (auto simp: file_nodes_mem)
    moreover have "file_result sr ?e = (n, Some l')"
      using l FileN by (auto simp: file_result_def split: sum.splits)
    ultimately show ?thesis unfolding leaf_results_def assms by (metis UnI1 image_eqI set_append set_map)
  next
    case (SymlinkN t)
    let ?e = "\<lparr>sn_Name = n, sn_Target = t\<rparr>"
    have "?e \<in> set (symlink_nodes persists ls)" using l SymlinkN by (auto simp: symlink_nodes_mem)
    moreover have "symlink_result sr ?e = (n, Some l')"
      using l SymlinkN by (auto simp: symlink_result_def split: sum.splits)
    ultimately show ?thesis unfolding leaf_results_def assms by (metis UnI2 image_eqI set_append set_map)
  qed (use l in simp)
qed

lemma restored_leaves_map:
  assumes "found nodes = leaf_results sr contents" "distinct (map fst nodes)"
    and "Files contents = file_nodes persists ls" "Symlinks contents = symlink_nodes persists ls" "distinct (map fst ls)"
  shows "map_of nodes n = (case map_of ls n of None \<Rightarrow> None | Some l \<Rightarrow> restored_leaf sr (persists l))"
proof -
  have "map_of nodes n = Some l' \<longleftrightarrow>
      (case map_of ls n of None \<Rightarrow> None | Some l \<Rightarrow> restored_leaf sr (persists l)) = Some l'" for l'
  proof -
    have "map_of nodes n = Some l' \<longleftrightarrow> (n, l') \<in> set nodes" using assms(2) by (simp add: map_of_eq_Some_iff)
    also have "\<dots> \<longleftrightarrow> (\<exists>l. (n, l) \<in> set ls \<and> restored_leaf sr (persists l) = Some l')"
      using leaf_results_mem [OF assms(3,4)] found_mem assms(1) by metis
    also have "\<dots> \<longleftrightarrow> (\<exists>l. map_of ls n = Some l \<and> restored_leaf sr (persists l) = Some l')"
      using assms(5) by (simp add: map_of_eq_Some_iff)
    finally show ?thesis by (auto split: option.splits)
  qed
  then show ?thesis by (metis option.exhaust)
qed

section \<open>The virtual directory tree\<close>

text \<open>
  What restoring relies on: a directory handle stands for a path, entering a new subdirectory
  only adds it, and creating children only adds these leaves, as long as no directory is in
  their place.
\<close>

locale prepopulated_directory =
  fixes ops :: "('v, 'dd, 'l) prepopulated_ops"
    and files :: "'v \<Rightarrow> string list \<Rightarrow> 'l option"
    and dirs :: "'v \<Rightarrow> string list \<Rightarrow> bool"
    and at :: "'dd \<Rightarrow> string list"
  assumes enter_law: "CreateAndEnterPrepopulatedDirectory ops d n v = (Inr d', v') \<Longrightarrow>
      files v (at d @ [n]) = None \<Longrightarrow> \<not> dirs v (at d @ [n]) \<Longrightarrow>
      at d' = at d @ [n] \<and> files v' = files v \<and> dirs v' = (dirs v)(at d @ [n] := True)"
    and create_law: "CreateChildren ops d nodes True v = (None, v') \<Longrightarrow> distinct (map fst nodes) \<Longrightarrow>
      (\<forall>n \<in> fst ` set nodes. \<not> dirs v (at d @ [n])) \<Longrightarrow>
      dirs v' = dirs v \<and>
      files v' = (\<lambda>q. if q \<noteq> [] \<and> butlast q = at d \<and> map_of nodes (last q) \<noteq> None
        then map_of nodes (last q) else files v q)"
    and new_law: "NewInMemoryPrepopulatedDirectory ops v = (d, v') \<Longrightarrow>
      strict_prefix (at d) q \<Longrightarrow> files v' q = None \<and> \<not> dirs v' q"
begin

definition vacant :: "'v \<Rightarrow> string list \<Rightarrow> bool" where
  "vacant v q \<longleftrightarrow> files v q = None \<and> \<not> dirs v q"

text \<open>The reader that is at hand when a directory is restored.\<close>

definition reads_at :: "bytes \<Rightarrow> nat \<Rightarrow> fileReader \<Rightarrow> Directory \<Rightarrow> bool" where
  "reads_at B m reader contents \<longleftrightarrow> Directories contents = [] \<or>
     (\<exists>ReadAt hdr tail. reader = \<lparr>rawReader = Some ReadAt, maximumOffsetBytes = 16 + int m\<rparr> \<and>
        length hdr = 16 \<and> reader_at ReadAt (hdr @ B @ tail) \<and> 16 + int m < 2 ^ 63)"

lemma ReadDirectory_stored:
  assumes "reads_at B m reader contents" "Directories contents \<noteq> []"
    and "B = before @ data @ rest" "length before + length data \<le> m" "length data < 2 ^ 31"
    and "decode data = Inr c" "decode [] = Inr empty_Directory"
  shows "\<exists>reader'. ReadDirectory decode reader (region_for before data) = Returns (Inr (reader', c)) \<and>
    reads_at B (length before) reader' c"
proof (cases "data = []")
  case True
  then have "c = empty_Directory" using assms(6,7) by simp
  with True show ?thesis
    by (simp add: ReadDirectory_def region_for_def reads_at_def empty_Directory_def)
next
  case False
  obtain ReadAt hdr tail where r: "reader = \<lparr>rawReader = Some ReadAt, maximumOffsetBytes = 16 + int m\<rparr>"
    "length hdr = 16" "reader_at ReadAt (hdr @ B @ tail)" "16 + int m < 2 ^ 63"
    using assms(1,2) unfolding reads_at_def by blast
  have pre: "int (length (hdr @ before)) = 16 + int (length before)" using r(2) by simp
  have "readMessage decode \<lparr>rawReader = Some ReadAt, maximumOffsetBytes = 16 + int m\<rparr>
      (int (length (hdr @ before))) (int (length data)) =
    Returns (Inr (\<lparr>rawReader = Some ReadAt, maximumOffsetBytes = int (length (hdr @ before))\<rparr>, c))"
    using r assms(3-6) False
    by (intro reader_at.readMessage_content [OF r(3), where post = "rest @ tail"]) auto
  moreover have "to_int32 (int (length data)) = int (length data)" using assms(5) by simp
  ultimately have "ReadDirectory decode reader (region_for before data) =
      Returns (Inr (\<lparr>rawReader = Some ReadAt, maximumOffsetBytes = 16 + int (length before)\<rparr>, c))"
    using r(1) False pre by (simp add: ReadDirectory_def region_for_def)
  moreover have "reads_at B (length before) \<lparr>rawReader = Some ReadAt, maximumOffsetBytes = 16 + int (length before)\<rparr> c"
    unfolding reads_at_def using r assms(4) by auto
  ultimately show ?thesis by blast
qed

lemma restore_leaves_view:
  assumes "restore_leaves ops mapOrder sr contents d dPath v = (None, v')"
    and "Files contents = file_nodes persists ls" "Symlinks contents = symlink_nodes persists ls" "distinct (map fst ls)"
    and "\<forall>n \<in> fst ` set ls. \<not> dirs v (at d @ [n])"
  shows "dirs v' = dirs v \<and> files v' = (\<lambda>q.
     if q \<noteq> [] \<and> butlast q = at d
     then (case map_of ls (last q) of
             None \<Rightarrow> files v q
           | Some l \<Rightarrow> (case restored_leaf sr (persists l) of None \<Rightarrow> files v q | Some l' \<Rightarrow> Some l'))
     else files v q)"
proof -
  obtain nodes where n: "found nodes = take (length nodes) (leaf_results sr contents)" "distinct (map fst nodes)"
    "length nodes = length (leaf_results sr contents)" "CreateChildren ops d nodes True v = (None, v')"
    using restore_leaves_cases [where sr = sr and contents = contents and ops = ops and mapOrder = mapOrder and d = d and dPath = dPath and v = v] assms(1) by auto
  then have mo: "map_of nodes m = (case map_of ls m of None \<Rightarrow> None | Some l \<Rightarrow> restored_leaf sr (persists l))" for m
    using restored_leaves_map [of nodes sr contents persists ls] assms(2-4) by simp
  have "m \<in> fst ` set ls" if "m \<in> fst ` set nodes" for m
  proof -
    have "map_of nodes m \<noteq> None" using that by (simp add: map_of_eq_None_iff)
    then show ?thesis using mo [of m] by (auto split: option.splits dest: map_of_SomeD intro: rev_image_eqI)
  qed
  then have "\<forall>m \<in> fst ` set nodes. \<not> dirs v (at d @ [m])" using assms(5) by blast
  from create_law [OF n(4,2) this] show ?thesis
    by (auto simp: mo fun_eq_iff split: option.splits)
qed

end

section \<open>Restoring a stored tree\<close>

fun dir_at :: "'l vnode \<Rightarrow> string list \<Rightarrow> bool" where
  "dir_at (LookupFails e) q = False"
| "dir_at (VDir directories leaves) [] = True"
| "dir_at (VDir directories leaves) (n # q) = (case map_of directories n of None \<Rightarrow> False | Some t \<Rightarrow> dir_at t q)"

lemma view_Nil [simp]: "view sr persists dPath t [] = None"
  by (cases t) auto

lemma kept_names: "fst ` set (kept dPath leaves) \<subseteq> fst ` set leaves"
  by (auto simp: kept_def)

lemma distinct_kept: "distinct (map fst leaves) \<Longrightarrow> distinct (map fst (kept dPath leaves))"
  by (simp add: kept_def distinct_map_filter)

context prepopulated_directory
begin

lemma restored_tree:
  assumes empty: "decode [] = Inr empty_Directory"
  shows "restoreDirectoryRecursive ops mapOrder (ReadDirectory decode) sr fuel reader contents d dPath v = Returns (None, v') \<Longrightarrow>
      stored decode persists B m dPath contents tree \<Longrightarrow> reads_at B m reader contents \<Longrightarrow> wf_tree tree \<Longrightarrow>
      \<forall>n r. vacant v (at d @ n # r) \<Longrightarrow>
      (\<forall>n r. files v' (at d @ n # r) = view sr persists dPath tree (n # r) \<and> dirs v' (at d @ n # r) = dir_at tree (n # r)) \<and>
      (\<forall>q. \<not> strict_prefix (at d) q \<longrightarrow> files v' q = files v q \<and> dirs v' q = dirs v q)"
    and "restore_directories ops mapOrder (ReadDirectory decode) sr fuel reader nodes d dPath v = Returns (None, v') \<Longrightarrow>
      stored_directories decode persists B m dPath nodes ts \<Longrightarrow>
      nodes \<noteq> [] \<longrightarrow> (\<exists>c. Directories c \<noteq> [] \<and> reads_at B m reader c) \<Longrightarrow>
      distinct (map fst ts) \<Longrightarrow> wf_trees ts \<Longrightarrow>
      \<forall>n r. n \<in> fst ` set ts \<longrightarrow> vacant v (at d @ n # r) \<Longrightarrow>
      (\<forall>n r. files v' (at d @ n # r) =
           (case map_of ts n of None \<Rightarrow> files v (at d @ n # r) | Some t \<Rightarrow> view sr persists (dPath @ [n]) t r) \<and>
         dirs v' (at d @ n # r) = (case map_of ts n of None \<Rightarrow> dirs v (at d @ n # r) | Some t \<Rightarrow> dir_at t r)) \<and>
      (\<forall>q. \<not> strict_prefix (at d) q \<longrightarrow> files v' q = files v q \<and> dirs v' q = dirs v q)"
proof (induction tree and ts arbitrary: fuel reader contents d dPath v v' m and fuel reader nodes d dPath v v' m
    rule: ndirs_ndirs_list.induct)
  case (1 e)
  then show ?case by simp
next
  case (2 directories leaves)
  from 2(2) obtain f v1 where f: "fuel = Suc f"
    and ds: "restore_directories ops mapOrder (ReadDirectory decode) sr f reader (Directories contents) d dPath v = Returns (None, v1)"
    and ls: "restore_leaves ops mapOrder sr contents d dPath v1 = (None, v')"
    by (cases fuel) (auto split: option.splits)
  have st: "stored_directories decode persists B m dPath (Directories contents) directories"
    "Files contents = file_nodes persists (kept dPath leaves)" "Symlinks contents = symlink_nodes persists (kept dPath leaves)"
    using 2(3) by auto
  have 1: "\<And>n r. files v1 (at d @ n # r) =
       (case map_of directories n of None \<Rightarrow> files v (at d @ n # r) | Some t \<Rightarrow> view sr persists (dPath @ [n]) t r)"
    "\<And>n r. dirs v1 (at d @ n # r) = (case map_of directories n of None \<Rightarrow> dirs v (at d @ n # r) | Some t \<Rightarrow> dir_at t r)"
    "\<And>q. \<not> strict_prefix (at d) q \<Longrightarrow> files v1 q = files v q \<and> dirs v1 q = dirs v q"
    using 2(1) [OF ds st(1)] 2(4-6) by auto
  have "\<not> dirs v1 (at d @ [n])" if "n \<in> fst ` set (kept dPath leaves)" for n
  proof -
    have "n \<in> fst ` set leaves" using that kept_names by blast
    then have "map_of directories n = None" using 2(5) by (auto simp: map_of_eq_None_iff)
    then show ?thesis using 1(2) [of n "[]"] 2(6) by (simp add: vacant_def)
  qed
  then have 2: "dirs v' = dirs v1" "files v' = (\<lambda>q.
     if q \<noteq> [] \<and> butlast q = at d
     then (case map_of (kept dPath leaves) (last q) of
             None \<Rightarrow> files v1 q
           | Some l \<Rightarrow> (case restored_leaf sr (persists l) of None \<Rightarrow> files v1 q | Some l' \<Rightarrow> Some l'))
     else files v1 q)"
    using restore_leaves_view [OF ls st(2,3)] distinct_kept 2(5) by auto
  have "files v' (at d @ n # r) = view sr persists dPath (VDir directories leaves) (n # r)" for n r
  proof (cases r)
    case Nil
    have "files v1 (at d @ [n]) = None"
      using 1(1) [of n "[]"] \<open>\<forall>n r. vacant v (at d @ n # r)\<close> by (auto simp: vacant_def split: option.splits)
    with Nil show ?thesis unfolding 2(2) by (auto split: option.splits)
  next
    case (Cons k q)
    then have "butlast (at d @ n # r) \<noteq> at d" by (simp add: butlast_append)
    with Cons show ?thesis unfolding 2(2) using 1(1) [of n r] \<open>\<forall>n r. vacant v (at d @ n # r)\<close>
      by (auto simp: vacant_def split: option.splits)
  qed
  moreover have "dirs v' (at d @ n # r) = dir_at (VDir directories leaves) (n # r)" for n r
    using 1(2) [of n r] \<open>\<forall>n r. vacant v (at d @ n # r)\<close> 2(1) by (auto simp: vacant_def split: option.splits)
  moreover have "files v' q = files v q \<and> dirs v' q = dirs v q" if "\<not> strict_prefix (at d) q" for q
  proof -
    have "\<not> (q \<noteq> [] \<and> butlast q = at d)"
      using that by (metis append_butlast_last_id strict_prefixI' append.right_neutral strict_prefix_simps(2) butlast_snoc append_Nil2 prefix_order.dual_order.strict_iff_order prefixI self_append_conv not_Cons_self2)
    then show ?thesis unfolding 2 using 1(3) [OF that] by auto
  qed
  ultimately show ?case by blast
next
  case 3
  then show ?case by auto
next
  case (4 n t ts)
  from 4(4) obtain node nodes' before data rest c where h: "nodes = node # nodes'" "dn_Name node = n"
    "dn_FileRegion node = region_for before data" "B = before @ data @ rest" "length before + length data \<le> m"
    "length data < 2 ^ 31" "decode data = Inr c" "stored decode persists B (length before) (dPath @ [n]) c t"
    "stored_directories decode persists B m dPath nodes' ts" by auto
  obtain c0 where c0: "Directories c0 \<noteq> []" "reads_at B m reader c0" using 4(5) h(1) by blast
  obtain reader' where rd: "ReadDirectory decode reader (region_for before data) = Returns (Inr (reader', c))"
    "reads_at B (length before) reader' c"
    using ReadDirectory_stored [OF c0(2,1) h(4-7) empty] by blast
  from 4(3) h rd(1) obtain d' v1 v2 where e: "CreateAndEnterPrepopulatedDirectory ops d n v = (Inr d', v1)"
    and r: "restoreDirectoryRecursive ops mapOrder (ReadDirectory decode) sr fuel reader' c d' (dPath @ [n]) v1 = Returns (None, v2)"
    and l: "restore_directories ops mapOrder (ReadDirectory decode) sr fuel reader nodes' d dPath v2 = Returns (None, v')"
    by (auto simp: Let_def split: if_splits prod.splits sum.splits option.splits)
  have vac: "vacant v (at d @ n # r)" for r using 4(8) by simp
  then have E: "at d' = at d @ [n]" "files v1 = files v" "dirs v1 = (dirs v)(at d @ [n] := True)"
    using enter_law [OF e] vac [of "[]"] by (auto simp: vacant_def)
  have "\<forall>k r. vacant v1 (at d' @ k # r)"
    using vac E by (auto simp: vacant_def)
  from 4(1) [OF r h(8) rd(2) _ this] 4(7) have T:
    "\<And>k r. files v2 (at d @ n # k # r) = view sr persists (dPath @ [n]) t (k # r)"
    "\<And>k r. dirs v2 (at d @ n # k # r) = dir_at t (k # r)"
    "\<And>q. \<not> strict_prefix (at d @ [n]) q \<Longrightarrow> files v2 q = files v q \<and> dirs v2 q = dirs v1 q"
    using E by auto
  have other: "files v2 (at d @ k # r) = files v (at d @ k # r) \<and> dirs v2 (at d @ k # r) = dirs v (at d @ k # r)" if "k \<noteq> n" for k r
    using T(3) [of "at d @ k # r"] that E(3) by (auto simp: strict_prefix_def prefix_def)
  have "\<forall>k r. k \<in> fst ` set ts \<longrightarrow> vacant v2 (at d @ k # r)"
  proof (intro allI impI)
    fix k r assume k: "k \<in> fst ` set ts"
    then have "k \<noteq> n" using 4(6) by auto
    moreover have "vacant v (at d @ k # r)" using 4(8) k by simp
    ultimately show "vacant v2 (at d @ k # r)" using other [of k r] by (simp add: vacant_def)
  qed
  from 4(2) [OF l h(9) _ _ _ this] 4(5-7) h(1) c0 have L:
    "\<And>k r. files v' (at d @ k # r) =
       (case map_of ts k of None \<Rightarrow> files v2 (at d @ k # r) | Some t \<Rightarrow> view sr persists (dPath @ [k]) t r)"
    "\<And>k r. dirs v' (at d @ k # r) = (case map_of ts k of None \<Rightarrow> dirs v2 (at d @ k # r) | Some t \<Rightarrow> dir_at t r)"
    "\<And>q. \<not> strict_prefix (at d) q \<Longrightarrow> files v' q = files v2 q \<and> dirs v' q = dirs v2 q"
    by auto
  have none: "map_of ts n = None" using 4(6) by (auto simp: map_of_eq_None_iff)
  have at_n: "files v2 (at d @ [n]) = None" "dirs v2 (at d @ [n])"
    using T(3) [of "at d @ [n]"] E vac [of "[]"] by (auto simp: vacant_def)
  have self: "dir_at t []" using h(8) by (cases t) auto
  have "files v' (at d @ k # r) =
       (case map_of ((n, t) # ts) k of None \<Rightarrow> files v (at d @ k # r) | Some t \<Rightarrow> view sr persists (dPath @ [k]) t r) \<and>
     dirs v' (at d @ k # r) = (case map_of ((n, t) # ts) k of None \<Rightarrow> dirs v (at d @ k # r) | Some t \<Rightarrow> dir_at t r)" for k r
  proof (cases "k = n")
    case True
    then show ?thesis using L(1,2) [of n r] none at_n T(1,2) self by (cases r) auto
  next
    case False
    then show ?thesis using L(1,2) [of k r] other [OF False, of r] by (auto split: option.splits)
  qed
  moreover have "files v' q = files v q \<and> dirs v' q = dirs v q" if "\<not> strict_prefix (at d) q" for q
  proof -
    have "\<not> strict_prefix (at d @ [n]) q" "q \<noteq> at d @ [n]"
      using that by (auto simp: strict_prefix_def prefix_def)
    then show ?thesis using L(3) [OF that] T(3) [of q] E(3) by simp
  qed
  ultimately show ?case by blast
qed

end

section \<open>Saving through the store\<close>

text \<open>The store's writer is the file writer on the temporary file.\<close>

lemma saveDirectoryRecursive_dbw:
  "saveDirectoryRecursive applyAppend (dbw_WriteDirectory c) tree dPath w =
   exec_bind (saveDirectoryRecursive applyAppend
       (WriteDirectory (HandleWriteAt (dbw_directory w) (dbw_temporaryFile w)) (marshalDirectory c)) tree dPath (dbw_writer w))
     (\<lambda>(res, fw). Returns (res, w\<lparr>dbw_writer := fw\<rparr>))"
  and "save_directories applyAppend (dbw_WriteDirectory c) ts dPath directory w =
   exec_bind (save_directories applyAppend
       (WriteDirectory (HandleWriteAt (dbw_directory w) (dbw_temporaryFile w)) (marshalDirectory c)) ts dPath directory (dbw_writer w))
     (\<lambda>(res, fw). Returns (res, w\<lparr>dbw_writer := fw\<rparr>))"
proof (induction tree and ts arbitrary: dPath w and dPath directory w rule: ndirs_ndirs_list.induct)
  case (1 e)
  then show ?case by simp
next
  case (2 directories leaves)
  let ?s = "save_directories applyAppend
       (WriteDirectory (HandleWriteAt (dbw_directory w) (dbw_temporaryFile w)) (marshalDirectory c)) directories dPath
       empty_Directory (dbw_writer w)"
  show ?case
  proof (cases ?s)
    case (Returns x)
    obtain res fw where x: "x = (res, fw)" by fastforce
    show ?thesis
      using Returns x 2 by (cases res; cases "save_leaves applyAppend dPath leaves (projr res)") auto
  qed (use 2 in simp_all)
next
  case 3
  then show ?case by simp
next
  case (4 n t ts)
  let ?WD = "\<lambda>w. WriteDirectory (HandleWriteAt (dbw_directory w) (dbw_temporaryFile w)) (marshalDirectory c)"
  show ?case
  proof (cases "saveDirectoryRecursive applyAppend (?WD w) t (dPath @ [n]) (dbw_writer w)")
    case R1: (Returns x)
    obtain res fw where x: "x = (res, fw)" by fastforce
    show ?thesis
    proof (cases res)
      case (Inl e)
      with R1 x 4(1) show ?thesis by simp
    next
      case child: (Inr childDirectory)
      show ?thesis
      proof (cases "?WD w childDirectory fw")
        case R2: (Returns y)
        obtain res2 fw2 where y: "y = (res2, fw2)" by fastforce
        show ?thesis
        proof (cases res2)
          case (Inl e)
          with R1 R2 x y child 4(1) show ?thesis by (simp add: dbw_WriteDirectory_def)
        next
          case (Inr region)
          let ?s = "save_directories applyAppend (?WD w) ts dPath (directory\<lparr>Directories := Directories directory @
            [\<lparr>dn_Name = n, dn_FileRegion = region\<rparr>]\<rparr>) fw2"
          show ?thesis
            using R1 R2 x y child Inr 4(1) 4(2) [of dPath _ "w\<lparr>dbw_writer := fw2\<rparr>"]
            by (cases ?s) (auto simp: dbw_WriteDirectory_def split: prod.splits)
        qed
      qed (use R1 x child 4(1) in \<open>simp_all add: dbw_WriteDirectory_def\<close>)
    qed
  qed (use 4(1) in simp_all)
qed

lemma saveDirectoryRecursive_preserves:
  assumes pres: "at_preserves WriteAt Q"
  shows "saveDirectoryRecursive applyAppend (WriteDirectory WriteAt marshal) tree dPath w = Returns (res, w') \<Longrightarrow>
      Q (fw_rawWriter w) \<Longrightarrow> Q (fw_rawWriter w')"
    and "save_directories applyAppend (WriteDirectory WriteAt marshal) ts dPath directory w = Returns (res, w') \<Longrightarrow>
      Q (fw_rawWriter w) \<Longrightarrow> Q (fw_rawWriter w')"
proof (induction tree and ts arbitrary: dPath w res w' and dPath directory w res w' rule: ndirs_ndirs_list.induct)
  case (2 directories leaves)
  from 2(2) obtain r w1 where r: "save_directories applyAppend (WriteDirectory WriteAt marshal) directories dPath empty_Directory w = Returns (r, w1)"
    by auto
  with 2(2) have "w1 = w'" by (cases r) auto
  with r 2(1,3) show ?case by blast
next
  case (4 n t ts)
  from 4(3) obtain r1 w1 where 1: "saveDirectoryRecursive applyAppend (WriteDirectory WriteAt marshal) t (dPath @ [n]) w = Returns (r1, w1)"
    by auto
  with 4(1,4) have q1: "Q (fw_rawWriter w1)" by blast
  show ?case
  proof (cases r1)
    case (Inl e)
    with 4(3) 1 q1 show ?thesis by simp
  next
    case (Inr child)
    with 4(3) 1 obtain r2 w2 where 2: "WriteDirectory WriteAt marshal child w1 = Returns (r2, w2)" by auto
    have q2: "Q (fw_rawWriter w2)"
      using writeMessage_preserves [of WriteAt Q marshal child w1 r2 w2] pres q1 2 by (simp add: WriteDirectory_def)
    show ?thesis
    proof (cases r2)
      case (Inl e)
      with 4(3) 1 2 Inr q2 show ?thesis by simp
    next
      case region: (Inr region)
      with 4(3) 1 2 Inr have "save_directories applyAppend (WriteDirectory WriteAt marshal) ts dPath
         (directory\<lparr>Directories := Directories directory @ [\<lparr>dn_Name = n, dn_FileRegion = region\<rparr>]\<rparr>) w2 = Returns (res, w')" by simp
      with 4(2) q2 show ?thesis by blast
    qed
  qed
qed auto

context writer_at
begin

lemma saved_tree_file:
  assumes "content f = []" "codec_ok marshalD unmarshalD" "appends_nodes applyAppend persists"
    and save: "saveDirectoryRecursive applyAppend (WriteDirectory WriteAt marshalD) tree dPath (NewFileWriter f) = Returns (Inr contents, w)"
    and fin: "Finalize WriteAt marshalR root w = Returns (None, w')" "marshalR root = Inr rb" "length rb < 2 ^ 31"
    and bound: "2 ^ 31 * (ndirs tree + 1) \<le> 2 ^ 63 - 17"
  shows "\<exists>B. content (fw_rawWriter w') = header_bytes (region_for B rb) @ B @ rb \<and> length B \<le> 2 ^ 31 * ndirs tree \<and>
    stored unmarshalD persists B (length B) dPath contents tree"
proof -
  note new = NewFileWriter_ok [OF assms(1)]
  have "length (written (NewFileWriter f)) + 2 ^ 31 * ndirs tree \<le> 2 ^ 63 - 17" using new bound by simp
  from saved_tree_stored(1) [OF assms(2,3) save _ _ this] new
  have s: "fw_ok w" "\<not> failed w" "length (written w) \<le> 2 ^ 31 * ndirs tree"
    "stored unmarshalD persists (written w) (length (written w)) dPath contents tree" by auto
  have "length (written w) + length rb \<le> 2 ^ 63 - 17" using s(3) fin(3) bound by simp
  from Finalize_ok [OF s(1,2) fin(2) this fin(1)] s(3,4) show ?thesis by blast
qed

end

context state_directory
begin

lemma saveOutputPath_cases:
  assumes pf: "pf_store pf = directoryBackedStore_Store nc c (store m)"
    and ret: "saveOutputPath pf tree x t s = Returns (err, s')"
  obtains e where "dbs_Write nc (store m) x s = (Inl e, s')" "err = Some e"
  | w s1 res fw where "dbs_Write nc (store m) x s = (Inr w, s1)"
    "saveDirectoryRecursive (pf_applyAppend pf) (WriteDirectory (HandleWriteAt dir (dbw_temporaryFile w)) (marshalDirectory c))
       tree [] (NewFileWriter s1) = Returns (res, fw)"
    "session_inv ((files s)(x @ ''.tmp'' := None)) (dbw_temporaryFile w) (fw_rawWriter fw)"
    "(case res of Inl e \<Rightarrow> err = Some e \<and> s' = snd (dbw_Close (w\<lparr>dbw_writer := fw\<rparr>) (fw_rawWriter fw))
      | Inr contents \<Rightarrow> dbw_Finalize c \<lparr>InitialCreationTime = Some t, Contents = Some contents\<rparr> (w\<lparr>dbw_writer := fw\<rparr>) =
          Returns (err, s'))"
proof (cases "fst (dbs_Write nc (store m) x s)")
  case (Inl e)
  with ret pf show thesis
    by (intro that(1)) (auto simp: saveOutputPath_def directoryBackedStore_Store_def split: prod.splits sum.splits)
next
  case (Inr w)
  then obtain s1 where w: "dbs_Write nc (store m) x s = (Inr w, s1)" by (metis prod.collapse)
  note law = dbs_Write_law [OF w]
  let ?sd = "saveDirectoryRecursive (pf_applyAppend pf) (WriteDirectory (HandleWriteAt dir (dbw_temporaryFile w)) (marshalDirectory c))
       tree [] (NewFileWriter s1)"
  obtain res fw where sd: "?sd = Returns (res, fw)"
    using ret w law pf
    by (cases ?sd) (auto simp: saveOutputPath_def directoryBackedStore_Store_def saveDirectoryRecursive_dbw)
  then have res: "case res of Inl e \<Rightarrow> err = Some e \<and> s' = snd (dbw_Close (w\<lparr>dbw_writer := fw\<rparr>) (fw_rawWriter fw))
      | Inr contents \<Rightarrow> dbw_Finalize c \<lparr>InitialCreationTime = Some t, Contents = Some contents\<rparr> (w\<lparr>dbw_writer := fw\<rparr>) =
          Returns (err, s')"
    using ret w law pf
    by (cases res) (auto simp: saveOutputPath_def directoryBackedStore_Store_def saveDirectoryRecursive_dbw dbw_state_def)
  have "fw_rawWriter (NewFileWriter s1) = s1" by (simp add: fw_rawWriter_def NewFileWriter_def bufio_NewWriterSize_def)
  with law have "session_inv ((files s)(x @ ''.tmp'' := None)) (dbw_temporaryFile w) (fw_rawWriter fw)"
    using saveDirectoryRecursive_preserves(1) [OF HandleWriteAt_session sd] by metis
  with w sd res show thesis by (intro that(2))
qed

lemma failed_saveOutputPath_keeps_files:
  assumes pf: "pf_store pf = directoryBackedStore_Store nc c (store m)"
    and "saveOutputPath pf tree x t s = Returns (Some e, s')" "n \<noteq> x @ ''.tmp''"
  shows "files s' n = files s n"
  using pf assms(2)
proof (cases rule: saveOutputPath_cases)
  case (1 e')
  with assms(3) show ?thesis by (auto intro: dbs_Write_fails)
next
  case (2 w s1 res fw)
  note law = dbs_Write_law [OF 2(1)]
  show ?thesis
  proof (cases res)
    case (Inl e')
    with 2 law assms(3) show ?thesis by (auto simp: dbw_Close_other session_inv_def)
  next
    case (Inr contents)
    with 2 have fin: "dbw_Finalize c \<lparr>InitialCreationTime = Some t, Contents = Some contents\<rparr> (w\<lparr>dbw_writer := fw\<rparr>) =
        Returns (Some e, s')" by simp
    show ?thesis
      using dbw_Finalize_fails [OF fin, of "(files s)(x @ ''.tmp'' := None)" n] law 2(3) assms(3)
      by (simp add: dbw_state_def)
  qed
qed

text \<open>The state file of a successful save: header, body with the stored tree, root message.\<close>

lemma saved_output_path:
  assumes pf: "pf_store pf = directoryBackedStore_Store nc c (store m)"
    and save: "saveOutputPath pf tree x t s = Returns (None, s')"
    and codec: "codec_ok (marshalDirectory c) (unmarshalDirectory c)" "appends_nodes (pf_applyAppend pf) persists"
    and codecR: "\<forall>r bs. marshalRoot c r = Inr bs \<longrightarrow> bs \<noteq> [] \<and> length bs < 2 ^ 31 \<and> unmarshalRoot c bs = Inr r"
    and bound: "2 ^ 31 * (ndirs tree + 1) \<le> 2 ^ 63 - 17"
  obtains B rb contents where
    "files s' x = Some (header_bytes (region_for B rb) @ B @ rb)"
    "stored (unmarshalDirectory c) persists B (length B) [] contents tree"
    "rb \<noteq> []" "length rb < 2 ^ 31" "length B + length rb < 2 ^ 63 - 16"
    "unmarshalRoot c rb = Inr \<lparr>InitialCreationTime = Some t, Contents = Some contents\<rparr>"
  using pf save
proof (cases rule: saveOutputPath_cases)
  case (2 w s1 res fw)
  note law = dbs_Write_law [OF 2(1)]
  from 2 obtain contents where res: "res = Inr contents" by (cases res) auto
  let ?root = "\<lparr>InitialCreationTime = Some t, Contents = Some contents\<rparr>"
  let ?w = "w\<lparr>dbw_writer := fw\<rparr>" and ?h = "dbw_temporaryFile w"
  from 2(4) res have fin: "dbw_Finalize c ?root ?w = Returns (None, s')" by simp
  have inv: "session_inv ((files s)(x @ ''.tmp'' := None)) (dbw_temporaryFile ?w) (dbw_state ?w)"
    using 2(3) by (simp add: dbw_state_def)
  obtain fw' where f: "Finalize (HandleWriteAt dir ?h) (marshalRoot c) ?root fw = Returns (None, fw')"
    and fs: "files s' = (files s)(x @ ''.tmp'' := None, x \<mapsto> inode ?h (fw_rawWriter fw'))"
    using dbw_Finalize_succeeds [OF fin _ _ _ inv] law by auto
  obtain rb where rb: "marshalRoot c ?root = Inr rb"
    using f by (cases "marshalRoot c ?root") (auto simp: Finalize_def writeMessage_def)
  have r: "rb \<noteq> []" "length rb < 2 ^ 31" "unmarshalRoot c rb = Inr ?root" using codecR rb by auto
  have "inode ?h s1 = []" using law by simp
  from writer_at.saved_tree_file [OF HandleWriteAt_writer this codec _ f rb r(2) bound] 2(2) res obtain B where
    B: "inode ?h (fw_rawWriter fw') = header_bytes (region_for B rb) @ B @ rb" "length B \<le> 2 ^ 31 * ndirs tree"
      "stored (unmarshalDirectory c) persists B (length B) [] contents tree" by blast
  have "length B + length rb < 2 ^ 63 - 16" using B(2) r(2) bound by simp
  with fs B r show thesis by (intro that [of B rb contents]) simp_all
qed simp

end

section \<open>From one run to the next\<close>

text \<open>A build that starts without logging anything found the state file and restored all of it.\<close>

lemma persistent_StartInitialBuild_silent:
  assumes "persistent_StartInitialBuild pf base x (v, s) = Returns (op, [], (v', s'))"
  obtains v1 reader h root contents d1 where
    "StartInitialBuild base x v = Returns (pop_OutputPath op, [], v1)"
    "store_Read (pf_store pf) x s = (Returns (Inr ((reader, h), root)), d1)" "Contents root = Some contents"
    "restoreDirectoryRecursive (pf_ops pf) (pf_mapOrder pf) (reader_ReadDirectory (pf_store pf)) (pf_restorer pf)
       (Suc (nat (maximumOffsetBytes reader))) reader contents (op_directory base (pop_OutputPath op)) [] v1 = Returns (None, v')"
    "pop_outputBaseID op = x"
    "pop_initialCreationTime op = (case InitialCreationTime root of None \<Rightarrow> pf_Now pf | Some t \<Rightarrow> t)"
proof -
  note start = assms [unfolded persistent_StartInitialBuild_def]
  obtain d log v1 where d: "StartInitialBuild base x v = Returns (d, log, v1)" using start by auto
  obtain r d1 where r: "store_Read (pf_store pf) x s = (r, d1)" by fastforce
  note [simp del] = restoreDirectoryRecursive.simps
  obtain res where r': "r = Returns res"
    using start d r by (cases r) auto
  then obtain reader h root where res: "res = Inr ((reader, h), root)"
    using start d r by (cases res) (auto simp: Let_def)
  then obtain contents where c: "Contents root = Some contents"
    using start d r r' by (cases "Contents root") (auto simp: Let_def)
  let ?rr = "restoreDirectoryRecursive (pf_ops pf) (pf_mapOrder pf) (reader_ReadDirectory (pf_store pf)) (pf_restorer pf)
       (Suc (nat (maximumOffsetBytes reader))) reader contents (op_directory base d) [] v1"
  obtain err v2 where rr: "?rr = Returns (err, v2)"
    using start d r r' res c by (cases ?rr) (auto simp: Let_def)
  then have "err = None"
    using start d r r' res c by (cases err) (auto simp: Let_def)
  then show thesis
    using start d r r' res c rr by (intro that [of v1 reader h root d1 contents]) (auto simp: Let_def)
qed

lemma dbs_Read_Inr:
  assumes "dbs_Read c st x s = (Returns (Inr ((reader, h), root)), s')"
  obtains ReadAt where "OpenRead (dbs_directory st) x s = (Inr (h, ReadAt), s')"
    "NewFileReader (unmarshalRoot c) ReadAt (dbs_maximumStateFileSizeBytes st) = Returns (Inr (reader, root))"
  using assms by (auto simp: dbs_Read_def split: sum.splits prod.splits exec.splits)

lemma restored_output_path:
  assumes D: "state_directory dir files inode hname" and P: "prepopulated_directory (pf_ops pf) pfiles pdirs at"
    and pf: "pf_store pf = directoryBackedStore_Store nc c \<lparr>dbs_directory = dir, dbs_maximumStateFileSizeBytes = m\<rparr>"
    and save: "saveOutputPath pf tree x t s = Returns (None, s')"
    and base: "\<And>b log v1. StartInitialBuild base x v = Returns (b, log, v1) \<Longrightarrow>
      NewInMemoryPrepopulatedDirectory (pf_ops pf) v = (op_directory base b, v1)"
    and start: "persistent_StartInitialBuild pf base x (v, s') = Returns (op, [], (v', s''))"
    and codec: "codec_ok (marshalDirectory c) (unmarshalDirectory c)" "appends_nodes (pf_applyAppend pf) persists"
    and codecR: "\<forall>r bs. marshalRoot c r = Inr bs \<longrightarrow> bs \<noteq> [] \<and> length bs < 2 ^ 31 \<and> unmarshalRoot c bs = Inr r"
    and wf: "wf_tree tree" and bound: "2 ^ 31 * (ndirs tree + 1) \<le> 2 ^ 63 - 17"
    and fits: "\<forall>bs. files s' x = Some bs \<longrightarrow> int (length bs) \<le> m" "m < 2 ^ 63"
  shows "pop_initialCreationTime op = t \<and> pop_outputBaseID op = x \<and>
    (\<forall>n r. pfiles v' (at (op_directory base (pop_OutputPath op)) @ n # r) = view (pf_restorer pf) persists [] tree (n # r) \<and>
       pdirs v' (at (op_directory base (pop_OutputPath op)) @ n # r) = dir_at tree (n # r))"
proof -
  obtain B rb contents where B: "files s' x = Some (header_bytes (region_for B rb) @ B @ rb)"
    "stored (unmarshalDirectory c) persists B (length B) [] contents tree"
    "rb \<noteq> []" "length rb < 2 ^ 31" "length B + length rb < 2 ^ 63 - 16"
    "unmarshalRoot c rb = Inr \<lparr>InitialCreationTime = Some t, Contents = Some contents\<rparr>"
    using state_directory.saved_output_path [OF D pf save codec codecR bound] by metis
  obtain v1 reader h root contents' d1 where S:
    "StartInitialBuild base x v = Returns (pop_OutputPath op, [], v1)"
    "store_Read (pf_store pf) x s' = (Returns (Inr ((reader, h), root)), d1)" "Contents root = Some contents'"
    "restoreDirectoryRecursive (pf_ops pf) (pf_mapOrder pf) (reader_ReadDirectory (pf_store pf)) (pf_restorer pf)
       (Suc (nat (maximumOffsetBytes reader))) reader contents' (op_directory base (pop_OutputPath op)) [] v1 = Returns (None, v')"
    "pop_outputBaseID op = x"
    "pop_initialCreationTime op = (case InitialCreationTime root of None \<Rightarrow> pf_Now pf | Some t \<Rightarrow> t)"
    using persistent_StartInitialBuild_silent [OF start] by metis
  have rd: "dbs_Read c \<lparr>dbs_directory = dir, dbs_maximumStateFileSizeBytes = m\<rparr> x s' = (Returns (Inr ((reader, h), root)), d1)"
    using S(2) pf by (simp add: directoryBackedStore_Store_def)
  obtain ReadAt where o: "OpenRead dir x s' = (Inr (h, ReadAt), d1)"
    "NewFileReader (unmarshalRoot c) ReadAt m = Returns (Inr (reader, root))"
    using dbs_Read_Inr [OF rd] by auto
  have R: "reader_at ReadAt (header_bytes (region_for B rb) @ B @ rb)"
    using state_directory.OpenRead_law [OF D o(1)] B(1) by auto
  have "int (length (header_bytes (region_for B rb) @ B @ rb)) \<le> m" using fits(1) B(1) by blast
  then have "16 + int (length B) + int (length rb) \<le> m" by (simp add: header_bytes_def)
  from reader_at.NewFileReader_finished [where before = B and rootBytes = rb and unmarshal = "unmarshalRoot c", OF R refl B(3,6,4) this fits(2)] o(2)
  have r: "reader = \<lparr>rawReader = Some ReadAt, maximumOffsetBytes = 16 + int (length B)\<rparr>"
    "root = \<lparr>InitialCreationTime = Some t, Contents = Some contents\<rparr>" by auto
  have "prepopulated_directory.reads_at B (length B) reader contents"
    unfolding prepopulated_directory.reads_at_def [OF P] using r(1) R B(5)
    by (intro disjI2 exI [of _ ReadAt] exI [of _ "header_bytes (region_for B rb)"] exI [of _ rb])
      (simp add: header_bytes_def)
  moreover have "\<forall>n r. prepopulated_directory.vacant pfiles pdirs v1 (at (op_directory base (pop_OutputPath op)) @ n # r)"
    using prepopulated_directory.new_law [OF P base [OF S(1)]]
    by (simp add: prepopulated_directory.vacant_def [OF P] strict_prefix_def)
  ultimately have "(\<forall>n r. pfiles v' (at (op_directory base (pop_OutputPath op)) @ n # r) = view (pf_restorer pf) persists [] tree (n # r) \<and>
       pdirs v' (at (op_directory base (pop_OutputPath op)) @ n # r) = dir_at tree (n # r))"
    using prepopulated_directory.restored_tree(1) [OF P, of "unmarshalDirectory c" "pf_mapOrder pf" "pf_restorer pf"
        "Suc (nat (maximumOffsetBytes reader))" reader contents "op_directory base (pop_OutputPath op)" "[]" v1 v' persists B "length B" tree]
      codec(1) S(3,4) r(2) B(2) wf pf
    by (simp add: codec_ok_def directoryBackedStore_Store_def del: restoreDirectoryRecursive.simps)
  with S(5,6) r(2) show ?thesis by simp
qed

end
