(* ===== verification/Output_Chain.thy ===== *)
theory Output_Chain
  imports Output_Roundtrip
begin

text \<open>
  The output paths as \<^verbatim>\<open>cmd/bb_clientd/main.go\<close> puts them together, on top of the
  contracts of their parts, and what they guarantee.
\<close>

section \<open>The chain of factories and stores\<close>

text \<open>
  With persistency configured, local files are uploaded below the persistent factory, so that
  they have digests when they are saved, and state files are limited in age.
\<close>

definition main_outputPathStore ::
    "(string \<Rightarrow> bool) \<Rightarrow> codec \<Rightarrow> ('d, 'h, 'r) directory_ops \<Rightarrow> int \<Rightarrow> time_ops \<Rightarrow> int \<Rightarrow> int \<Rightarrow>
     ('d, 'r, ('d, 'h, 'r) directoryBackedWriter) Store" where
  "main_outputPathStore nc c stateDirectory maximumStateFileSizeBytes tm maximumStateFileAge now =
     maximumAgeStore_Store tm maximumStateFileAge now
       (directoryBackedStore_Store nc c
          \<lparr>dbs_directory = stateDirectory, dbs_maximumStateFileSizeBytes = maximumStateFileSizeBytes\<rparr>)"

definition main_outputPathFactory ::
    "('v, 'l) upload_ops \<Rightarrow> ('v, 'dd, 'l, 'dg, 'd, 'r, 'w) persistentOutputPathFactory \<Rightarrow>
     ('v \<times> 'd, 'dd localFileUploadingOutputPath persistentOutputPath, 'dd) OutputPathFactory" where
  "main_outputPathFactory up pf =
     persistentOutputPathFactory_Factory pf
       (localFileUploadingOutputPathFactory (inMemoryOutputPathFactory (pf_ops pf)) (LookupAllChildren (pf_ops pf)) up)"

lemma mas_Read_Inr:
  assumes "mas_Read tm baseRead baseClose age now x s = (Returns (Inr y), s')"
  shows "baseRead x s = (Returns (Inr y), s')"
  using assms by (auto simp: mas_Read_def Let_def split: prod.splits exec.splits sum.splits option.splits if_splits)

lemma saveOutputPath_read_irrelevant:
  assumes "pf_store pf = S\<lparr>store_Read := rd\<rparr>"
  shows "saveOutputPath pf tree x t s = saveOutputPath (pf\<lparr>pf_store := S\<rparr>) tree x t s"
proof -
  have "writer_WriteDirectory (pf_store pf) = writer_WriteDirectory S" "writer_Close (pf_store pf) = writer_Close S"
    "writer_Finalize (pf_store pf) = writer_Finalize S" "store_Write (pf_store pf) = store_Write S"
    "pf_applyAppend (pf\<lparr>pf_store := S\<rparr>) = pf_applyAppend pf" "pf_store (pf\<lparr>pf_store := S\<rparr>) = S"
    by (simp_all add: assms)
  then show ?thesis unfolding saveOutputPath_def by presburger
qed

lemma main_store_contract:
  assumes "state_directory dir files inode hname"
  shows "persistency_store (store_Read (main_outputPathStore nc c dir m tm age now))
    (reader_Close (main_outputPathStore nc c dir m tm age now)) (store_Clean (main_outputPathStore nc c dir m tm age now))
    (\<lambda>s. dom (files s))"
  using persistency_store.mas_store [OF state_directory.dbs_store [OF assms]]
  by (simp add: main_outputPathStore_def maximumAgeStore_Store_def directoryBackedStore_Store_def)

lemma main_factory_contract:
  assumes "state_directory dir files inode hname" "pf_store pf = main_outputPathStore nc c dir m tm age now"
    and "\<And>v. empty_dir (fst (NewInMemoryPrepopulatedDirectory (pf_ops pf) v)) (snd (NewInMemoryPrepopulatedDirectory (pf_ops pf) v))"
  shows "output_path_factory (main_outputPathFactory up pf) (\<lambda>st. dom (files (snd st)))
    (\<lambda>op x. pop_outputBaseID op = x) (\<lambda>d st. empty_dir d (fst st))"
proof -
  note base = output_path_factory.uploading_factory [OF inMemory_factory [where ops = "pf_ops pf" and empty_dir = empty_dir, OF assms(3)],
      where lookupAll = "LookupAllChildren (pf_ops pf)" and up = up]
  have store: "persistency_store (store_Read (pf_store pf)) (reader_Close (pf_store pf)) (store_Clean (pf_store pf))
    (\<lambda>s. dom (files s))"
    unfolding assms(2) by (rule main_store_contract [OF assms(1)])
  from persistent_factory [OF base store]
  show ?thesis by (simp add: main_outputPathFactory_def)
qed

section \<open>A virtual directory tree in memory\<close>

text \<open>
  The tree used by the witnesses. A directory handle is its path, below a root path per output
  path; leaves are what they are saved as.
\<close>

record mem_vfs =
  mv_roots :: nat
  mv_dirs :: "string list list"
  mv_files :: "(string list \<times> leaf_node) list"
  mv_unlinked :: "leaf_node list"

definition mem_vfs_empty :: mem_vfs where
  "mem_vfs_empty = \<lparr>mv_roots = 0, mv_dirs = [], mv_files = [], mv_unlinked = []\<rparr>"

fun mem_tree :: "nat \<Rightarrow> string list \<Rightarrow> mem_vfs \<Rightarrow> leaf_node vnode" where
  "mem_tree 0 d v = VDir [] []"
| "mem_tree (Suc k) d v = VDir
     (map (\<lambda>q. (last q, mem_tree k q v)) (filter (\<lambda>q. q \<noteq> [] \<and> butlast q = d) (mv_dirs v)))
     (map (\<lambda>(q, l). (last q, l)) (filter (\<lambda>(q, l). q \<noteq> [] \<and> butlast q = d) (mv_files v)))"

definition mem_ops :: "(mem_vfs, string list, leaf_node) prepopulated_ops" where
  "mem_ops = \<lparr>
     NewInMemoryPrepopulatedDirectory = (\<lambda>v.
       let d = [replicate (mv_roots v) (CHR ''r'')]
       in (d, v\<lparr>mv_roots := Suc (mv_roots v),
             mv_dirs := filter (\<lambda>q. \<not> strict_prefix d q) (mv_dirs v),
             mv_files := filter (\<lambda>(q, l). \<not> strict_prefix d q) (mv_files v)\<rparr>)),
     LookupAllChildren = (\<lambda>d v. mem_tree (Suc (length (mv_dirs v))) d v),
     CreateAndEnterPrepopulatedDirectory = (\<lambda>d n v.
       (Inr (d @ [n]), v\<lparr>mv_dirs := mv_dirs v @ [d @ [n]]\<rparr>)),
     CreateChildren = (\<lambda>d nodes overwrite v.
       if (\<exists>(n, l) \<in> set nodes. d @ [n] \<in> set (mv_dirs v)) then (Some (Errno EEXIST), v)
       else (None, v\<lparr>mv_files := map (\<lambda>(n, l). (d @ [n], l)) nodes @ mv_files v\<rparr>)),
     prepopulated_RemoveAllChildren = (\<lambda>d forbid v.
       (None, v\<lparr>mv_dirs := filter (\<lambda>q. \<not> strict_prefix d q) (mv_dirs v),
             mv_files := filter (\<lambda>(q, l). \<not> strict_prefix d q) (mv_files v)\<rparr>)),
     Unlink = (\<lambda>l v. v\<lparr>mv_unlinked := l # mv_unlinked v\<rparr>)\<rparr>"

abbreviation mem_file :: "mem_vfs \<Rightarrow> string list \<Rightarrow> leaf_node option" where
  "mem_file v \<equiv> map_of (mv_files v)"

abbreviation mem_dir_at :: "mem_vfs \<Rightarrow> string list \<Rightarrow> bool" where
  "mem_dir_at v q \<equiv> q \<in> set (mv_dirs v)"

lemma map_of_children:
  "map_of (map (\<lambda>(n, l). (d @ [n], l)) nodes) q =
   (if q \<noteq> [] \<and> butlast q = d then map_of nodes (last q) else None)"
proof (induction nodes)
  case (Cons a nodes)
  then show ?case by (cases a; cases q rule: rev_cases) auto
qed simp

lemma map_of_filter_out: "\<not> P q \<Longrightarrow> map_of (filter (\<lambda>(q, l). P q) xs) q = None"
  by (induction xs) auto

interpretation mem_fs: prepopulated_directory mem_ops mem_file mem_dir_at "\<lambda>d. d"
proof unfold_locales
  fix d n v d' v'
  show "CreateAndEnterPrepopulatedDirectory mem_ops d n v = (Inr d', v') \<Longrightarrow>
    mem_file v (d @ [n]) = None \<Longrightarrow> \<not> mem_dir_at v (d @ [n]) \<Longrightarrow>
    d' = d @ [n] \<and> mem_file v' = mem_file v \<and> mem_dir_at v' = (mem_dir_at v)(d @ [n] := True)"
    by (auto simp: mem_ops_def fun_eq_iff)
next
  fix d v v' and nodes :: "(string \<times> leaf_node) list"
  assume "CreateChildren mem_ops d nodes True v = (None, v')"
  then have "mv_files v' = map (\<lambda>(n, l). (d @ [n], l)) nodes @ mv_files v" "mv_dirs v' = mv_dirs v"
    by (auto simp: mem_ops_def split: if_splits)
  then show "mem_dir_at v' = mem_dir_at v \<and>
      mem_file v' = (\<lambda>q. if q \<noteq> [] \<and> butlast q = d \<and> map_of nodes (last q) \<noteq> None then map_of nodes (last q) else mem_file v q)"
    by (auto simp: fun_eq_iff map_of_children map_add_def split: option.splits)
next
  fix d v v' q
  assume "NewInMemoryPrepopulatedDirectory mem_ops v = (d, v')" "strict_prefix d q"
  then show "mem_file v' q = None \<and> \<not> mem_dir_at v' q"
    by (auto simp: mem_ops_def Let_def map_of_filter_out)
qed

section \<open>A concrete chain\<close>

definition chain_contents :: Directory where
  "chain_contents = \<lparr>Directories = [\<lparr>dn_Name = ''sub'', dn_FileRegion = Some \<lparr>OffsetBytes = 16, SizeBytes = 2\<rparr>\<rparr>],
     Files = [], Symlinks = [\<lparr>sn_Name = ''l'', sn_Target = ''t''\<rparr>]\<rparr>"

definition chain_time :: Timestamp where
  "chain_time = \<lparr>ts_Seconds = 1000, ts_Nanos = 0\<rparr>"

definition chain_root :: RootDirectory where
  "chain_root = \<lparr>InitialCreationTime = Some chain_time, Contents = Some chain_contents\<rparr>"

definition chain_codec :: codec where
  "chain_codec = \<lparr>marshalDirectory = demo_marshalD,
     marshalRoot = (\<lambda>r. if r = chain_root then Inr [7] else Inl (Foreign ''marshal'')),
     unmarshalDirectory = demo_unmarshalD,
     unmarshalRoot = (\<lambda>bs. if bs = [7] then Inr chain_root else Inl (Foreign ''unmarshal''))\<rparr>"

definition chain_tree :: "leaf_node vnode" where
  "chain_tree = VDir [(''sub'', VDir [] [(''a'', SymlinkN ''b'')])]
     [(''stable-status.txt'', SymlinkN ''z''), (''l'', SymlinkN ''t'')]"

definition chain_pf :: "(mem_vfs, string list, leaf_node, proto_digest, mem_state, unit,
    (mem_state, string, unit) directoryBackedWriter) persistentOutputPathFactory" where
  "chain_pf = \<lparr>pf_ops = mem_ops, pf_mapOrder = (\<lambda>m. m),
     pf_restorer = \<lparr>sr_LookupFile = FileN, sr_LookupSymlink = (\<lambda>t. Inr (SymlinkN t)), sr_NewDigestFromProto = Inr,
       sr_NewComponent = (\<lambda>n. n \<noteq> [])\<rparr>,
     pf_applyAppend = (\<lambda>l n d. Some (append_node l n d)),
     pf_store = main_outputPathStore (\<lambda>n. n \<noteq> []) chain_codec mem_dir 100
       \<lparr>CheckValid = \<lambda>_. None, AsTime = \<lambda>_. 1000000000000\<rparr> 3600000000000 1000000000001,
     pf_Now = chain_time\<rparr>"

definition chain_up :: "(mem_vfs, leaf_node) upload_ops" where
  "chain_up = \<lparr>ApplyUploadFile = (\<lambda>l v. (Some None, v)), flusher = (\<lambda>v. (None, v)), status_Code = (\<lambda>_. Internal)\<rparr>"

interpretation chain: output_path_factory "main_outputPathFactory chain_up chain_pf" "\<lambda>st. dom (md_files (snd st))"
  "\<lambda>op x. pop_outputBaseID op = x" "\<lambda>d st. \<forall>q. strict_prefix d q \<longrightarrow> mem_file (fst st) q = None \<and> \<not> mem_dir_at (fst st) q"
proof (rule main_factory_contract [OF mem.state_directory_axioms])
  show "pf_store chain_pf = main_outputPathStore (\<lambda>n. n \<noteq> []) chain_codec mem_dir 100
       \<lparr>CheckValid = \<lambda>_. None, AsTime = \<lambda>_. 1000000000000\<rparr> 3600000000000 1000000000001"
    by (simp add: chain_pf_def)
  fix v
  obtain d v' where "NewInMemoryPrepopulatedDirectory mem_ops v = (d, v')" by fastforce
  with mem_fs.new_law [OF this]
  show "\<forall>q. strict_prefix (fst (NewInMemoryPrepopulatedDirectory (pf_ops chain_pf) v)) q \<longrightarrow>
      mem_file (snd (NewInMemoryPrepopulatedDirectory (pf_ops chain_pf) v)) q = None \<and>
      \<not> mem_dir_at (snd (NewInMemoryPrepopulatedDirectory (pf_ops chain_pf) v)) q"
    by (auto simp: chain_pf_def)
qed

lemma chain_save:
  "\<exists>s. saveOutputPath chain_pf chain_tree ''x'' chain_time mem_empty = Returns (None, s) \<and>
     md_files s ''x'' = Some (header_bytes (region_for [1,2] [7]) @ [1,2] @ [7])"
  by (simp add: saveOutputPath_def chain_pf_def chain_tree_def main_outputPathStore_def maximumAgeStore_Store_def
     directoryBackedStore_Store_def dbs_Write_def getTemporaryName_def mem_dir_def mem_empty_def
     dbw_WriteDirectory_def WriteDirectory_def chain_codec_def demo_marshalD_def demo_dir_def empty_Directory_def
     writeMessage_def NewFileWriter_def bufio_NewWriterSize_def bufio_Write_def bufio_Write_loop.simps headerSizeBytes_def)
    (simp add: chain_root_def chain_contents_def chain_time_def
     dbw_Finalize_def Finalize_def writeMessage_def bufio_Write_def bufio_Write_loop.simps bufio_Flush_def
     offsetWriter_Write_def mem_WriteAt_def file_WriteAt_def splice_def header_bytes_def region_for_def
     fw_rawWriter_def Let_def headerMagic_def)

lemma chain_read:
  assumes "md_files s ''x'' = Some (header_bytes (region_for [1,2] [7]) @ [1,2] @ [7])"
  shows "store_Read (pf_store chain_pf) ''x'' s = (Returns (Inr ((\<lparr>rawReader =
      Some (file_ReadAt (header_bytes (region_for [1,2] [7]) @ [1,2] @ [7])), maximumOffsetBytes = 18\<rparr>, ()), chain_root)), s)"
proof -
  let ?c = "header_bytes (region_for [1,2] [7]) @ [1,2] @ [7]"
  have "NewFileReader (unmarshalRoot chain_codec) (file_ReadAt ?c) 100 =
      Returns (Inr (\<lparr>rawReader = Some (file_ReadAt ?c), maximumOffsetBytes = 16 + int (length [1, 2 :: 8 word])\<rparr>, chain_root))"
    by (rule reader_at.NewFileReader_finished [OF regular_file_reader.reader_at_axioms refl])
      (simp_all add: chain_codec_def)
  then show ?thesis using assms
    by (simp add: chain_pf_def main_outputPathStore_def maximumAgeStore_Store_def directoryBackedStore_Store_def
      dbs_Read_def mas_Read_def mem_dir_def timeToEpoch_def time_Sub_def trunc_div_def)
qed

lemma chain_restore:
  assumes "md_files s ''x'' = Some (header_bytes (region_for [1,2] [7]) @ [1,2] @ [7])"
  shows "\<exists>op v'. StartInitialBuild (main_outputPathFactory chain_up chain_pf) ''x'' (mem_vfs_empty, s) = Returns (op, [], v', s)"
proof -
  let ?c = "header_bytes (region_for [1,2] [7]) @ [1,2] @ [7]"
  have "readMessage demo_unmarshalD \<lparr>rawReader = Some (file_ReadAt ?c), maximumOffsetBytes = 18\<rparr>
      (int (length (header_bytes (region_for [1,2] [7])))) (int (length [1, 2 :: 8 word])) =
    Returns (Inr (\<lparr>rawReader = Some (file_ReadAt ?c), maximumOffsetBytes = int (length (header_bytes (region_for [1,2] [7])))\<rparr>, demo_dir))"
    by (rule reader_at.readMessage_content [OF regular_file_reader.reader_at_axioms, where post = "[7]"])
      (simp_all add: header_bytes_def demo_unmarshalD_def)
  then have rd: "ReadDirectory demo_unmarshalD \<lparr>rawReader = Some (file_ReadAt ?c), maximumOffsetBytes = 18\<rparr>
      (Some \<lparr>OffsetBytes = 16, SizeBytes = 2\<rparr>) =
    Returns (Inr (\<lparr>rawReader = Some (file_ReadAt ?c), maximumOffsetBytes = 16\<rparr>, demo_dir))"
    by (simp add: ReadDirectory_def header_bytes_def)
  have st: "pf_ops chain_pf = mem_ops" "pf_Now chain_pf = chain_time" "pf_mapOrder chain_pf = (\<lambda>m. m)"
    "reader_ReadDirectory (pf_store chain_pf) = ReadDirectory demo_unmarshalD" "reader_Close (pf_store chain_pf) () s = s"
    by (simp_all add: chain_pf_def main_outputPathStore_def maximumAgeStore_Store_def directoryBackedStore_Store_def
      chain_codec_def mem_dir_def)
  have "restoreDirectoryRecursive mem_ops (\<lambda>m. m) (ReadDirectory demo_unmarshalD) (pf_restorer chain_pf) (Suc 18)
      \<lparr>rawReader = Some (file_ReadAt ?c), maximumOffsetBytes = 18\<rparr> chain_contents [[]] []
      (mem_vfs_empty\<lparr>mv_roots := 1\<rparr>) = Returns (None, mem_vfs_empty\<lparr>mv_roots := 1, mv_dirs := [[[], ''sub'']],
        mv_files := [([[], ''l''], SymlinkN ''t''), ([[], ''sub'', ''a''], SymlinkN ''b'')]\<rparr>)"
    using rd
    by (simp add: chain_contents_def numeral_eq_Suc mem_vfs_empty_def) (simp add: chain_pf_def mem_ops_def demo_dir_def restore_leaves_def)
  then show ?thesis using chain_read [OF assms]
    by (simp add: main_outputPathFactory_def persistentOutputPathFactory_Factory_def persistent_StartInitialBuild_def
      localFileUploadingOutputPathFactory_def inMemoryOutputPathFactory_def st chain_root_def mem_vfs_empty_def)
     (simp add: mem_ops_def)
qed

section \<open>Starting a build returns\<close>

lemma dbs_Read_returns:
  assumes "\<forall>n s h ReadAt s'. OpenRead (dbs_directory st) n s = (Inr (h, ReadAt), s') \<longrightarrow> reader_contract ReadAt"
  shows "\<exists>res s'. dbs_Read c st x s = (Returns res, s') \<and>
    (\<forall>reader h root. res = Inr ((reader, h), root) \<longrightarrow> (\<exists>bs. unmarshalRoot c bs = Inr root) \<and>
       16 \<le> maximumOffsetBytes reader \<and> maximumOffsetBytes reader \<le> dbs_maximumStateFileSizeBytes st \<and>
       (\<exists>ReadAt. rawReader reader = Some ReadAt \<and> reader_contract ReadAt))"
proof -
  obtain r s1 where o: "OpenRead (dbs_directory st) x s = (r, s1)" by fastforce
  show ?thesis
  proof (cases r)
    case (Inl e)
    with o show ?thesis by (simp add: dbs_Read_def)
  next
    case (Inr y)
    obtain h ReadAt where y: "y = (h, ReadAt)" by fastforce
    have c: "reader_contract ReadAt" using assms o Inr y by blast
    from NewFileReader_total [OF c, of "unmarshalRoot c" "dbs_maximumStateFileSizeBytes st"] show ?thesis
    proof (elim disjE exE conjE)
      fix e assume "NewFileReader (unmarshalRoot c) ReadAt (dbs_maximumStateFileSizeBytes st) = Returns (Inl e)"
      with o Inr y show ?thesis by (simp add: dbs_Read_def)
    next
      fix reader root
      assume n: "NewFileReader (unmarshalRoot c) ReadAt (dbs_maximumStateFileSizeBytes st) = Returns (Inr (reader, root))"
        and l: "rawReader reader = Some ReadAt" "16 \<le> maximumOffsetBytes reader"
          "maximumOffsetBytes reader \<le> dbs_maximumStateFileSizeBytes st"
      then obtain bs where "unmarshalRoot c bs = Inr root"
        by (auto simp: NewFileReader_def readMessage_def Let_def exec_try_Returns_Inr case_sum_Returns_Inr
            split: if_splits sum.splits)
      with o Inr y n l c show ?thesis by (simp add: dbs_Read_def) blast
    qed
  qed
qed

text \<open>
  The one input on which it does not: a maximum age of zero, and a state file that can be read
  and has a valid creation time.
\<close>

definition divides_by_zero ::
    "codec \<Rightarrow> ('s, 'h, 'r) directoryBackedStore \<Rightarrow> time_ops \<Rightarrow> int \<Rightarrow> string \<Rightarrow> 's \<Rightarrow> bool" where
  "divides_by_zero c st tm age x s \<longleftrightarrow> age = 0 \<and> (\<exists>reader root s'. dbs_Read c st x s = (Returns (Inr (reader, root)), s') \<and>
     CheckValid tm (InitialCreationTime root) = None)"

lemma main_read_returns:
  assumes "\<forall>n s h ReadAt s'. OpenRead dir n s = (Inr (h, ReadAt), s') \<longrightarrow> reader_contract ReadAt"
    and "\<not> divides_by_zero c \<lparr>dbs_directory = dir, dbs_maximumStateFileSizeBytes = m\<rparr> tm age x s"
  shows "\<exists>res s'. store_Read (main_outputPathStore nc c dir m tm age now) x s = (Returns res, s') \<and>
    (\<forall>reader h root. res = Inr ((reader, h), root) \<longrightarrow> (\<exists>bs. unmarshalRoot c bs = Inr root) \<and>
       16 \<le> maximumOffsetBytes reader \<and> maximumOffsetBytes reader \<le> m \<and>
       (\<exists>ReadAt. rawReader reader = Some ReadAt \<and> reader_contract ReadAt))"
proof -
  let ?st = "\<lparr>dbs_directory = dir, dbs_maximumStateFileSizeBytes = m\<rparr>"
  obtain res s' where r: "dbs_Read c ?st x s = (Returns res, s')"
    and res: "\<forall>reader h root. res = Inr ((reader, h), root) \<longrightarrow> (\<exists>bs. unmarshalRoot c bs = Inr root) \<and>
       16 \<le> maximumOffsetBytes reader \<and> maximumOffsetBytes reader \<le> m \<and>
       (\<exists>ReadAt. rawReader reader = Some ReadAt \<and> reader_contract ReadAt)"
    using dbs_Read_returns [of ?st c x s] assms(1) by auto
  have "store_Read (main_outputPathStore nc c dir m tm age now) = mas_Read tm (dbs_Read c ?st) (CloseRead dir) age now"
    by (simp add: main_outputPathStore_def maximumAgeStore_Store_def directoryBackedStore_Store_def)
  with r res assms(2) show ?thesis
    by (cases res) (auto simp: divides_by_zero_def mas_Read_def Let_def timeToEpoch_def split: option.splits)
qed

lemma main_start_panics:
  assumes "pf_store pf = main_outputPathStore nc c dir m tm age now"
    and "divides_by_zero c \<lparr>dbs_directory = dir, dbs_maximumStateFileSizeBytes = m\<rparr> tm age x (snd st)"
  shows "StartInitialBuild (main_outputPathFactory up pf) x st = Panics ''integer divide by zero''"
proof -
  let ?st = "\<lparr>dbs_directory = dir, dbs_maximumStateFileSizeBytes = m\<rparr>"
  obtain reader root s' where "dbs_Read c ?st x (snd st) = (Returns (Inr (reader, root)), s')"
    "CheckValid tm (InitialCreationTime root) = None" "age = 0"
    using assms(2) unfolding divides_by_zero_def by blast
  then have "store_Read (pf_store pf) x (snd st) = (Panics ''integer divide by zero'', s')"
    using zero_age_panics [of "dbs_Read c ?st" x "snd st" reader root s' tm]
    by (simp add: assms(1) main_outputPathStore_def maximumAgeStore_Store_def directoryBackedStore_Store_def)
  moreover obtain d v where "NewInMemoryPrepopulatedDirectory (pf_ops pf) (fst st) = (d, v)" by fastforce
  ultimately show ?thesis
    by (simp add: main_outputPathFactory_def persistentOutputPathFactory_Factory_def persistent_StartInitialBuild_def
        localFileUploadingOutputPathFactory_def inMemoryOutputPathFactory_def)
qed

lemma main_start_returns:
  assumes "\<forall>n s h ReadAt s'. OpenRead dir n s = (Inr (h, ReadAt), s') \<longrightarrow> reader_contract ReadAt"
    and "pf_store pf = main_outputPathStore nc c dir m tm age now"
      "\<not> divides_by_zero c \<lparr>dbs_directory = dir, dbs_maximumStateFileSizeBytes = m\<rparr> tm age x (snd st)" "m \<le> 2 ^ 63 - 2 ^ 31"
    and dec: "decodes_int32 (unmarshalDirectory c)"
      "\<forall>bs root contents. unmarshalRoot c bs = Inr root \<longrightarrow> Contents root = Some contents \<longrightarrow> regions_int32 (Directories contents)"
  shows "\<exists>res. StartInitialBuild (main_outputPathFactory up pf) x st = Returns res"
proof -
  obtain d v where d: "NewInMemoryPrepopulatedDirectory (pf_ops pf) (fst st) = (d, v)" by fastforce
  obtain res s' where r: "store_Read (pf_store pf) x (snd st) = (Returns res, s')"
    and res: "\<forall>reader h root. res = Inr ((reader, h), root) \<longrightarrow> (\<exists>bs. unmarshalRoot c bs = Inr root) \<and>
       16 \<le> maximumOffsetBytes reader \<and> maximumOffsetBytes reader \<le> m \<and>
       (\<exists>ReadAt. rawReader reader = Some ReadAt \<and> reader_contract ReadAt)"
    using main_read_returns [OF assms(1,3), of nc now] assms(2) by auto
  have rd: "reader_ReadDirectory (pf_store pf) = ReadDirectory (unmarshalDirectory c)"
    by (simp add: assms(2) main_outputPathStore_def maximumAgeStore_Store_def directoryBackedStore_Store_def)
  note unfold = main_outputPathFactory_def persistentOutputPathFactory_Factory_def persistent_StartInitialBuild_def
    localFileUploadingOutputPathFactory_def inMemoryOutputPathFactory_def Let_def
  show ?thesis
  proof (cases res)
    case (Inl e)
    with d r show ?thesis by (simp add: unfold)
  next
    case (Inr y)
    obtain reader h root where y: "y = ((reader, h), root)" by (metis prod.collapse)
    show ?thesis
    proof (cases "Contents root")
      case None
      with d r Inr y show ?thesis by (simp add: unfold)
    next
      case (Some contents)
      have "reader_ok reader" "16 \<le> maximumOffsetBytes reader" "regions_int32 (Directories contents)"
        using res Inr y Some assms(4) dec(2) by (auto simp: reader_ok_def)
      then obtain err v2 where "restoreDirectoryRecursive (pf_ops pf) (pf_mapOrder pf) (ReadDirectory (unmarshalDirectory c))
          (pf_restorer pf) (Suc (nat (maximumOffsetBytes reader))) reader contents d [] v = Returns (err, v2)"
        using restore_returns(1) [OF dec(1), of reader contents] by (metis lessI prod.exhaust)
      with d r Inr y Some rd show ?thesis by (simp add: unfold del: restoreDirectoryRecursive.simps)
    qed
  qed
qed

section \<open>Uploading as an iteration over the leaves\<close>

text \<open>The leaves of a tree in the order they are visited, and the directories that cannot be read.\<close>

datatype 'l visit = Leaf "string list" 'l | Unreadable "string list" go_error

fun visits :: "string list \<Rightarrow> 'l vnode \<Rightarrow> 'l visit list"
  and visits_list :: "string list \<Rightarrow> (string \<times> 'l vnode) list \<Rightarrow> 'l visit list" where
  "visits dPath (LookupFails err) = [Unreadable dPath err]"
| "visits dPath (VDir directories leaves) =
     visits_list dPath directories @ map (\<lambda>(n, l). Leaf (dPath @ [n]) l) leaves"
| "visits_list dPath [] = []"
| "visits_list dPath ((n, t) # ts) = visits (dPath @ [n]) t @ visits_list dPath ts"

fun upload_visits :: "('s, 'l) upload_ops \<Rightarrow> string \<Rightarrow> 'l visit list \<Rightarrow> 's \<Rightarrow> (go_error option \<times> 's) exec" where
  "upload_visits up outputBaseID [] s = Returns (None, s)"
| "upload_visits up outputBaseID (Unreadable p err # vs) s =
     Returns (Some (StatusWrap (Some err) ''Failed to look up children of directory %#v in output path %#v''
       [FPath p, FStr outputBaseID]), s)"
| "upload_visits up outputBaseID (Leaf p l # vs) s =
     (case ApplyUploadFile up l s of
        (None, s1) \<Rightarrow> Panics ''output path contains leaves that don't support ApplyUploadFile''
      | (Some err, s1) \<Rightarrow>
          (case err of
             Some e \<Rightarrow>
               if status_Code up e = InvalidArgument then upload_visits up outputBaseID vs s1
               else Returns (Some (StatusWrap (Some e) ''Failed to upload local file %#v in output path %#v''
                      [FPath p, FStr outputBaseID]), s1)
           | None \<Rightarrow> upload_visits up outputBaseID vs s1))"

lemma upload_visits_append:
  "upload_visits up x (vs @ ws) s = exec_bind (upload_visits up x vs s) (\<lambda>(err, s1).
     case err of Some e \<Rightarrow> Returns (Some e, s1) | None \<Rightarrow> upload_visits up x ws s1)"
  by (induction up x vs s rule: upload_visits.induct) (auto split: prod.splits option.splits)

lemma upload_leaves_visits:
  "upload_leaves up x dPath leaves s = upload_visits up x (map (\<lambda>(n, l). Leaf (dPath @ [n]) l) leaves) s"
  by (induction up x dPath leaves s rule: upload_leaves.induct) (auto split: prod.splits option.splits)

lemma uploadLocalFilesRecursive_visits:
  "uploadLocalFilesRecursive up x dPath tree s = upload_visits up x (visits dPath tree) s"
  "upload_directories up x dPath ts s = upload_visits up x (visits_list dPath ts) s"
  by (induction up x dPath tree s and up x dPath ts s rule: uploadLocalFilesRecursive_upload_directories.induct)
    (auto simp: upload_visits_append upload_leaves_visits intro!: arg_cong2 [where f = exec_bind] split: option.splits)

lemma upload_visits_silent:
  "upload_visits up x vs s = Returns (None, s') \<Longrightarrow>
   (\<forall>v \<in> set vs. \<exists>p l. v = Leaf p l) \<and>
   s' = fold (\<lambda>v s. case v of Leaf p l \<Rightarrow> snd (ApplyUploadFile up l s) | Unreadable p e \<Rightarrow> s) vs s"
  by (induction up x vs s rule: upload_visits.induct) (auto split: prod.splits option.splits if_splits)

lemma silent_upload:
  assumes "localFileUploading_FinalizeBuild base lookupAll up op s = Returns ([], s')"
  shows "\<exists>s1. FinalizeBuild base (lfu_OutputPath op) s = Returns ([], s1) \<and>
    (let vs = visits [] (lookupAll (op_directory base (lfu_OutputPath op)) s1)
     in (\<forall>v \<in> set vs. \<exists>p l. v = Leaf p l) \<and>
        flusher up (fold (\<lambda>v s. case v of Leaf p l \<Rightarrow> snd (ApplyUploadFile up l s) | Unreadable p e \<Rightarrow> s) vs s1) = (None, s'))"
proof -
  let ?t = "\<lambda>s1. lookupAll (op_directory base (lfu_OutputPath op)) s1"
  obtain log s1 where b: "FinalizeBuild base (lfu_OutputPath op) s = Returns (log, s1)"
    using assms by (auto simp: localFileUploading_FinalizeBuild_def)
  obtain err1 s2 where u: "upload_visits up (lfu_outputBaseID op) (visits [] (?t s1)) s1 = Returns (err1, s2)"
    using assms b by (auto simp: localFileUploading_FinalizeBuild_def uploadLocalFilesRecursive_visits)
  obtain err2 s3 where f: "flusher up s2 = (err2, s3)" by fastforce
  have "log = []" "err1 = None" "err2 = None" "s3 = s'"
    using assms b u f
    by (auto simp: localFileUploading_FinalizeBuild_def uploadLocalFilesRecursive_visits split: option.splits)
  with b u f upload_visits_silent [of up _ _ s1 s2] show ?thesis by (auto simp: Let_def)
qed

section \<open>Finalizing is atomic\<close>

context state_directory
begin

lemma succeeded_saveOutputPath_files:
  assumes pf: "pf_store pf = directoryBackedStore_Store nc c (store m)"
    and save: "saveOutputPath pf tree x t s = Returns (None, s')"
  shows "\<exists>bs. files s' = (files s)(x @ ''.tmp'' := None, x \<mapsto> bs)"
  using pf save
proof (cases rule: saveOutputPath_cases)
  case (2 w s1 res fw)
  note law = dbs_Write_law [OF 2(1)]
  from 2 obtain contents where res: "res = Inr contents" by (cases res) auto
  with 2(4) have fin: "dbw_Finalize c \<lparr>InitialCreationTime = Some t, Contents = Some contents\<rparr> (w\<lparr>dbw_writer := fw\<rparr>) =
      Returns (None, s')" by simp
  have inv: "session_inv ((files s)(x @ ''.tmp'' := None)) (dbw_temporaryFile (w\<lparr>dbw_writer := fw\<rparr>))
      (dbw_state (w\<lparr>dbw_writer := fw\<rparr>))"
    using 2(3) by (simp add: dbw_state_def)
  obtain fw' where "files s' = (files s)(x @ ''.tmp'' := None, x @ ''.tmp'' := None,
      x \<mapsto> inode (dbw_temporaryFile w) (fw_rawWriter fw'))"
    using dbw_Finalize_succeeds [OF fin _ _ _ inv] law by auto
  then show ?thesis by auto
qed simp

end

lemma main_store_update:
  "main_outputPathStore nc c dir m tm age now =
    (directoryBackedStore_Store nc c \<lparr>dbs_directory = dir, dbs_maximumStateFileSizeBytes = m\<rparr>)
      \<lparr>store_Read := store_Read (main_outputPathStore nc c dir m tm age now)\<rparr>"
  by (simp add: main_outputPathStore_def maximumAgeStore_Store_def)

lemma finalize_atomic:
  assumes D: "state_directory dir files inode hname"
    and pf: "pf_store pf = main_outputPathStore nc c dir m tm age now"
    and fin: "persistent_FinalizeBuild pf base op (v, s) = Returns (log, v', s')"
    and base: "FinalizeBuild base (pop_OutputPath op) v = Returns (log0, v0)"
    and tree: "tree = LookupAllChildren (pf_ops pf) (op_directory base (pop_OutputPath op)) v0"
  shows "if log = log0
    then \<exists>bs. files s' = (files s)(pop_outputBaseID op @ ''.tmp'' := None, pop_outputBaseID op \<mapsto> bs) \<and>
      (codec_ok (marshalDirectory c) (unmarshalDirectory c) \<and> appends_nodes (pf_applyAppend pf) persists \<and>
       (\<forall>r bs. marshalRoot c r = Inr bs \<longrightarrow> bs \<noteq> [] \<and> length bs < 2 ^ 31 \<and> unmarshalRoot c bs = Inr r) \<and>
       2 ^ 31 * (ndirs tree + 1) \<le> 2 ^ 63 - 17 \<longrightarrow>
       (\<exists>B rb contents. bs = header_bytes (region_for B rb) @ B @ rb \<and>
          unmarshalRoot c rb = Inr \<lparr>InitialCreationTime = Some (pop_initialCreationTime op), Contents = Some contents\<rparr> \<and>
          stored (unmarshalDirectory c) persists B (length B) [] contents tree))
    else \<forall>n. n \<noteq> pop_outputBaseID op @ ''.tmp'' \<longrightarrow> files s' n = files s n"
proof -
  let ?S = "directoryBackedStore_Store nc c \<lparr>dbs_directory = dir, dbs_maximumStateFileSizeBytes = m\<rparr>"
  obtain err where save: "saveOutputPath pf tree (pop_outputBaseID op) (pop_initialCreationTime op) s = Returns (err, s')"
    and log: "log = log0 \<longleftrightarrow> err = None"
    using fin base tree by (auto simp: persistent_FinalizeBuild_def split: option.splits)
  have save': "saveOutputPath (pf\<lparr>pf_store := ?S\<rparr>) tree (pop_outputBaseID op) (pop_initialCreationTime op) s = Returns (err, s')"
    using save saveOutputPath_read_irrelevant [OF trans [OF pf main_store_update]] by metis
  have pf': "pf_store (pf\<lparr>pf_store := ?S\<rparr>) = ?S" by simp
  show ?thesis
  proof (cases err)
    case None
    note saved = save' [unfolded None]
    obtain bs where bs: "files s' = (files s)(pop_outputBaseID op @ ''.tmp'' := None, pop_outputBaseID op \<mapsto> bs)"
      using state_directory.succeeded_saveOutputPath_files [OF D pf' saved] by blast
    then have "files s' (pop_outputBaseID op) = Some bs" by simp
    note state_file = this
    have "\<exists>B rb contents. bs = header_bytes (region_for B rb) @ B @ rb \<and>
          unmarshalRoot c rb = Inr \<lparr>InitialCreationTime = Some (pop_initialCreationTime op), Contents = Some contents\<rparr> \<and>
          stored (unmarshalDirectory c) persists B (length B) [] contents tree"
      if "codec_ok (marshalDirectory c) (unmarshalDirectory c)" and a: "appends_nodes (pf_applyAppend pf) persists"
        and "\<forall>r bs. marshalRoot c r = Inr bs \<longrightarrow> bs \<noteq> [] \<and> length bs < 2 ^ 31 \<and> unmarshalRoot c bs = Inr r"
        and "2 ^ 31 * (ndirs tree + 1) \<le> 2 ^ 63 - 17"
    proof -
      have a': "appends_nodes (pf_applyAppend (pf\<lparr>pf_store := ?S\<rparr>)) persists" using a by simp
      show ?thesis
        by (rule state_directory.saved_output_path [OF D pf' saved that(1) a' that(3,4)]) (use state_file in auto)
    qed
    with bs None log show ?thesis by auto
  next
    case (Some e)
    then have "files s' n = files s n" if "n \<noteq> pop_outputBaseID op @ ''.tmp''" for n
      using save' state_directory.failed_saveOutputPath_keeps_files [OF D pf'] that by blast
    with Some log show ?thesis by simp
  qed
qed

lemma main_restored_output_path:
  assumes D: "state_directory dir files inode hname" and P: "prepopulated_directory (pf_ops pf) pfiles pdirs at"
    and pf: "pf_store pf = main_outputPathStore nc c dir m tm age now"
    and save: "saveOutputPath pf tree x t s = Returns (None, s')"
    and start: "StartInitialBuild (main_outputPathFactory up pf) x (v, s') = Returns (op, [], (v', s''))"
    and codec: "codec_ok (marshalDirectory c) (unmarshalDirectory c)" "appends_nodes (pf_applyAppend pf) persists"
    and codecR: "\<forall>r bs. marshalRoot c r = Inr bs \<longrightarrow> bs \<noteq> [] \<and> length bs < 2 ^ 31 \<and> unmarshalRoot c bs = Inr r"
    and wf: "wf_tree tree" and bound: "2 ^ 31 * (ndirs tree + 1) \<le> 2 ^ 63 - 17"
    and fits: "\<forall>bs. files s' x = Some bs \<longrightarrow> int (length bs) \<le> m" "m < 2 ^ 63"
  shows "pop_initialCreationTime op = t \<and> pop_outputBaseID op = x \<and>
    (\<forall>n r. pfiles v' (at (op_directory (main_outputPathFactory up pf) op) @ n # r) =
         view (pf_restorer pf) persists [] tree (n # r) \<and>
       pdirs v' (at (op_directory (main_outputPathFactory up pf) op) @ n # r) = dir_at tree (n # r))"
proof -
  let ?S = "directoryBackedStore_Store nc c \<lparr>dbs_directory = dir, dbs_maximumStateFileSizeBytes = m\<rparr>"
  let ?pf = "pf\<lparr>pf_store := ?S\<rparr>"
  let ?base = "localFileUploadingOutputPathFactory (inMemoryOutputPathFactory (pf_ops pf)) (LookupAllChildren (pf_ops pf)) up"
  have save': "saveOutputPath ?pf tree x t s = Returns (None, s')"
    using save saveOutputPath_read_irrelevant [OF trans [OF pf main_store_update]] by metis
  have start1: "persistent_StartInitialBuild pf ?base x (v, s') = Returns (op, [], (v', s''))"
    using start by (simp add: main_outputPathFactory_def persistentOutputPathFactory_Factory_def)
  obtain v1 reader h root contents d1 where S: "StartInitialBuild ?base x v = Returns (pop_OutputPath op, [], v1)"
    "store_Read (pf_store pf) x s' = (Returns (Inr ((reader, h), root)), d1)" "Contents root = Some contents"
    "restoreDirectoryRecursive (pf_ops pf) (pf_mapOrder pf) (reader_ReadDirectory (pf_store pf)) (pf_restorer pf)
       (Suc (nat (maximumOffsetBytes reader))) reader contents (op_directory ?base (pop_OutputPath op)) [] v1 = Returns (None, v')"
    "pop_outputBaseID op = x" "pop_initialCreationTime op = (case InitialCreationTime root of None \<Rightarrow> pf_Now pf | Some t \<Rightarrow> t)"
    using persistent_StartInitialBuild_silent [OF start1] by metis
  have "store_Read ?S x s' = (Returns (Inr ((reader, h), root)), d1)"
    using S(2) mas_Read_Inr by (simp add: pf main_outputPathStore_def maximumAgeStore_Store_def)
  moreover have "reader_ReadDirectory (pf_store pf) = reader_ReadDirectory ?S"
    by (simp add: pf main_outputPathStore_def maximumAgeStore_Store_def)
  ultimately have start': "persistent_StartInitialBuild ?pf ?base x (v, s') = Returns (op, [], (v', reader_Close ?S h d1))"
    using S by (cases op) (simp add: persistent_StartInitialBuild_def Let_def split: option.split del: restoreDirectoryRecursive.simps)
  have "op_directory (main_outputPathFactory up pf) op = op_directory ?base (pop_OutputPath op)"
    by (simp add: main_outputPathFactory_def persistentOutputPathFactory_Factory_def)
  moreover have "NewInMemoryPrepopulatedDirectory (pf_ops ?pf) v = (op_directory ?base b, v1)"
    if "StartInitialBuild ?base x v = Returns (b, log, v1)" for b log v1
    using that by (auto simp: localFileUploadingOutputPathFactory_def inMemoryOutputPathFactory_def split: prod.splits)
  ultimately show ?thesis
    using restored_output_path [where pf = ?pf and base = ?base and x = x and tree = tree and t = t and s = s and s' = s' and v = v
        and op = op and v' = v', OF D _ _ save' _ start' codec(1) _ codecR wf bound fits] P codec(2) by simp
qed

section \<open>Properties\<close>

lemma chain_pf_store: "pf_store chain_pf = main_outputPathStore (\<lambda>n. n \<noteq> []) chain_codec mem_dir 100
    \<lparr>CheckValid = \<lambda>_. None, AsTime = \<lambda>_. 1000000000000\<rparr> 3600000000000 1000000000001"
  by (simp add: chain_pf_def)

lemma chain_OpenRead: "OpenRead mem_dir n s = (Inr (h, ReadAt), s') \<Longrightarrow> reader_contract ReadAt"
  by (auto simp: mem_dir_def file_ReadAt_contract split: option.splits)

text \<open>
  When saving an output path at the end
  of a build succeeds, and the next process starts a build on the same output base without
  logging an error, the virtual directory of the new output path holds exactly the saved tree:
  every path below it that was a directory is one, every file and symbolic link is the one its
  node in the state file stands for, and nothing else exists (the two workspace status files
  at the top, and leaves that persist as nothing, are left out). The creation time recorded at
  first is kept. The Protobuf codec round trips and makes messages below 2 GiB; names are
  distinct within a directory.
\<close>

theorem output_path_survives_restart:
  assumes D: "state_directory dir files inode hname" and P: "prepopulated_directory (pf_ops pf) pfiles pdirs at"
    and pf: "pf_store pf = main_outputPathStore nc c dir m tm age now"
    and save: "saveOutputPath pf tree x t s = Returns (None, s')"
    and start: "StartInitialBuild (main_outputPathFactory up pf) x (v, s') = Returns (op, [], (v', s''))"
    and codec: "codec_ok (marshalDirectory c) (unmarshalDirectory c)" "appends_nodes (pf_applyAppend pf) persists"
    and codecR: "\<forall>r bs. marshalRoot c r = Inr bs \<longrightarrow> bs \<noteq> [] \<and> length bs < 2 ^ 31 \<and> unmarshalRoot c bs = Inr r"
    and wf: "wf_tree tree" and bound: "2 ^ 31 * (ndirs tree + 1) \<le> 2 ^ 63 - 17"
    and fits: "\<forall>bs. files s' x = Some bs \<longrightarrow> int (length bs) \<le> m" "m < 2 ^ 63"
  shows "pop_initialCreationTime op = t \<and> pop_outputBaseID op = x \<and>
    (\<forall>n r. pfiles v' (at (op_directory (main_outputPathFactory up pf) op) @ n # r) =
         view (pf_restorer pf) persists [] tree (n # r) \<and>
       pdirs v' (at (op_directory (main_outputPathFactory up pf) op) @ n # r) = dir_at tree (n # r))"
  by (rule main_restored_output_path [OF assms])

theorem output_path_survives_restart_witness:
  "\<exists>s op v'. saveOutputPath chain_pf chain_tree ''x'' chain_time mem_empty = Returns (None, s) \<and>
     StartInitialBuild (main_outputPathFactory chain_up chain_pf) ''x'' (mem_vfs_empty, s) = Returns (op, [], v', s) \<and>
     pop_initialCreationTime op = chain_time \<and>
     mem_file v' (op_directory (main_outputPathFactory chain_up chain_pf) op @ [''sub'', ''a'']) = Some (SymlinkN ''b'')"
proof -
  obtain s where s: "saveOutputPath chain_pf chain_tree ''x'' chain_time mem_empty = Returns (None, s)"
    "md_files s ''x'' = Some (header_bytes (region_for [1,2] [7]) @ [1,2] @ [7])" using chain_save by blast
  obtain op v' where r: "StartInitialBuild (main_outputPathFactory chain_up chain_pf) ''x'' (mem_vfs_empty, s) = Returns (op, [], v', s)"
    using chain_restore [OF s(2)] by blast
  have P: "prepopulated_directory (pf_ops chain_pf) mem_file mem_dir_at (\<lambda>d. d)"
    using mem_fs.prepopulated_directory_axioms by (simp add: chain_pf_def)
  have "pop_initialCreationTime op = chain_time \<and> pop_outputBaseID op = ''x'' \<and>
    (\<forall>n r. mem_file v' (op_directory (main_outputPathFactory chain_up chain_pf) op @ n # r) =
         view (pf_restorer chain_pf) (\<lambda>l. l) [] chain_tree (n # r) \<and>
       mem_dir_at v' (op_directory (main_outputPathFactory chain_up chain_pf) op @ n # r) = dir_at chain_tree (n # r))"
    by (rule output_path_survives_restart [OF mem.state_directory_axioms P chain_pf_store s(1) r])
      (use s(2) in \<open>auto simp: codec_ok_def chain_codec_def demo_marshalD_def demo_unmarshalD_def appends_nodes_def
         chain_pf_def chain_tree_def header_bytes_def\<close>)
  moreover have "view (pf_restorer chain_pf) (\<lambda>l. l) [] chain_tree [''sub'', ''a''] = Some (SymlinkN ''b'')"
    by (simp add: chain_tree_def chain_pf_def kept_def)
  ultimately show ?thesis using s(1) r by (metis (no_types, lifting))
qed

text \<open>
  C16. Starting a build returns, whatever the state file holds, with one exception. State files
  may be truncated, corrupt or written with references of their directories in any order; the
  permitted offsets shrink with every level, so restoring cannot be sent in circles. The
  exception is a maximum age of zero: then the first state file that can be read and has a valid
  creation time makes the call panic, and only such a file does. Decoded sizes are 32-bit
  integers, and the maximum file size leaves room for one.
\<close>

theorem start_build_returns:
  assumes "\<forall>n s h ReadAt s'. OpenRead dir n s = (Inr (h, ReadAt), s') \<longrightarrow> reader_contract ReadAt"
    and "pf_store pf = main_outputPathStore nc c dir m tm age now" "m \<le> 2 ^ 63 - 2 ^ 31"
    and "decodes_int32 (unmarshalDirectory c)"
    and "\<forall>bs root contents. unmarshalRoot c bs = Inr root \<longrightarrow> Contents root = Some contents \<longrightarrow> regions_int32 (Directories contents)"
  shows "if age = 0 \<and> (\<exists>reader root s'. dbs_Read c \<lparr>dbs_directory = dir, dbs_maximumStateFileSizeBytes = m\<rparr> x (snd st) =
        (Returns (Inr (reader, root)), s') \<and> CheckValid tm (InitialCreationTime root) = None)
    then StartInitialBuild (main_outputPathFactory up pf) x st = Panics ''integer divide by zero''
    else \<exists>res. StartInitialBuild (main_outputPathFactory up pf) x st = Returns res"
  unfolding divides_by_zero_def [symmetric]
  using main_start_panics [OF assms(2)] main_start_returns [OF assms(1,2) _ assms(3-5)] by simp

theorem start_build_returns_witness:
  "\<exists>res. StartInitialBuild (main_outputPathFactory chain_up chain_pf) ''x''
     (mem_vfs_empty, mem_empty\<lparr>md_files := [''x'' \<mapsto> [1, 2, 3]]\<rparr>) = Returns res"
  using start_build_returns [OF _ chain_pf_store, where up = chain_up and x = "''x''" and st = "(mem_vfs_empty, mem_empty\<lparr>md_files := [''x'' \<mapsto> [1, 2, 3]]\<rparr>)"]
    chain_OpenRead
  by (auto simp: chain_codec_def decodes_int32_def demo_unmarshalD_def regions_int32_def
       chain_root_def chain_contents_def demo_dir_def empty_Directory_def split: if_splits)

text \<open>
  After \<^verbatim>\<open>Clean\<close> of an output base by the whole chain
  of factories, or after all children of its output path were removed for good, a build that
  starts on the output base finds no state to restore, and its output path is an empty
  directory.
\<close>

theorem cleaned_output_path_starts_empty:
  assumes "state_directory dir files inode hname" "pf_store pf = main_outputPathStore nc c dir m tm age now"
    and "\<And>v. empty_dir (fst (NewInMemoryPrepopulatedDirectory (pf_ops pf) v)) (snd (NewInMemoryPrepopulatedDirectory (pf_ops pf) v))"
    and "opf_Clean (main_outputPathFactory up pf) x st = (None, st1) \<or>
      (RemoveAllChildren (main_outputPathFactory up pf) op0 True st = (None, st1) \<and> pop_outputBaseID op0 = x)"
    and "StartInitialBuild (main_outputPathFactory up pf) x st1 = Returns (op, log, st2)"
  shows "empty_dir (op_directory (main_outputPathFactory up pf) op) (fst st2)"
proof -
  note F = main_factory_contract [where empty_dir = empty_dir and up = up, OF assms(1-3)]
  have "x \<notin> dom (files (snd st1))"
    using assms(4) output_path_factory.clean_law [OF F, of x st st1] output_path_factory.remove_law [OF F, of op0 st st1 x] by blast
  from output_path_factory.start_empty [OF F assms(5) this] show ?thesis .
qed

theorem cleaned_output_path_starts_empty_witness:
  "\<exists>s1 op log v2 s2. opf_Clean (main_outputPathFactory chain_up chain_pf) ''x''
     (mem_vfs_empty, mem_empty\<lparr>md_files := [''x'' \<mapsto> [1, 2, 3]]\<rparr>) = (None, mem_vfs_empty, s1) \<and>
     StartInitialBuild (main_outputPathFactory chain_up chain_pf) ''x'' (mem_vfs_empty, s1) = Returns (op, log, v2, s2) \<and>
     (\<forall>q. strict_prefix (op_directory (main_outputPathFactory chain_up chain_pf) op) q \<longrightarrow>
        mem_file v2 q = None \<and> \<not> mem_dir_at v2 q)"
proof -
  let ?F = "main_outputPathFactory chain_up chain_pf"
  have c: "opf_Clean ?F ''x'' (mem_vfs_empty, mem_empty\<lparr>md_files := [''x'' \<mapsto> [1, 2, 3]]\<rparr>) = (None, mem_vfs_empty, mem_empty)"
    by (simp add: main_outputPathFactory_def persistentOutputPathFactory_Factory_def persistent_Clean_def
        localFileUploadingOutputPathFactory_def inMemoryOutputPathFactory_def chain_pf_def main_outputPathStore_def
        maximumAgeStore_Store_def directoryBackedStore_Store_def dbs_Clean_def getTemporaryName_def mem_dir_def mem_empty_def)
  have "\<exists>op log v2 s2. StartInitialBuild ?F ''x'' (mem_vfs_empty, mem_empty) = Returns (op, log, v2, s2)"
    by (simp add: Let_def mem_vfs_empty_def main_outputPathFactory_def persistentOutputPathFactory_Factory_def persistent_StartInitialBuild_def
        localFileUploadingOutputPathFactory_def inMemoryOutputPathFactory_def chain_pf_def main_outputPathStore_def
        maximumAgeStore_Store_def directoryBackedStore_Store_def dbs_Read_def mas_Read_def mem_dir_def mem_empty_def
        mem_ops_def)
  then obtain op log v2 s2 where r: "StartInitialBuild ?F ''x'' (mem_vfs_empty, mem_empty) = Returns (op, log, v2, s2)" by blast
  have e: "\<forall>q. strict_prefix (fst (NewInMemoryPrepopulatedDirectory (pf_ops chain_pf) v)) q \<longrightarrow>
      mem_file (snd (NewInMemoryPrepopulatedDirectory (pf_ops chain_pf) v)) q = None \<and>
      \<not> mem_dir_at (snd (NewInMemoryPrepopulatedDirectory (pf_ops chain_pf) v)) q" for v
    using mem_fs.new_law [OF prod.collapse [symmetric], of v] by (simp add: chain_pf_def)
  have "\<forall>q. strict_prefix (op_directory ?F op) q \<longrightarrow> mem_file (fst (v2, s2)) q = None \<and> \<not> mem_dir_at (fst (v2, s2)) q"
    by (rule cleaned_output_path_starts_empty [where
          empty_dir = "\<lambda>d v. \<forall>q. strict_prefix d q \<longrightarrow> mem_file v q = None \<and> \<not> mem_dir_at v q",
          OF mem.state_directory_axioms chain_pf_store e disjI1 [OF c] r])
  with c r show ?thesis by (intro exI conjI) simp_all
qed

text \<open>
  C2. Finalizing a build is atomic on the state directory, apart from the temporary file. If
  saving the output path fails at any step (a directory that cannot be read or encoded, a write,
  sync, close or rename that fails), one error is logged and every file of the state directory
  except \<^verbatim>\<open>x.tmp\<close>, for output base x, is as it was, the previous state file of x included. If
  nothing more is logged, the state file of x was replaced and nothing else but \<^verbatim>\<open>x.tmp\<close>, which
  is gone, changed; the new file consists of the header, the saved tree and a root message with
  the creation time, when the codec round trips and the tree is not too large. (An output base
  that is itself called \<^verbatim>\<open>x.tmp\<close> loses its state file either way.)
\<close>

theorem finalize_is_atomic:
  assumes "state_directory dir files inode hname"
    and "pf_store pf = main_outputPathStore nc c dir m tm age now"
    and "persistent_FinalizeBuild pf base op (v, s) = Returns (log, v', s')"
    and "FinalizeBuild base (pop_OutputPath op) v = Returns (log0, v0)"
    and "tree = LookupAllChildren (pf_ops pf) (op_directory base (pop_OutputPath op)) v0"
  shows "if log = log0
    then \<exists>bs. files s' = (files s)(pop_outputBaseID op @ ''.tmp'' := None, pop_outputBaseID op \<mapsto> bs) \<and>
      (codec_ok (marshalDirectory c) (unmarshalDirectory c) \<and> appends_nodes (pf_applyAppend pf) persists \<and>
       (\<forall>r bs. marshalRoot c r = Inr bs \<longrightarrow> bs \<noteq> [] \<and> length bs < 2 ^ 31 \<and> unmarshalRoot c bs = Inr r) \<and>
       2 ^ 31 * (ndirs tree + 1) \<le> 2 ^ 63 - 17 \<longrightarrow>
       (\<exists>B rb contents. bs = header_bytes (region_for B rb) @ B @ rb \<and>
          unmarshalRoot c rb = Inr \<lparr>InitialCreationTime = Some (pop_initialCreationTime op), Contents = Some contents\<rparr> \<and>
          stored (unmarshalDirectory c) persists B (length B) [] contents tree))
    else \<forall>n. n \<noteq> pop_outputBaseID op @ ''.tmp'' \<longrightarrow> files s' n = files s n"
  by (rule finalize_atomic [OF assms])

theorem finalize_is_atomic_witness:
  "\<exists>log s'. persistent_FinalizeBuild (chain_pf\<lparr>pf_ops := mem_ops\<lparr>LookupAllChildren := \<lambda>d v. LookupFails (Errno EIO_errno)\<rparr>\<rparr>)
      (inMemoryOutputPathFactory mem_ops) \<lparr>pop_OutputPath = [[]], pop_outputBaseID = ''x'', pop_initialCreationTime = chain_time\<rparr>
      (mem_vfs_empty, mem_empty\<lparr>md_files := [''x'' \<mapsto> [9]]\<rparr>) = Returns (log, mem_vfs_empty, s') \<and>
    log \<noteq> [] \<and> md_files s' ''x'' = Some [9]"
proof -
  let ?pf = "chain_pf\<lparr>pf_ops := mem_ops\<lparr>LookupAllChildren := \<lambda>d v. LookupFails (Errno EIO_errno)\<rparr>\<rparr>"
  let ?op = "\<lparr>pop_OutputPath = [[]], pop_outputBaseID = ''x'', pop_initialCreationTime = chain_time\<rparr>"
  have "\<exists>log s'. persistent_FinalizeBuild ?pf (inMemoryOutputPathFactory mem_ops) ?op
      (mem_vfs_empty, mem_empty\<lparr>md_files := [''x'' \<mapsto> [9]]\<rparr>) = Returns (log, mem_vfs_empty, s') \<and> log \<noteq> []"
    by (simp add: persistent_FinalizeBuild_def inMemoryOutputPathFactory_def saveOutputPath_def chain_pf_def
        main_outputPathStore_def maximumAgeStore_Store_def directoryBackedStore_Store_def dbs_Write_def
        getTemporaryName_def mem_dir_def mem_empty_def)
  then obtain log s' where f: "persistent_FinalizeBuild ?pf (inMemoryOutputPathFactory mem_ops) ?op
      (mem_vfs_empty, mem_empty\<lparr>md_files := [''x'' \<mapsto> [9]]\<rparr>) = Returns (log, mem_vfs_empty, s')" "log \<noteq> []" by blast
  have st: "pf_store ?pf = main_outputPathStore (\<lambda>n. n \<noteq> []) chain_codec mem_dir 100
    \<lparr>CheckValid = \<lambda>_. None, AsTime = \<lambda>_. 1000000000000\<rparr> 3600000000000 1000000000001" by (simp add: chain_pf_def)
  have b: "FinalizeBuild (inMemoryOutputPathFactory mem_ops) (pop_OutputPath ?op) mem_vfs_empty = Returns ([], mem_vfs_empty)"
    by (simp add: inMemoryOutputPathFactory_def)
  from finalize_is_atomic [OF mem.state_directory_axioms st f(1) b refl] f show ?thesis by auto
qed

text \<open>
  C19. No leaf is leaked while a directory is restored. The leaves looked up for the entries of a
  directory, in order, have distinct names. Without an error every entry was looked up, and all
  leaves were handed to \<^verbatim>\<open>CreateChildren\<close>, which succeeded. On an error exactly these leaves are
  given to \<^verbatim>\<open>Unlink\<close>, each as often as it was looked up; the error is that of the first entry
  with an invalid name, a name used before or a failing lookup, or, when every entry was looked
  up, that of \<^verbatim>\<open>CreateChildren\<close>. Go's iteration over a map visits every entry once.
\<close>

theorem restored_leaves_not_leaked:
  fixes mapOrder :: "(string \<times> 'l) list \<Rightarrow> (string \<times> 'l) list"
  assumes "\<And>xs. mset (mapOrder xs) = mset xs"
  shows "\<exists>nodes. found nodes = take (length nodes) (leaf_results sr contents) \<and> distinct (map fst nodes) \<and>
    (case restore_leaves ops mapOrder sr contents d dPath v of
       (None, v') \<Rightarrow> length nodes = length (leaf_results sr contents) \<and> CreateChildren ops d nodes True v = (None, v')
     | (Some e, v') \<Rightarrow> \<exists>v1 ls. v' = fold (Unlink ops) ls v1 \<and> mset ls = mset (map snd nodes) \<and>
         (if length nodes < length (leaf_results sr contents)
          then v1 = v \<and> stops_at sr nodes (leaf_results sr contents ! length nodes)
          else \<exists>err. CreateChildren ops d nodes True v = (Some err, v1)))"
  by (rule restore_leaves_unlinks [OF assms])

theorem restored_leaves_not_leaked_witness:
  "\<exists>e nodes ls. restore_leaves mem_ops rev (pf_restorer chain_pf)
      \<lparr>Directories = [], Files = [], Symlinks = [\<lparr>sn_Name = ''a'', sn_Target = ''s''\<rparr>, \<lparr>sn_Name = ''b'', sn_Target = ''t''\<rparr>,
         \<lparr>sn_Name = ''a'', sn_Target = ''u''\<rparr>]\<rparr> [] [] mem_vfs_empty =
    (Some e, mem_vfs_empty\<lparr>mv_unlinked := [SymlinkN ''s'', SymlinkN ''t'']\<rparr>) \<and>
    mset ls = mset (map snd (nodes :: (string \<times> leaf_node) list)) \<and>
    mem_vfs_empty\<lparr>mv_unlinked := [SymlinkN ''s'', SymlinkN ''t'']\<rparr> = fold (Unlink mem_ops) ls mem_vfs_empty"
proof -
  let ?c = "\<lparr>Directories = [], Files = [], Symlinks = [\<lparr>sn_Name = ''a'', sn_Target = ''s''\<rparr>, \<lparr>sn_Name = ''b'', sn_Target = ''t''\<rparr>,
         \<lparr>sn_Name = ''a'', sn_Target = ''u''\<rparr>]\<rparr> :: Directory"
  have "\<exists>e. restore_leaves mem_ops rev (pf_restorer chain_pf) ?c [] [] mem_vfs_empty =
    (Some e, mem_vfs_empty\<lparr>mv_unlinked := [SymlinkN ''s'', SymlinkN ''t'']\<rparr>)"
    by (simp add: restore_leaves_def unlink_all_def chain_pf_def mem_ops_def mem_vfs_empty_def)
  then obtain e where e: "restore_leaves mem_ops rev (pf_restorer chain_pf) ?c [] [] mem_vfs_empty =
    (Some e, mem_vfs_empty\<lparr>mv_unlinked := [SymlinkN ''s'', SymlinkN ''t'']\<rparr>)" by blast
  have c: "CreateChildren mem_ops [] nodes True mem_vfs_empty \<noteq> (Some err, v1)" for nodes err v1
    by (auto simp: mem_ops_def mem_vfs_empty_def split: if_splits)
  have "\<exists>nodes ls. mset ls = mset (map snd (nodes :: (string \<times> leaf_node) list)) \<and>
    mem_vfs_empty\<lparr>mv_unlinked := [SymlinkN ''s'', SymlinkN ''t'']\<rparr> = fold (Unlink mem_ops) ls mem_vfs_empty"
    using restored_leaves_not_leaked [where mapOrder = rev and sr = "pf_restorer chain_pf" and contents = ?c and ops = mem_ops
        and d = "[]" and dPath = "[]" and v = mem_vfs_empty] e c
    by (fastforce split: if_splits)
  with e show ?thesis by blast
qed

text \<open>
  C18. A build that finalizes silently was uploaded. If finalizing with upload logs nothing,
  every directory below the output path could be read, every leaf in it was given to
  \<^verbatim>\<open>ApplyUploadFile\<close> exactly once, in depth-first order with subdirectories first, and the
  batched existence checks were flushed without an error.
\<close>

theorem silent_finalize_uploaded_everything:
  assumes "localFileUploading_FinalizeBuild base lookupAll up op s = Returns ([], s')"
  shows "\<exists>s1. FinalizeBuild base (lfu_OutputPath op) s = Returns ([], s1) \<and>
    (let vs = visits [] (lookupAll (op_directory base (lfu_OutputPath op)) s1)
     in (\<forall>v \<in> set vs. \<exists>p l. v = Leaf p l) \<and>
        flusher up (fold (\<lambda>v s. case v of Leaf p l \<Rightarrow> snd (ApplyUploadFile up l s) | Unreadable p e \<Rightarrow> s) vs s1) = (None, s'))"
  by (rule silent_upload [OF assms])

theorem silent_finalize_uploaded_everything_witness:
  "localFileUploading_FinalizeBuild (inMemoryOutputPathFactory mem_ops) (\<lambda>_ _. chain_tree)
     \<lparr>ApplyUploadFile = \<lambda>l v. (Some None, v\<lparr>mv_unlinked := mv_unlinked v @ [l]\<rparr>), flusher = \<lambda>v. (None, v),
      status_Code = \<lambda>_. Internal\<rparr> \<lparr>lfu_OutputPath = [[]], lfu_outputBaseID = ''x''\<rparr> mem_vfs_empty =
     Returns ([], mem_vfs_empty\<lparr>mv_unlinked := [SymlinkN ''b'', SymlinkN ''z'', SymlinkN ''t'']\<rparr>)"
proof -
  let ?up = "\<lparr>ApplyUploadFile = \<lambda>l v. (Some None, v\<lparr>mv_unlinked := mv_unlinked v @ [l]\<rparr>), flusher = \<lambda>v. (None, v),
      status_Code = \<lambda>_. Internal\<rparr>"
  have "\<exists>s'. localFileUploading_FinalizeBuild (inMemoryOutputPathFactory mem_ops) (\<lambda>_ _. chain_tree) ?up
      \<lparr>lfu_OutputPath = [[]], lfu_outputBaseID = ''x''\<rparr> mem_vfs_empty = Returns ([], s')"
    by (simp add: localFileUploading_FinalizeBuild_def inMemoryOutputPathFactory_def chain_tree_def)
  then obtain s' where s': "localFileUploading_FinalizeBuild (inMemoryOutputPathFactory mem_ops) (\<lambda>_ _. chain_tree) ?up
      \<lparr>lfu_OutputPath = [[]], lfu_outputBaseID = ''x''\<rparr> mem_vfs_empty = Returns ([], s')" by blast
  from silent_finalize_uploaded_everything [OF s'] s' show ?thesis
    by (auto simp: inMemoryOutputPathFactory_def chain_tree_def mem_vfs_empty_def)
qed

end
