(* ===== verification/Output_Service.thy ===== *)
theory Output_Service
  imports Output_Paths Virtual_FS
begin

text \<open>
  The state of the Bazel Output Service (\<^verbatim>\<open>bazel_output_service_directory.go\<close>): its output
  paths in a circular doubly linked list, the maps of output base IDs and build IDs to them, and
  the parts of its operations that run under the directory's lock, together with the top-level
  directory that lists the output paths.

  Pointers to \<^verbatim>\<open>outputPathState\<close> objects are addresses into \<open>heap\<close>; the address 0 is the
  field \<^verbatim>\<open>d.outputPaths\<close>, the list's sentinel, whose interfaces are nil. A
  \<^verbatim>\<open>buildState\<close> is never modified once made, so it is a value.
\<close>

section \<open>Data\<close>

record ('df, 'sw) buildState =
  bs_id :: string
  bs_digestFunction :: 'df
  bs_scopeWalkerFactory :: 'sw

record ('op, 'cf, 'df, 'sw) outputPathState =
  ops_buildState :: "('df, 'sw) buildState option"
  ops_rootDirectory :: "'op option"
  ops_casFileFactory :: "'cf option"
  ops_previous :: nat
  ops_next :: nat
  ops_cookie :: uint64
  ops_outputBaseID :: string

record ('op, 'cf, 'df, 'sw) BazelOutputServiceDirectory =
  changeID :: uint64
  outputBaseIDs :: "string \<rightharpoonup> nat"
  buildIDs :: "string \<rightharpoonup> nat"
  heap :: "nat \<Rightarrow> ('op, 'cf, 'df, 'sw) outputPathState"
  allocated :: nat

text \<open>
  The interfaces \<^verbatim>\<open>OutputPathFactory\<close> and \<^verbatim>\<open>OutputPath\<close> with all the arguments the
  service gives them, and the other calls it makes under its lock.
\<close>

record ('s, 'op, 'dd, 'cf, 'df) service_ops =
  so_StartInitialBuild :: "string \<Rightarrow> 'cf \<Rightarrow> 'df \<Rightarrow> 's \<Rightarrow> ('op \<times> go_error list \<times> 's) exec"
  so_Clean :: "string \<Rightarrow> 's \<Rightarrow> go_error option \<times> 's"
  so_directory :: "'op \<Rightarrow> 'dd"
  so_FinalizeBuild :: "'op \<Rightarrow> 'df \<Rightarrow> 's \<Rightarrow> (go_error list \<times> 's) exec"
  so_RemoveAllChildren :: "'op \<Rightarrow> bool \<Rightarrow> 's \<Rightarrow> go_error option \<times> 's"
  so_NewCASFileFactory :: "'s \<Rightarrow> 'cf \<times> 's"
  so_NotifyRemoval :: "string \<Rightarrow> 's \<Rightarrow> 's"
  so_NewComponent :: "string \<Rightarrow> bool"

definition sentinel :: "('op, 'cf, 'df, 'sw) outputPathState" where
  "sentinel = \<lparr>ops_buildState = None, ops_rootDirectory = None, ops_casFileFactory = None,
     ops_previous = 0, ops_next = 0, ops_cookie = 0, ops_outputBaseID = ''''\<rparr>"

definition NewBazelOutputServiceDirectory :: "('op, 'cf, 'df, 'sw) BazelOutputServiceDirectory" where
  "NewBazelOutputServiceDirectory =
     \<lparr>changeID = 0, outputBaseIDs = Map.empty, buildIDs = Map.empty, heap = (\<lambda>_. sentinel), allocated = 1\<rparr>"

section \<open>Stores through pointers\<close>

definition set_next :: "nat \<Rightarrow> nat \<Rightarrow> (nat \<Rightarrow> ('op, 'cf, 'df, 'sw) outputPathState) \<Rightarrow> nat \<Rightarrow> ('op, 'cf, 'df, 'sw) outputPathState" where
  "set_next p v h = h(p := (h p)\<lparr>ops_next := v\<rparr>)"

definition set_previous :: "nat \<Rightarrow> nat \<Rightarrow> (nat \<Rightarrow> ('op, 'cf, 'df, 'sw) outputPathState) \<Rightarrow> nat \<Rightarrow> ('op, 'cf, 'df, 'sw) outputPathState" where
  "set_previous p v h = h(p := (h p)\<lparr>ops_previous := v\<rparr>)"

definition set_buildState ::
    "nat \<Rightarrow> ('df, 'sw) buildState option \<Rightarrow> (nat \<Rightarrow> ('op, 'cf, 'df, 'sw) outputPathState) \<Rightarrow> nat \<Rightarrow>
     ('op, 'cf, 'df, 'sw) outputPathState" where
  "set_buildState p v h = h(p := (h p)\<lparr>ops_buildState := v\<rparr>)"

section \<open>Clean\<close>

text \<open>
  \<^verbatim>\<open>Clean\<close> holds the lock twice: to find the output path, and, after its contents were
  removed, to take it out of the maps and the list, unless another call has done so.
\<close>

definition detach_build :: "nat \<Rightarrow> ('op, 'cf, 'df, 'sw) BazelOutputServiceDirectory \<Rightarrow> ('op, 'cf, 'df, 'sw) BazelOutputServiceDirectory" where
  "detach_build a d =
     (case ops_buildState (heap d a) of
        None \<Rightarrow> d
      | Some bs \<Rightarrow> d\<lparr>buildIDs := (buildIDs d)(bs_id bs := None), heap := set_buildState a None (heap d)\<rparr>)"

definition clean_commit ::
    "string \<Rightarrow> nat \<Rightarrow> ('op, 'cf, 'df, 'sw) BazelOutputServiceDirectory \<Rightarrow> ('op, 'cf, 'df, 'sw) BazelOutputServiceDirectory" where
  "clean_commit x a d =
     (if outputBaseIDs d x = Some a
      then let d1 = d\<lparr>outputBaseIDs := (outputBaseIDs d)(x := None)\<rparr>;
               d2 = d1\<lparr>heap := set_next (ops_previous (heap d1 a)) (ops_next (heap d1 a)) (heap d1)\<rparr>;
               d3 = d2\<lparr>heap := set_previous (ops_next (heap d2 a)) (ops_previous (heap d2 a)) (heap d2)\<rparr>;
               d4 = d3\<lparr>changeID := changeID d3 + 1\<rparr>
           in detach_build a d4
      else d)"

definition bos_Clean ::
    "('s, 'op, 'dd, 'cf, 'df) service_ops \<Rightarrow> string \<Rightarrow> ('op, 'cf, 'df, 'sw) BazelOutputServiceDirectory \<Rightarrow> 's \<Rightarrow>
     (go_error option \<times> ('op, 'cf, 'df, 'sw) BazelOutputServiceDirectory \<times> 's) exec" where
  "bos_Clean so x d s =
     (if \<not> so_NewComponent so x
      then Returns (Some (Status InvalidArgument ''Output base ID is not a valid filename'' []), d, s)
      else (case outputBaseIDs d x of
              Some a \<Rightarrow>
                (case ops_rootDirectory (heap d a) of
                   None \<Rightarrow> Panics ''nil pointer dereference''
                 | Some op \<Rightarrow>
                     (case so_RemoveAllChildren so op True s of
                        (Some err, s1) \<Rightarrow> Returns (Some err, d, s1)
                      | (None, s1) \<Rightarrow> Returns (None, clean_commit x a d, so_NotifyRemoval so x s1)))
            | None \<Rightarrow>
                (case so_Clean so x s of (err, s1) \<Rightarrow> Returns (err, d, s1))))"

section \<open>StartBuild under the lock\<close>

text \<open>Registering the build with an output path, which is created if there is none yet.\<close>

definition attach_build ::
    "nat \<Rightarrow> ('df, 'sw) buildState \<Rightarrow> ('op, 'cf, 'df, 'sw) BazelOutputServiceDirectory \<Rightarrow>
     ('op, 'cf, 'df, 'sw) BazelOutputServiceDirectory" where
  "attach_build a bs d =
     d\<lparr>heap := set_buildState a (Some bs) (heap d), buildIDs := (buildIDs d)(bs_id bs \<mapsto> a)\<rparr>"

definition insert_output_path ::
    "string \<Rightarrow> 'op \<Rightarrow> 'cf \<Rightarrow> ('op, 'cf, 'df, 'sw) BazelOutputServiceDirectory \<Rightarrow>
     nat \<times> ('op, 'cf, 'df, 'sw) BazelOutputServiceDirectory" where
  "insert_output_path x op cf d =
     (let a = allocated d;
          state = \<lparr>ops_buildState = None, ops_rootDirectory = Some op, ops_casFileFactory = Some cf,
                   ops_previous = ops_previous (heap d 0), ops_next = 0, ops_cookie = changeID d,
                   ops_outputBaseID = x\<rparr>;
          d1 = d\<lparr>heap := (heap d)(a := state), allocated := a + 1\<rparr>;
          d2 = d1\<lparr>outputBaseIDs := (outputBaseIDs d1)(x \<mapsto> a)\<rparr>;
          d3 = d2\<lparr>heap := set_next (ops_previous (heap d2 a)) a (heap d2)\<rparr>;
          d4 = d3\<lparr>heap := set_previous (ops_next (heap d3 a)) a (heap d3)\<rparr>
      in (a, d4\<lparr>changeID := changeID d4 + 1\<rparr>))"

definition startBuild_locked ::
    "('s, 'op, 'dd, 'cf, 'df) service_ops \<Rightarrow> string \<Rightarrow> string \<Rightarrow> 'df \<Rightarrow> 'sw \<Rightarrow>
     ('op, 'cf, 'df, 'sw) BazelOutputServiceDirectory \<Rightarrow> 's \<Rightarrow>
     (nat \<times> go_error list \<times> ('op, 'cf, 'df, 'sw) BazelOutputServiceDirectory \<times> 's) exec" where
  "startBuild_locked so buildId x digestFunction scopeWalkerFactory d s =
     (let bs = \<lparr>bs_id = buildId, bs_digestFunction = digestFunction, bs_scopeWalkerFactory = scopeWalkerFactory\<rparr>
      in case buildIDs d buildId of
           Some a \<Rightarrow> Returns (a, [], d, s)
         | None \<Rightarrow>
             (case outputBaseIDs d x of
                Some a \<Rightarrow> Returns (a, [], attach_build a bs (detach_build a d), s)
              | None \<Rightarrow>
                  (case so_NewCASFileFactory so s of (casFileFactory, s1) \<Rightarrow>
                     exec_bind (so_StartInitialBuild so x casFileFactory digestFunction s1) (\<lambda>(op, log, s2).
                       case insert_output_path x op casFileFactory d of (a, d1) \<Rightarrow>
                         Returns (a, log, attach_build a bs d1, s2)))))"

section \<open>Calls of a running build\<close>

definition getOutputPathAndBuildState ::
    "string \<Rightarrow> ('op, 'cf, 'df, 'sw) BazelOutputServiceDirectory \<Rightarrow> (nat \<times> ('df, 'sw) buildState option) result" where
  "getOutputPathAndBuildState buildID d =
     (case buildIDs d buildID of
        None \<Rightarrow> Inl (Status FailedPrecondition ''Build ID is not associated with any running build'' [])
      | Some a \<Rightarrow> Inr (a, ops_buildState (heap d a)))"

definition bos_FinalizeBuild ::
    "('s, 'op, 'dd, 'cf, 'df) service_ops \<Rightarrow> string \<Rightarrow> ('op, 'cf, 'df, 'sw) BazelOutputServiceDirectory \<Rightarrow> 's \<Rightarrow>
     (go_error list \<times> ('op, 'cf, 'df, 'sw) BazelOutputServiceDirectory \<times> 's) exec" where
  "bos_FinalizeBuild so buildId d s =
     (case buildIDs d buildId of
        None \<Rightarrow> Returns ([], d, s)
      | Some a \<Rightarrow>
          (case (ops_rootDirectory (heap d a), ops_buildState (heap d a)) of
             (Some op, Some bs) \<Rightarrow>
               exec_bind (so_FinalizeBuild so op (bs_digestFunction bs) s) (\<lambda>(log, s1).
                 Returns (log, d\<lparr>buildIDs := (buildIDs d)(bs_id bs := None), heap := set_buildState a None (heap d)\<rparr>, s1))
           | _ \<Rightarrow> Panics ''nil pointer dereference''))"

section \<open>The top-level directory\<close>

definition bos_VirtualGetAttributes ::
    "uint32 \<Rightarrow> bool \<Rightarrow> ('op, 'cf, 'df, 'sw) BazelOutputServiceDirectory \<Rightarrow> attr_call list" where
  "bos_VirtualGetAttributes EmptyDirectoryLinkCount requestsChangeIDOrLinkCount d =
     [SetFileType FileTypeDirectory, SetHasNamedAttributes False, SetIsInNamedAttributeDirectory False,
      SetPermissions [PermissionsRead, PermissionsExecute], SetSizeBytes 0] @
     (if requestsChangeIDOrLinkCount
      then [SetChangeID (changeID d),
            SetLinkCount (LinkCount (EmptyDirectoryLinkCount + word_of_nat (card (dom (outputBaseIDs d)))))]
      else [])"

definition bos_VirtualLookup ::
    "string \<Rightarrow> ('op, 'cf, 'df, 'sw) BazelOutputServiceDirectory \<Rightarrow> ('op option, 'leaf) lookup_result" where
  "bos_VirtualLookup name d =
     (case outputBaseIDs d name of
        None \<Rightarrow> Inl StatusErrNoEnt
      | Some a \<Rightarrow> Inr (FromDirectory (ops_rootDirectory (heap d a))))"

definition bos_VirtualOpenChild ::
    "('leaf, 'share, 'opts, 'attrs, 'mask) open_ops \<Rightarrow> string \<Rightarrow> 'attrs option \<Rightarrow> 'opts option \<Rightarrow>
     ('op, 'cf, 'df, 'sw) BazelOutputServiceDirectory \<Rightarrow> ('leaf, 'mask) open_result" where
  "bos_VirtualOpenChild oo name createAttributes existingOptions d =
     NotOpened
       (if outputBaseIDs d name \<noteq> None then OpenChildWrongFileType oo existingOptions StatusErrIsDir
        else OpenChildDoesntExist oo createAttributes)"

text \<open>
  The two loops of \<^verbatim>\<open>VirtualReadDir\<close> run until they are back at the sentinel. The reporter is
  given the cookie, the name and the child.
\<close>

partial_function (option) find_first ::
    "(nat \<Rightarrow> ('op, 'cf, 'df, 'sw) outputPathState) \<Rightarrow> uint64 \<Rightarrow> nat \<Rightarrow> nat option" where
  "find_first h firstCookie a =
     (if a = 0 then Some 0
      else if firstCookie \<le> ops_cookie (h a) then Some a
      else find_first h firstCookie (ops_next (h a)))"

partial_function (option) report_output_paths ::
    "('op option, 'p) reporter \<Rightarrow> (nat \<Rightarrow> ('op, 'cf, 'df, 'sw) outputPathState) \<Rightarrow> nat \<Rightarrow> 'p \<Rightarrow> 'p option" where
  "report_output_paths report h a p =
     (if a = 0 then Some p
      else (case report (ops_cookie (h a) + 1) (ops_outputBaseID (h a)) (ops_rootDirectory (h a)) p of
              (more_entries, p') \<Rightarrow>
                if more_entries then report_output_paths report h (ops_next (h a)) p' else Some p'))"

definition bos_VirtualReadDir ::
    "uint64 \<Rightarrow> ('op option, 'p) reporter \<Rightarrow> ('op, 'cf, 'df, 'sw) BazelOutputServiceDirectory \<Rightarrow> 'p \<Rightarrow>
     (vstatus \<times> 'p) exec" where
  "bos_VirtualReadDir firstCookie report d p =
     exec_bind (exec_of_option (find_first (heap d) firstCookie (ops_next (heap d 0)))) (\<lambda>a.
       if a = 0 then Returns (StatusOK, p)
       else exec_bind (exec_of_option (report_output_paths report (heap d) a p)) (\<lambda>p'. Returns (StatusOK, p')))"

section \<open>Circular lists in the heap\<close>

text \<open>Consecutive elements point at each other.\<close>

fun links :: "(nat \<Rightarrow> ('op, 'cf, 'df, 'sw) outputPathState) \<Rightarrow> nat list \<Rightarrow> bool" where
  "links h (a # b # r) \<longleftrightarrow> ops_next (h a) = b \<and> ops_previous (h b) = a \<and> links h (b # r)"
| "links h _ \<longleftrightarrow> True"

definition circular :: "(nat \<Rightarrow> ('op, 'cf, 'df, 'sw) outputPathState) \<Rightarrow> nat list \<Rightarrow> bool" where
  "circular h as \<longleftrightarrow> distinct (0 # as) \<and> links h (0 # as @ [0])"

lemma links_append: "links h (xs @ a # ys) \<longleftrightarrow> links h (xs @ [a]) \<and> links h (a # ys)"
  by (induction h xs rule: links.induct) (auto simp: neq_Nil_conv)

lemma links_cong:
  assumes "\<And>b. b \<in> set (butlast l) \<Longrightarrow> ops_next (h' b) = ops_next (h b)"
    and "\<And>b. b \<in> set (tl l) \<Longrightarrow> ops_previous (h' b) = ops_previous (h b)"
  shows "links h' l \<longleftrightarrow> links h l"
  using assms by (induction h l rule: links.induct) auto

lemma set_next_sel [simp]:
  "ops_next (set_next p v h b) = (if b = p then v else ops_next (h b))"
  "ops_previous (set_next p v h b) = ops_previous (h b)"
  "ops_cookie (set_next p v h b) = ops_cookie (h b)"
  "ops_outputBaseID (set_next p v h b) = ops_outputBaseID (h b)"
  "ops_buildState (set_next p v h b) = ops_buildState (h b)"
  "ops_rootDirectory (set_next p v h b) = ops_rootDirectory (h b)"
  "ops_casFileFactory (set_next p v h b) = ops_casFileFactory (h b)"
  by (simp_all add: set_next_def)

lemma set_previous_sel [simp]:
  "ops_next (set_previous p v h b) = ops_next (h b)"
  "ops_previous (set_previous p v h b) = (if b = p then v else ops_previous (h b))"
  "ops_cookie (set_previous p v h b) = ops_cookie (h b)"
  "ops_outputBaseID (set_previous p v h b) = ops_outputBaseID (h b)"
  "ops_buildState (set_previous p v h b) = ops_buildState (h b)"
  "ops_rootDirectory (set_previous p v h b) = ops_rootDirectory (h b)"
  "ops_casFileFactory (set_previous p v h b) = ops_casFileFactory (h b)"
  by (simp_all add: set_previous_def)

lemma set_buildState_sel [simp]:
  "ops_next (set_buildState p v h b) = ops_next (h b)"
  "ops_previous (set_buildState p v h b) = ops_previous (h b)"
  "ops_cookie (set_buildState p v h b) = ops_cookie (h b)"
  "ops_outputBaseID (set_buildState p v h b) = ops_outputBaseID (h b)"
  "ops_buildState (set_buildState p v h b) = (if b = p then v else ops_buildState (h b))"
  "ops_rootDirectory (set_buildState p v h b) = ops_rootDirectory (h b)"
  "ops_casFileFactory (set_buildState p v h b) = ops_casFileFactory (h b)"
  by (simp_all add: set_buildState_def)

lemma circular_same_links:
  assumes "circular h as" "\<And>b. ops_next (h' b) = ops_next (h b)" "\<And>b. ops_previous (h' b) = ops_previous (h b)"
  shows "circular h' as"
  using assms links_cong [of "0 # as @ [0]" h' h] by (simp add: circular_def)

text \<open>Taking an element out, and appending one before the sentinel.\<close>

lemma circular_unlink:
  assumes "circular h (xs @ a # ys)"
    and h': "h' = set_previous (ops_next (h a)) (ops_previous (h a)) (set_next (ops_previous (h a)) (ops_next (h a)) h)"
  shows "circular h' (xs @ ys)"
proof -
  obtain us p where us: "0 # xs = us @ [p]" by (metis list.distinct(1) rev_exhaust)
  obtain q vs where vs: "ys @ [0] = q # vs" by (metis append_is_Nil_conv list.distinct(1) neq_Nil_conv)
  have all: "0 # (xs @ a # ys) @ [0] = us @ p # a # q # vs"
    using us vs by (metis append.assoc append_Cons append_Nil)
  have l: "links h (us @ p # a # q # vs)" using assms(1) all by (simp add: circular_def)
  have d: "distinct (0 # xs @ a # ys)" using assms(1) by (simp add: circular_def)
  have p: "p \<in> set (0 # xs)" "p \<notin> set us" and q: "q \<in> set (ys @ [0])" "q \<notin> set vs"
  proof -
    have "distinct (us @ [p])" "distinct (q # vs)" unfolding us [symmetric] vs [symmetric] using d by auto
    then show "p \<notin> set us" "q \<notin> set vs" by auto
    show "p \<in> set (0 # xs)" "q \<in> set (ys @ [0])" unfolding us vs by auto
  qed
  have l': "links h (us @ [p])" "links h (p # a # q # vs)"
    using links_append [THEN iffD1, OF l] by simp_all
  then have pq: "ops_previous (h a) = p" "ops_next (h a) = q" by simp_all
  have "links h (us @ [p])" "links h (q # vs)" using l' by simp_all
  moreover have h'_sel: "ops_next (h' b) = (if b = p then q else ops_next (h b))"
    "ops_previous (h' b) = (if b = q then p else ops_previous (h b))" for b
    by (simp_all add: h' pq)
  moreover have "links h' (us @ [p]) \<longleftrightarrow> links h (us @ [p])"
  proof (rule links_cong)
    fix b assume "b \<in> set (butlast (us @ [p]))"
    then show "ops_next (h' b) = ops_next (h b)" using p(2) by (auto simp: h'_sel)
  next
    fix b assume "b \<in> set (tl (us @ [p]))"
    then have "b \<in> set xs" using us by (metis list.sel(3))
    then have "b \<noteq> q" using q(1) d by auto
    then show "ops_previous (h' b) = ops_previous (h b)" by (simp add: h'_sel)
  qed
  moreover have "links h' (q # vs) \<longleftrightarrow> links h (q # vs)"
  proof (rule links_cong)
    fix b assume "b \<in> set (butlast (q # vs))"
    then have "b \<in> set ys" using vs by (metis butlast_snoc)
    then have "b \<noteq> p" using p(1) d by auto
    then show "ops_next (h' b) = ops_next (h b)" by (simp add: h'_sel)
  next
    fix b assume "b \<in> set (tl (q # vs))"
    then show "ops_previous (h' b) = ops_previous (h b)" using q(2) by (auto simp: h'_sel)
  qed
  ultimately have "links h' (us @ [p])" "links h' (q # vs)" by simp_all
  moreover have "ops_next (h' p) = q" "ops_previous (h' q) = p" by (simp_all add: h'_sel)
  ultimately have "links h' (us @ p # q # vs)" by (intro links_append [THEN iffD2]) simp
  moreover have "0 # (xs @ ys) @ [0] = us @ p # q # vs" using us vs by (metis append.assoc append_Cons append_Nil)
  ultimately show ?thesis using d by (auto simp: circular_def)
qed

lemma circular_append:
  assumes "circular h as" "a \<notin> set (0 # as)" "ops_next s = 0" "ops_previous s = ops_previous (h 0)"
    and h': "h' = (\<lambda>h. set_previous (ops_next (h a)) a h) ((\<lambda>h. set_next (ops_previous (h a)) a h) (h(a := s)))"
  shows "circular h' (as @ [a])"
proof -
  obtain us p where us: "0 # as = us @ [p]" by (metis list.distinct(1) rev_exhaust)
  have d: "distinct (0 # as)" using assms(1) by (simp add: circular_def)
  then have p: "p \<notin> set us" "a \<notin> set us" "a \<noteq> p" using us assms(2) by (metis distinct_append not_distinct_conv_prefix, auto)
  have "0 # as @ [0] = us @ p # [0]" using us by (metis append.assoc append_Cons append_Nil)
  with assms(1) have "links h (us @ p # [0])" by (simp add: circular_def)
  then have l: "links h (us @ [p])" "links h (p # [0])" by (rule links_append [THEN iffD1, THEN conjunct1], simp add: links_append [of h us p "[0]"])
  then have p0: "ops_previous (h 0) = p" by simp
  have h'_sel: "ops_next (h' b) = (if b = p then a else if b = a then 0 else ops_next (h b))"
    "ops_previous (h' b) = (if b = 0 then a else if b = a then p else ops_previous (h b))" for b
    using assms(2,3,4) p(3) by (auto simp: h' p0)
  have "links h' (us @ [p]) \<longleftrightarrow> links h (us @ [p])"
  proof (rule links_cong)
    fix b assume "b \<in> set (butlast (us @ [p]))"
    then show "ops_next (h' b) = ops_next (h b)" using p by (auto simp: h'_sel)
  next
    fix b assume "b \<in> set (tl (us @ [p]))"
    then have "b \<in> set as" using us by (metis list.sel(3))
    then have "b \<noteq> 0" "b \<noteq> a" using d assms(2) by (metis distinct.simps(2), metis list.set_intros(2))
    then show "ops_previous (h' b) = ops_previous (h b)" by (simp add: h'_sel)
  qed
  with l have "links h' (us @ [p])" by simp
  moreover have "links h' (p # a # [0])" using assms(2) p(3) by (auto simp: h'_sel)
  ultimately have L: "links h' (us @ p # a # [0])" by (intro links_append [THEN iffD2]) simp
  have eq: "0 # (as @ [a]) @ [0] = us @ p # a # [0]" using us by (metis append.assoc append_Cons append_Nil)
  have "distinct (0 # as @ [a])" using d assms(2) by auto
  then show ?thesis unfolding circular_def eq using L by simp
qed

section \<open>The invariant\<close>

text \<open>
  \<open>bos_inv d as\<close>: the output paths in the list are \<open>as\<close>, in the order in which they were
  created; they are the ones in \<^verbatim>\<open>outputBaseIDs\<close>, each under its own ID; the build IDs are
  exactly those of the builds the listed output paths refer to; cookies grow with every output
  path that is created, and the change ID is larger than all of them.
\<close>

definition bos_inv :: "('op, 'cf, 'df, 'sw) BazelOutputServiceDirectory \<Rightarrow> nat list \<Rightarrow> bool" where
  "bos_inv d as \<longleftrightarrow>
     circular (heap d) as \<and> sorted_wrt (<) as \<and> (\<forall>a \<in> set as. a < allocated d) \<and> 0 < allocated d \<and>
     (\<forall>a. 0 < a \<longrightarrow> a < allocated d \<longrightarrow> ops_cookie (heap d a) < changeID d \<and>
        ops_rootDirectory (heap d a) \<noteq> None \<and> ops_casFileFactory (heap d a) \<noteq> None) \<and>
     (\<forall>a b. 0 < a \<longrightarrow> a < b \<longrightarrow> b < allocated d \<longrightarrow> ops_cookie (heap d a) < ops_cookie (heap d b)) \<and>
     (\<forall>x a. outputBaseIDs d x = Some a \<longleftrightarrow> a \<in> set as \<and> ops_outputBaseID (heap d a) = x) \<and>
     (\<forall>b a. buildIDs d b = Some a \<longleftrightarrow> a \<in> set as \<and> (\<exists>bs. ops_buildState (heap d a) = Some bs \<and> bs_id bs = b)) \<and>
     (\<forall>a. a \<notin> set as \<longrightarrow> ops_buildState (heap d a) = None)"

lemma bos_inv_New: "bos_inv NewBazelOutputServiceDirectory []"
  by (simp add: bos_inv_def NewBazelOutputServiceDirectory_def sentinel_def circular_def)

lemma bos_inv_nonzero: "bos_inv d as \<Longrightarrow> a \<in> set as \<Longrightarrow> 0 < a"
  by (auto simp: bos_inv_def circular_def intro: gr0I)

lemma bos_inv_buildIDs:
  "bos_inv d as \<Longrightarrow> buildIDs d b = Some a \<longleftrightarrow> a \<in> set as \<and> (\<exists>bs. ops_buildState (heap d a) = Some bs \<and> bs_id bs = b)"
  by (simp add: bos_inv_def)

lemma bos_inv_outputBaseIDs:
  "bos_inv d as \<Longrightarrow> outputBaseIDs d x = Some a \<longleftrightarrow> a \<in> set as \<and> ops_outputBaseID (heap d a) = x"
  by (simp add: bos_inv_def)

lemma bos_inv_buildState_listed:
  "bos_inv d as \<Longrightarrow> ops_buildState (heap d a) = Some bs \<Longrightarrow> a \<in> set as"
  by (auto simp: bos_inv_def)

lemma bos_inv_build_unique:
  assumes "bos_inv d as" "ops_buildState (heap d a) = Some bs" "ops_buildState (heap d a') = Some bs'" "bs_id bs = bs_id bs'"
  shows "a = a'"
proof -
  have "buildIDs d (bs_id bs) = Some a" "buildIDs d (bs_id bs) = Some a'"
    using assms bos_inv_buildState_listed [OF assms(1)] by (auto simp: bos_inv_buildIDs [OF assms(1)])
  then show ?thesis by simp
qed

lemma bos_inv_base_unique:
  assumes "bos_inv d as" "a \<in> set as" "a' \<in> set as" "ops_outputBaseID (heap d a) = ops_outputBaseID (heap d a')"
  shows "a = a'"
proof -
  have "outputBaseIDs d (ops_outputBaseID (heap d a)) = Some a" "outputBaseIDs d (ops_outputBaseID (heap d a)) = Some a'"
    using assms by (auto simp: bos_inv_outputBaseIDs [OF assms(1)])
  then show ?thesis by simp
qed

lemma detach_build_sel [simp]:
  "outputBaseIDs (detach_build a d) = outputBaseIDs d" "changeID (detach_build a d) = changeID d"
  "allocated (detach_build a d) = allocated d"
  "ops_next (heap (detach_build a d) b) = ops_next (heap d b)"
  "ops_previous (heap (detach_build a d) b) = ops_previous (heap d b)"
  "ops_cookie (heap (detach_build a d) b) = ops_cookie (heap d b)"
  "ops_outputBaseID (heap (detach_build a d) b) = ops_outputBaseID (heap d b)"
  "ops_rootDirectory (heap (detach_build a d) b) = ops_rootDirectory (heap d b)"
  "ops_casFileFactory (heap (detach_build a d) b) = ops_casFileFactory (heap d b)"
  "ops_buildState (heap (detach_build a d) b) = (if b = a then None else ops_buildState (heap d b))"
  by (auto simp: detach_build_def split: option.splits)

lemma attach_build_sel [simp]:
  "outputBaseIDs (attach_build a bs d) = outputBaseIDs d" "changeID (attach_build a bs d) = changeID d"
  "allocated (attach_build a bs d) = allocated d"
  "ops_next (heap (attach_build a bs d) b) = ops_next (heap d b)"
  "ops_previous (heap (attach_build a bs d) b) = ops_previous (heap d b)"
  "ops_cookie (heap (attach_build a bs d) b) = ops_cookie (heap d b)"
  "ops_outputBaseID (heap (attach_build a bs d) b) = ops_outputBaseID (heap d b)"
  "ops_rootDirectory (heap (attach_build a bs d) b) = ops_rootDirectory (heap d b)"
  "ops_casFileFactory (heap (attach_build a bs d) b) = ops_casFileFactory (heap d b)"
  "ops_buildState (heap (attach_build a bs d) b) = (if b = a then Some bs else ops_buildState (heap d b))"
  "buildIDs (attach_build a bs d) = (buildIDs d)(bs_id bs \<mapsto> a)"
  by (auto simp: attach_build_def)

lemma bos_inv_detach:
  assumes "bos_inv d as"
  shows "bos_inv (detach_build a d) as"
proof (cases "ops_buildState (heap d a)")
  case None
  then show ?thesis using assms by (simp add: detach_build_def)
next
  case (Some bs)
  have c: "circular (heap (detach_build a d)) as"
    by (rule circular_same_links [of "heap d"]) (use assms in \<open>simp_all add: bos_inv_def\<close>)
  have "buildIDs (detach_build a d) b = Some a' \<longleftrightarrow>
      a' \<in> set as \<and> (\<exists>bs. ops_buildState (heap (detach_build a d) a') = Some bs \<and> bs_id bs = b)" for b a'
  proof -
    have new: "buildIDs (detach_build a d) = (buildIDs d)(bs_id bs := None)"
      using Some by (simp add: detach_build_def)
    have "(\<exists>bs'. ops_buildState (heap d a') = Some bs' \<and> bs_id bs' = bs_id bs) \<longrightarrow> a' = a"
      using bos_inv_build_unique [OF assms Some] by metis
    then have none: "a' \<noteq> a \<Longrightarrow> \<not> (\<exists>bs'. ops_buildState (heap d a') = Some bs' \<and> bs_id bs' = bs_id bs)" by blast
    have self: "buildIDs d b = Some a \<Longrightarrow> b = bs_id bs"
      using bos_inv_buildIDs [OF assms, of b a] Some by auto
    show ?thesis
    proof (cases "a' = a")
      case True
      then show ?thesis unfolding new using self by auto
    next
      case False
      then show ?thesis
        unfolding new using none [OF False] bos_inv_buildIDs [OF assms, of b a'] by (cases "b = bs_id bs") auto
    qed
  qed
  moreover have "ops_buildState (heap (detach_build a d) a') = None" if "a' \<notin> set as" for a'
    using that bos_inv_buildState_listed [OF assms, of a'] by (cases "ops_buildState (heap d a')") auto
  ultimately show ?thesis
    using assms c unfolding bos_inv_def detach_build_sel(1-9) by blast
qed

lemma bos_inv_attach:
  assumes "bos_inv d as" "a \<in> set as" "buildIDs d (bs_id bs) = None" "ops_buildState (heap d a) = None"
  shows "bos_inv (attach_build a bs d) as"
proof -
  have c: "circular (heap (attach_build a bs d)) as"
    by (rule circular_same_links [of "heap d"]) (use assms in \<open>simp_all add: bos_inv_def\<close>)
  have "buildIDs (attach_build a bs d) b = Some a' \<longleftrightarrow>
      a' \<in> set as \<and> (\<exists>bs'. ops_buildState (heap (attach_build a bs d) a') = Some bs' \<and> bs_id bs' = b)" for b a'
    using assms(2-4) bos_inv_buildIDs [OF assms(1), of b a'] bos_inv_buildIDs [OF assms(1), of "bs_id bs" a']
    by (auto split: if_splits)
  moreover have "ops_buildState (heap (attach_build a bs d) a') = None" if "a' \<notin> set as" for a'
    using that assms(2) bos_inv_buildState_listed [OF assms(1), of a'] by (cases "ops_buildState (heap d a')") auto
  ultimately show ?thesis
    using assms(1) c unfolding bos_inv_def attach_build_sel(1-9) by blast
qed

lemma less_plus_one64: "(c :: uint64) + 1 \<noteq> 0 \<Longrightarrow> y < c + 1 \<longleftrightarrow> y \<le> c"
  using unatSuc [of c] by (simp add: add.commute word_less_nat_alt word_le_nat_alt less_Suc_eq_le)

lemma insert_output_path_sel:
  assumes "insert_output_path x op cf d = (a, d')" "0 < allocated d"
  shows "a = allocated d" "allocated d' = Suc a" "outputBaseIDs d' = (outputBaseIDs d)(x \<mapsto> a)"
    "buildIDs d' = buildIDs d" "changeID d' = changeID d + 1"
    "ops_cookie (heap d' b) = (if b = a then changeID d else ops_cookie (heap d b))"
    "ops_outputBaseID (heap d' b) = (if b = a then x else ops_outputBaseID (heap d b))"
    "ops_rootDirectory (heap d' b) = (if b = a then Some op else ops_rootDirectory (heap d b))"
    "ops_casFileFactory (heap d' b) = (if b = a then Some cf else ops_casFileFactory (heap d b))"
    "ops_buildState (heap d' b) = (if b = a then None else ops_buildState (heap d b))"
  using assms by (auto simp: insert_output_path_def Let_def)

lemma bos_inv_insert:
  assumes inv: "bos_inv d as" and x: "outputBaseIDs d x = None" and c: "changeID d + 1 \<noteq> 0"
    and ins: "insert_output_path x op cf d = (a, d')"
  shows "bos_inv d' (as @ [a])"
proof -
  have pos: "0 < allocated d" using inv by (simp add: bos_inv_def)
  note sel = insert_output_path_sel [OF ins pos]
  have old: "\<forall>b \<in> set as. b < a" "a \<notin> set as" using inv sel(1) by (auto simp: bos_inv_def)
  have "circular (heap d') (as @ [a])"
    by (rule circular_append [where h = "heap d" and s = "\<lparr>ops_buildState = None, ops_rootDirectory = Some op,
          ops_casFileFactory = Some cf, ops_previous = ops_previous (heap d 0), ops_next = 0, ops_cookie = changeID d,
          ops_outputBaseID = x\<rparr>"])
      (use inv old sel(1) pos ins in \<open>auto simp: bos_inv_def insert_output_path_def Let_def\<close>)
  moreover have "sorted_wrt (<) (as @ [a])" using inv old by (simp add: bos_inv_def sorted_wrt_append)
  moreover have "\<forall>b \<in> set (as @ [a]). b < allocated d'" using old sel(2) by auto
  moreover have "ops_cookie (heap d' b) < changeID d' \<and> ops_rootDirectory (heap d' b) \<noteq> None \<and>
      ops_casFileFactory (heap d' b) \<noteq> None" if "0 < b" "b < allocated d'" for b
    using that inv sel less_plus_one64 [OF c] by (cases "b = a") (auto simp: bos_inv_def less_Suc_eq less_imp_le)
  moreover have "ops_cookie (heap d' b) < ops_cookie (heap d' b')" if "0 < b" "b < b'" "b' < allocated d'" for b b'
    using that inv sel by (cases "b' = a") (auto simp: bos_inv_def)
  moreover have "outputBaseIDs d' y = Some b \<longleftrightarrow> b \<in> set (as @ [a]) \<and> ops_outputBaseID (heap d' b) = y" for y b
    using bos_inv_outputBaseIDs [OF inv, of y b] bos_inv_outputBaseIDs [OF inv, of x b] x old(2) sel(3,7)
    by (cases "b = a"; cases "y = x") auto
  moreover have "buildIDs d' y = Some b \<longleftrightarrow> b \<in> set (as @ [a]) \<and> (\<exists>bs. ops_buildState (heap d' b) = Some bs \<and> bs_id bs = y)" for y b
    using bos_inv_buildIDs [OF inv, of y b] old(2) sel(4,10) by (cases "b = a") auto
  moreover have "ops_buildState (heap d' b) = None" if "b \<notin> set (as @ [a])" for b
  proof -
    have "b \<noteq> a" "b \<notin> set as" using that by auto
    then show ?thesis using bos_inv_buildState_listed [OF inv, of b] unfolding sel(10) by (cases "ops_buildState (heap d b)") auto
  qed
  moreover have "0 < allocated d'" using sel(2) by simp
  ultimately show ?thesis unfolding bos_inv_def by blast
qed

text \<open>The state between taking an output path out of the list and detaching its build.\<close>

definition unlisted :: "string \<Rightarrow> nat \<Rightarrow> ('op, 'cf, 'df, 'sw) BazelOutputServiceDirectory \<Rightarrow> ('op, 'cf, 'df, 'sw) BazelOutputServiceDirectory" where
  "unlisted x a d = d\<lparr>outputBaseIDs := (outputBaseIDs d)(x := None), changeID := changeID d + 1,
     heap := set_previous (ops_next (heap d a)) (ops_previous (heap d a))
       (set_next (ops_previous (heap d a)) (ops_next (heap d a)) (heap d))\<rparr>"

lemma clean_commit_unlisted:
  assumes "outputBaseIDs d x = Some a" "ops_previous (heap d a) \<noteq> a"
  shows "clean_commit x a d = unlisted x a (detach_build a d)"
  using assms
  by (auto simp: clean_commit_def unlisted_def detach_build_def Let_def set_next_def set_previous_def set_buildState_def
      fun_eq_iff split: option.splits)

lemma bos_inv_unlist:
  assumes inv: "bos_inv d as" and x: "outputBaseIDs d x = Some a" and b: "ops_buildState (heap d a) = None"
    and c: "changeID d + 1 \<noteq> 0"
  shows "bos_inv (unlisted x a d) (removeAll a as)"
proof -
  let ?d = "unlisted x a d"
  have a: "a \<in> set as" "ops_outputBaseID (heap d a) = x" using bos_inv_outputBaseIDs [OF inv] x by auto
  then obtain xs ys where as: "as = xs @ a # ys" by (meson split_list)
  have circ: "circular (heap d) (xs @ a # ys)" using inv as by (simp add: bos_inv_def)
  then have rm: "removeAll a as = xs @ ys" using as by (auto simp: circular_def)
  have "circular (heap ?d) (removeAll a as)"
    unfolding rm by (rule circular_unlink [OF circ]) (simp add: unlisted_def)
  moreover have "sorted_wrt (<) (removeAll a as)" "\<forall>b \<in> set (removeAll a as). b < allocated ?d"
    using inv rm as by (auto simp: bos_inv_def sorted_wrt_append unlisted_def)
  moreover have "ops_cookie (heap ?d b) < changeID ?d \<and> ops_rootDirectory (heap ?d b) \<noteq> None \<and>
      ops_casFileFactory (heap ?d b) \<noteq> None" if "0 < b" "b < allocated ?d" for b
    using that inv less_plus_one64 [OF c] by (auto simp: bos_inv_def unlisted_def less_imp_le)
  moreover have "ops_cookie (heap ?d b) < ops_cookie (heap ?d b')" if "0 < b" "b < b'" "b' < allocated ?d" for b b'
    using that inv by (auto simp: bos_inv_def unlisted_def)
  moreover have "outputBaseIDs ?d y = Some b \<longleftrightarrow> b \<in> set (removeAll a as) \<and> ops_outputBaseID (heap ?d b) = y" for y b
    using bos_inv_outputBaseIDs [OF inv, of y b] bos_inv_base_unique [OF inv, of a b] a
    by (cases "b = a"; cases "y = x") (auto simp: unlisted_def)
  moreover have "buildIDs ?d y = Some b \<longleftrightarrow> b \<in> set (removeAll a as) \<and>
      (\<exists>bs. ops_buildState (heap ?d b) = Some bs \<and> bs_id bs = y)" for y b'
      and b :: nat
    using bos_inv_buildIDs [OF inv, of y b] assms(3) by (cases "b = a") (auto simp: unlisted_def)
  moreover have "ops_buildState (heap ?d b) = None" if "b \<notin> set (removeAll a as)" for b
  proof (cases "ops_buildState (heap d b)")
    case (Some bs)
    then have "b \<in> set as" "b \<noteq> a" using bos_inv_buildState_listed [OF inv] assms(3) by auto
    with that show ?thesis by auto
  qed (simp add: unlisted_def)
  moreover have "0 < allocated ?d" using inv by (simp add: bos_inv_def unlisted_def)
  ultimately show ?thesis unfolding bos_inv_def by blast
qed

lemma circular_previous_neq:
  assumes "circular h as" "a \<in> set as"
  shows "ops_previous (h a) \<noteq> a"
proof -
  obtain xs ys where as: "as = xs @ a # ys" using assms(2) by (meson split_list)
  obtain us p where us: "0 # xs = us @ [p]" by (metis list.distinct(1) rev_exhaust)
  have all: "0 # as @ [0] = us @ p # a # ys @ [0]" using us as by (metis append.assoc append_Cons append_Nil)
  have "links h (us @ p # a # ys @ [0])" using assms(1) unfolding circular_def all by blast
  from links_append [THEN iffD1, OF this] have "ops_previous (h a) = p" by simp
  moreover have "p \<in> set (0 # xs)" using us by simp
  moreover have "a \<notin> set (0 # xs)" using assms(1) as by (auto simp: circular_def)
  ultimately show ?thesis by metis
qed

lemma bos_inv_clean_commit:
  assumes inv: "bos_inv d as" and c: "changeID d + 1 \<noteq> 0"
  shows "bos_inv (clean_commit x a d) (if outputBaseIDs d x = Some a then removeAll a as else as)"
proof (cases "outputBaseIDs d x = Some a")
  case True
  have "circular (heap d) as" "a \<in> set as" using inv True bos_inv_outputBaseIDs [OF inv] by (auto simp: bos_inv_def)
  then have "clean_commit x a d = unlisted x a (detach_build a d)"
    using clean_commit_unlisted [OF True] circular_previous_neq by blast
  with True bos_inv_unlist [where x = x and a = a, OF bos_inv_detach [OF inv]] c show ?thesis by simp
next
  case False
  then show ?thesis using inv by (simp add: clean_commit_def)
qed

section \<open>The abstract service\<close>

text \<open>
  What clients see: a list of output paths in the order in which they were created, each with
  its output base ID, a cookie that tells it from all others, and the build running in it.
\<close>

record abs_path =
  ap_outputBaseID :: string
  ap_cookie :: uint64
  ap_build :: "string option"

record abs_service =
  ab_changeID :: uint64
  ab_paths :: "abs_path list"

definition abs_path_of :: "('op, 'cf, 'df, 'sw) BazelOutputServiceDirectory \<Rightarrow> nat \<Rightarrow> abs_path" where
  "abs_path_of d a = \<lparr>ap_outputBaseID = ops_outputBaseID (heap d a), ap_cookie = ops_cookie (heap d a),
     ap_build = map_option bs_id (ops_buildState (heap d a))\<rparr>"

definition abs_of :: "('op, 'cf, 'df, 'sw) BazelOutputServiceDirectory \<Rightarrow> nat list \<Rightarrow> abs_service" where
  "abs_of d as = \<lparr>ab_changeID = changeID d, ab_paths = map (abs_path_of d) as\<rparr>"

definition abs_start :: "string \<Rightarrow> string \<Rightarrow> abs_service \<Rightarrow> abs_service" where
  "abs_start b x S =
     (if Some b \<in> ap_build ` set (ab_paths S) then S
      else if x \<in> ap_outputBaseID ` set (ab_paths S)
      then S\<lparr>ab_paths := map (\<lambda>p. if ap_outputBaseID p = x then p\<lparr>ap_build := Some b\<rparr> else p) (ab_paths S)\<rparr>
      else S\<lparr>ab_changeID := ab_changeID S + 1,
             ab_paths := ab_paths S @ [\<lparr>ap_outputBaseID = x, ap_cookie = ab_changeID S, ap_build = Some b\<rparr>]\<rparr>)"

definition abs_finalize :: "string \<Rightarrow> abs_service \<Rightarrow> abs_service" where
  "abs_finalize b S =
     S\<lparr>ab_paths := map (\<lambda>p. if ap_build p = Some b then p\<lparr>ap_build := None\<rparr> else p) (ab_paths S)\<rparr>"

definition abs_clean :: "string \<Rightarrow> uint64 \<Rightarrow> abs_service \<Rightarrow> abs_service" where
  "abs_clean x c S =
     (if \<exists>p \<in> set (ab_paths S). ap_outputBaseID p = x \<and> ap_cookie p = c
      then S\<lparr>ab_changeID := ab_changeID S + 1, ab_paths := filter (\<lambda>p. ap_outputBaseID p \<noteq> x) (ab_paths S)\<rparr>
      else S)"

lemma bos_inv_zero: "bos_inv d as \<Longrightarrow> 0 \<notin> set as"
  by (simp add: bos_inv_def circular_def)

lemma bos_inv_allocated: "bos_inv d as \<Longrightarrow> a \<in> set as \<Longrightarrow> 0 < a \<and> a < allocated d"
  using bos_inv_zero by (auto simp: bos_inv_def intro: gr0I)

lemma bos_inv_cookie_unique:
  assumes "bos_inv d as" "0 < a" "a < allocated d" "0 < b" "b < allocated d" "ops_cookie (heap d a) = ops_cookie (heap d b)"
  shows "a = b"
proof -
  have "\<And>a b. 0 < a \<Longrightarrow> a < b \<Longrightarrow> b < allocated d \<Longrightarrow> ops_cookie (heap d a) < ops_cookie (heap d b)"
    using assms(1) by (simp add: bos_inv_def)
  with assms(2-6) show ?thesis by (metis less_irrefl linorder_neqE_nat)
qed

text \<open>Detaching builds.\<close>

lemma detach_build_buildIDs:
  "ops_buildState (heap d a) = Some bs \<Longrightarrow> buildIDs (detach_build a d) = (buildIDs d)(bs_id bs := None)"
  by (simp add: detach_build_def)

lemma abs_build_mem:
  assumes "bos_inv d as"
  shows "Some b \<in> ap_build ` set (ab_paths (abs_of d as)) \<longleftrightarrow> buildIDs d b \<noteq> None"
proof
  assume "Some b \<in> ap_build ` set (ab_paths (abs_of d as))"
  then obtain a bs where "a \<in> set as" "ops_buildState (heap d a) = Some bs" "bs_id bs = b"
    by (auto simp: abs_of_def abs_path_of_def dest!: sym [of "Some b"])
  then show "buildIDs d b \<noteq> None" using bos_inv_buildIDs [OF assms, of b a] by auto
next
  assume "buildIDs d b \<noteq> None"
  then obtain a bs where "a \<in> set as" "ops_buildState (heap d a) = Some bs" "bs_id bs = b"
    using bos_inv_buildIDs [OF assms, of b] by auto
  then show "Some b \<in> ap_build ` set (ab_paths (abs_of d as))"
    by (force simp: abs_of_def abs_path_of_def image_iff)
qed

lemma abs_of_detach:
  assumes inv: "bos_inv d as" and a: "ops_buildState (heap d a) = Some bs"
  shows "abs_of (detach_build a d) as = abs_finalize (bs_id bs) (abs_of d as)"
proof -
  have "abs_path_of (detach_build a d) a' =
      (if ap_build (abs_path_of d a') = Some (bs_id bs) then (abs_path_of d a')\<lparr>ap_build := None\<rparr> else abs_path_of d a')" for a'
  proof (cases "a' = a")
    case True
    then show ?thesis using a by (simp add: abs_path_of_def)
  next
    case False
    then have "map_option bs_id (ops_buildState (heap d a')) \<noteq> Some (bs_id bs)"
      using bos_inv_build_unique [OF inv a, of a'] by (cases "ops_buildState (heap d a')") auto
    with False show ?thesis by (auto simp: abs_path_of_def)
  qed
  then show ?thesis by (simp add: abs_of_def abs_finalize_def)
qed

lemma sim_finalize:
  assumes inv: "bos_inv d as" and fin: "bos_FinalizeBuild so b d s = Returns (log, d', s')"
  shows "bos_inv d' as \<and> abs_of d' as = abs_finalize b (abs_of d as) \<and> buildIDs d' b = None"
proof (cases "buildIDs d b")
  case None
  have "ap_build (abs_path_of d a) \<noteq> Some b" if "a \<in> set as" for a
    using that None bos_inv_buildIDs [OF inv, of b a] by (auto simp: abs_path_of_def)
  then have "abs_finalize b (abs_of d as) = abs_of d as"
    by (simp add: abs_of_def abs_finalize_def)
  with None fin inv show ?thesis by (simp add: bos_FinalizeBuild_def)
next
  case (Some a)
  then obtain bs where bs: "ops_buildState (heap d a) = Some bs" "bs_id bs = b"
    using bos_inv_buildIDs [OF inv, of b a] by auto
  have d': "d' = detach_build a d"
    using fin Some bs by (auto simp: bos_FinalizeBuild_def detach_build_def split: option.splits)
  show ?thesis
    unfolding d' using bos_inv_detach [OF inv, of a] abs_of_detach [OF inv bs(1)] bs
    by (simp add: detach_build_buildIDs [OF bs(1)])
qed

text \<open>Taking an output path out.\<close>

lemma sim_clean:
  assumes inv: "bos_inv d as" and a: "0 < a" "a < allocated d" "ops_outputBaseID (heap d a) = x" and c: "changeID d + 1 \<noteq> 0"
  shows "\<exists>as'. bos_inv (clean_commit x a d) as' \<and>
    abs_of (clean_commit x a d) as' = abs_clean x (ops_cookie (heap d a)) (abs_of d as) \<and> a \<notin> set as'"
proof (cases "outputBaseIDs d x = Some a")
  case True
  have as: "circular (heap d) as" "a \<in> set as" using inv True bos_inv_outputBaseIDs [OF inv] by (auto simp: bos_inv_def)
  then have cc: "clean_commit x a d = unlisted x a (detach_build a d)"
    using clean_commit_unlisted [OF True] circular_previous_neq by blast
  have other: "ops_outputBaseID (heap d b) \<noteq> x \<longleftrightarrow> b \<noteq> a" if "b \<in> set as" for b
    using bos_inv_base_unique [OF inv as(2) that] a(3) by metis
  have "abs_path_of (clean_commit x a d) b = abs_path_of d b" if "b \<noteq> a" for b
    using that by (simp add: cc abs_path_of_def unlisted_def)
  then have "map (abs_path_of (clean_commit x a d)) (removeAll a as) = map (abs_path_of d) (filter (\<lambda>b. b \<noteq> a) as)"
    by (simp add: removeAll_filter_not_eq neq_commute)
  also have "filter (\<lambda>b. b \<noteq> a) as = filter (\<lambda>b. ops_outputBaseID (heap d b) \<noteq> x) as"
    by (rule filter_cong [OF refl]) (simp add: other)
  also have "map (abs_path_of d) \<dots> = filter (\<lambda>p. ap_outputBaseID p \<noteq> x) (map (abs_path_of d) as)"
    by (simp add: filter_map o_def abs_path_of_def)
  finally have paths: "map (abs_path_of (clean_commit x a d)) (removeAll a as) =
      filter (\<lambda>p. ap_outputBaseID p \<noteq> x) (map (abs_path_of d) as)" .
  have "\<exists>p \<in> set (map (abs_path_of d) as). ap_outputBaseID p = x \<and> ap_cookie p = ops_cookie (heap d a)"
    using as(2) a(3) by (force simp: abs_path_of_def)
  then have "abs_of (clean_commit x a d) (removeAll a as) = abs_clean x (ops_cookie (heap d a)) (abs_of d as)"
    unfolding abs_of_def abs_clean_def paths by (simp add: cc unlisted_def)
  then show ?thesis using bos_inv_clean_commit [OF inv c, of x a] True by auto
next
  case False
  have "a \<notin> set as" using False bos_inv_outputBaseIDs [OF inv] a(3) by blast
  moreover have "b = a" if "b \<in> set as" "ops_cookie (heap d b) = ops_cookie (heap d a)" for b
    using bos_inv_cookie_unique [OF inv, of b a] bos_inv_allocated [OF inv that(1)] a that(2) by simp
  ultimately have "abs_clean x (ops_cookie (heap d a)) (abs_of d as) = abs_of d as"
    by (auto simp: abs_clean_def abs_of_def abs_path_of_def)
  with False inv \<open>a \<notin> set as\<close> show ?thesis by (auto simp: clean_commit_def)
qed

text \<open>Starting builds.\<close>

lemma abs_of_attach:
  assumes "bos_inv d as" "a \<in> set as"
  shows "abs_of (attach_build a bs d) as = (abs_of d as)\<lparr>ab_paths :=
    map (\<lambda>p. if ap_outputBaseID p = ops_outputBaseID (heap d a) then p\<lparr>ap_build := Some (bs_id bs)\<rparr> else p) (ab_paths (abs_of d as))\<rparr>"
  using bos_inv_base_unique [OF assms(1) _ assms(2)]
  by (auto simp: abs_of_def abs_path_of_def)

lemma sim_start:
  assumes inv: "bos_inv d as" and c: "changeID d + 1 \<noteq> 0"
    and start: "startBuild_locked so b x df sw d s = Returns (a, log, d', s')"
  shows "\<exists>as'. bos_inv d' as' \<and> abs_of d' as' = abs_start b x (abs_of d as) \<and> a \<in> set as' \<and>
    (\<exists>bs. ops_buildState (heap d' a) = Some bs \<and> bs_id bs = b)"
proof (cases "buildIDs d b")
  case (Some a')
  then have "a' \<in> set as" "\<exists>bs. ops_buildState (heap d a') = Some bs \<and> bs_id bs = b"
    using bos_inv_buildIDs [OF inv] by auto
  moreover have "Some b \<in> ap_build ` set (ab_paths (abs_of d as))" using Some by (simp add: abs_build_mem [OF inv])
  ultimately show ?thesis using Some start inv by (auto simp: startBuild_locked_def abs_start_def)
next
  case none: None
  let ?bs = "\<lparr>bs_id = b, bs_digestFunction = df, bs_scopeWalkerFactory = sw\<rparr>"
  have nb: "Some b \<notin> ap_build ` set (ab_paths (abs_of d as))"
    using none by (simp add: abs_build_mem [OF inv])
  show ?thesis
  proof (cases "outputBaseIDs d x")
    case (Some a')
    then have a': "a' \<in> set as" "ops_outputBaseID (heap d a') = x" using bos_inv_outputBaseIDs [OF inv] by auto
    have r: "a = a'" "d' = attach_build a' ?bs (detach_build a' d)"
      using start none Some by (auto simp: startBuild_locked_def)
    have "buildIDs (detach_build a' d) b = None"
      using none by (auto simp: detach_build_def split: option.splits)
    then have "bos_inv d' as"
      unfolding r by (intro bos_inv_attach [OF bos_inv_detach [OF inv] a'(1)]) simp_all
    moreover have "abs_of d' as = abs_start b x (abs_of d as)"
    proof -
      have "abs_path_of d' e = (if ops_outputBaseID (heap d e) = x then (abs_path_of d e)\<lparr>ap_build := Some b\<rparr> else abs_path_of d e)"
        if "e \<in> set as" for e
      proof (cases "e = a'")
        case True
        then show ?thesis using a'(2) by (simp add: r abs_path_of_def)
      next
        case False
        then have "ops_outputBaseID (heap d e) \<noteq> x" using bos_inv_base_unique [OF inv that a'(1)] a'(2) by metis
        with False show ?thesis by (simp add: r abs_path_of_def)
      qed
      moreover have "x \<in> ap_outputBaseID ` set (ab_paths (abs_of d as))"
        using a' by (force simp: abs_of_def abs_path_of_def image_iff)
      ultimately show ?thesis using nb by (simp add: abs_start_def abs_of_def r(2)) (simp add: abs_path_of_def)
    qed
    ultimately show ?thesis using a' r by (intro exI [of _ as]) simp
  next
    case None
    obtain cf s1 where cf: "so_NewCASFileFactory so s = (cf, s1)" by fastforce
    obtain op log0 s2 where op: "so_StartInitialBuild so x cf df s1 = Returns (op, log0, s2)"
      using start none None cf by (auto simp: startBuild_locked_def)
    obtain a1 d1 where d1: "insert_output_path x op cf d = (a1, d1)" by fastforce
    have d1: "insert_output_path x op cf d = (a, d1)" and d': "d' = attach_build a ?bs d1"
      using start none None cf op d1 by (auto simp: startBuild_locked_def)
    have pos: "0 < allocated d" using inv by (simp add: bos_inv_def)
    note sel = insert_output_path_sel [OF d1 pos]
    note inv1 = bos_inv_insert [OF inv None c d1]
    have "bos_inv d' (as @ [a])"
      unfolding d' using none by (intro bos_inv_attach [OF inv1]) (simp_all add: sel)
    moreover have "abs_of d' (as @ [a]) = abs_start b x (abs_of d as)"
    proof -
      have "e \<noteq> a" if "e \<in> set as" for e using bos_inv_allocated [OF inv that] sel(1) by simp
      moreover have "x \<notin> ap_outputBaseID ` set (ab_paths (abs_of d as))"
      proof
        assume "x \<in> ap_outputBaseID ` set (ab_paths (abs_of d as))"
        then obtain e where "e \<in> set as" "ops_outputBaseID (heap d e) = x" by (auto simp: abs_of_def abs_path_of_def)
        then show False using None bos_inv_outputBaseIDs [OF inv, of x e] by simp
      qed
      ultimately show ?thesis using nb by (simp add: abs_start_def abs_of_def d' sel abs_path_of_def)
    qed
    ultimately show ?thesis using d' by (intro exI [of _ "as @ [a]"]) simp
  qed
qed

end
