(* ===== verification/Service_Steps.thy ===== *)
theory Service_Steps
  imports Output_Service
begin

text \<open>
  The Bazel Output Service as a system of interleaved requests: every section of a handler that
  holds the lock is one step, calls that do not hold it are steps of their own, and everything
  else (other calls, file system operations) may change the world outside the service's state.
\<close>

section \<open>Steps\<close>

text \<open>
  Requests to clean that are under way: those that found an output path, those that emptied it
  and wait for the lock again, and those that found none.
\<close>

record ('s, 'op, 'cf, 'df, 'sw) service =
  sv_dir :: "('op, 'cf, 'df, 'sw) BazelOutputServiceDirectory"
  sv_world :: 's
  sv_found :: "(string \<times> nat) list"
  sv_emptied :: "(string \<times> nat) list"
  sv_absent :: "string list"

inductive service_step ::
    "('s, 'op, 'dd, 'cf, 'df) service_ops \<Rightarrow> ('s, 'op, 'cf, 'df, 'sw) service \<Rightarrow> ('s, 'op, 'cf, 'df, 'sw) service \<Rightarrow> bool"
  for so where
  Clean_finds: "so_NewComponent so x \<Longrightarrow> outputBaseIDs (sv_dir S) x = Some a \<Longrightarrow>
     service_step so S (S\<lparr>sv_found := (x, a) # sv_found S\<rparr>)"
| Clean_finds_none: "so_NewComponent so x \<Longrightarrow> outputBaseIDs (sv_dir S) x = None \<Longrightarrow>
     service_step so S (S\<lparr>sv_absent := x # sv_absent S\<rparr>)"
| Clean_empties: "(x, a) \<in> set (sv_found S) \<Longrightarrow> ops_rootDirectory (heap (sv_dir S) a) = Some op \<Longrightarrow>
     so_RemoveAllChildren so op True (sv_world S) = (None, w) \<Longrightarrow>
     service_step so S (S\<lparr>sv_world := w, sv_found := remove1 (x, a) (sv_found S), sv_emptied := (x, a) # sv_emptied S\<rparr>)"
| Clean_fails: "(x, a) \<in> set (sv_found S) \<Longrightarrow> ops_rootDirectory (heap (sv_dir S) a) = Some op \<Longrightarrow>
     so_RemoveAllChildren so op True (sv_world S) = (Some err, w) \<Longrightarrow>
     service_step so S (S\<lparr>sv_world := w, sv_found := remove1 (x, a) (sv_found S)\<rparr>)"
| Clean_commits: "(x, a) \<in> set (sv_emptied S) \<Longrightarrow>
     service_step so S (S\<lparr>sv_dir := clean_commit x a (sv_dir S), sv_emptied := remove1 (x, a) (sv_emptied S)\<rparr>)"
| Clean_persistent: "x \<in> set (sv_absent S) \<Longrightarrow> so_Clean so x (sv_world S) = (err, w) \<Longrightarrow>
     service_step so S (S\<lparr>sv_world := w, sv_absent := remove1 x (sv_absent S)\<rparr>)"
| Starts: "so_NewComponent so x \<Longrightarrow>
     startBuild_locked so b x df sw (sv_dir S) (sv_world S) = Returns (a, log, d, w) \<Longrightarrow>
     service_step so S (S\<lparr>sv_dir := d, sv_world := w\<rparr>)"
| Finalizes: "bos_FinalizeBuild so b (sv_dir S) (sv_world S) = Returns (log, d, w) \<Longrightarrow>
     service_step so S (S\<lparr>sv_dir := d, sv_world := w\<rparr>)"
| World: "service_step so S (S\<lparr>sv_world := w\<rparr>)"

text \<open>
  States reachable in a number of steps. The change ID is a 64-bit counter, which fewer than
  \<open>2 ^ 64\<close> steps do not wrap.
\<close>

inductive reachable ::
    "('s, 'op, 'dd, 'cf, 'df) service_ops \<Rightarrow> nat \<Rightarrow> ('s, 'op, 'cf, 'df, 'sw) service \<Rightarrow> bool" for so where
  initially: "reachable so 0 \<lparr>sv_dir = NewBazelOutputServiceDirectory, sv_world = w, sv_found = [], sv_emptied = [],
     sv_absent = []\<rparr>"
| step: "reachable so n S \<Longrightarrow> service_step so S S' \<Longrightarrow> Suc n < 2 ^ 64 \<Longrightarrow> reachable so (Suc n) S'"

inductive_cases service_stepE: "service_step so S S'"

section \<open>Objects stay what they are\<close>

text \<open>Everything but its links and its build is fixed when an output path is made.\<close>

definition grows :: "('op, 'cf, 'df, 'sw) BazelOutputServiceDirectory \<Rightarrow> ('op, 'cf, 'df, 'sw) BazelOutputServiceDirectory \<Rightarrow> bool" where
  "grows d d' \<longleftrightarrow> allocated d \<le> allocated d' \<and> unat (changeID d') \<le> Suc (unat (changeID d)) \<and>
     (\<forall>a. 0 < a \<longrightarrow> a < allocated d \<longrightarrow>
        ops_outputBaseID (heap d' a) = ops_outputBaseID (heap d a) \<and> ops_cookie (heap d' a) = ops_cookie (heap d a) \<and>
        ops_rootDirectory (heap d' a) = ops_rootDirectory (heap d a) \<and>
        ops_casFileFactory (heap d' a) = ops_casFileFactory (heap d a))"

lemma unat_plus_one_le: "unat ((c :: uint64) + 1) \<le> Suc (unat c)"
  using unat_word_ariths(1) [of c 1] by simp

lemma grows_refl [simp]: "grows d d"
  by (simp add: grows_def)

lemma grows_detach [simp]: "grows d (detach_build a d)"
  by (simp add: grows_def)

lemma grows_attach: "grows d d' \<Longrightarrow> grows d (attach_build a bs d')"
  by (simp add: grows_def)

lemma grows_insert:
  assumes "insert_output_path x op cf d = (a, d')" "0 < allocated d"
  shows "grows d d'"
  using insert_output_path_sel [OF assms] unat_plus_one_le [of "changeID d"] by (simp add: grows_def)

lemma grows_clean: "grows d (clean_commit x a d)"
proof -
  have "changeID (clean_commit x a d) = (if outputBaseIDs d x = Some a then changeID d + 1 else changeID d)"
    "allocated (clean_commit x a d) = allocated d"
    "ops_outputBaseID (heap (clean_commit x a d) b) = ops_outputBaseID (heap d b)"
    "ops_cookie (heap (clean_commit x a d) b) = ops_cookie (heap d b)"
    "ops_rootDirectory (heap (clean_commit x a d) b) = ops_rootDirectory (heap d b)"
    "ops_casFileFactory (heap (clean_commit x a d) b) = ops_casFileFactory (heap d b)" for b
    by (simp_all add: clean_commit_def Let_def)
  then show ?thesis using unat_plus_one_le [of "changeID d"] by (simp add: grows_def)
qed

lemma grows_start:
  assumes "startBuild_locked so b x df sw d s = Returns (a, log, d', s')" "0 < allocated d"
  shows "grows d d'"
proof (cases "buildIDs d b = None \<and> outputBaseIDs d x = None")
  case False
  then show ?thesis
    using assms(1) by (cases "buildIDs d b"; cases "outputBaseIDs d x") (auto simp: startBuild_locked_def grows_attach)
next
  case True
  obtain cf s1 where cf: "so_NewCASFileFactory so s = (cf, s1)" by fastforce
  obtain op log0 s2 where op: "so_StartInitialBuild so x cf df s1 = Returns (op, log0, s2)"
    using assms(1) True cf by (auto simp: startBuild_locked_def)
  obtain a1 d1 where d1: "insert_output_path x op cf d = (a1, d1)" by fastforce
  then show ?thesis
    using assms(1) True cf op grows_insert [OF d1 assms(2)] by (auto simp: startBuild_locked_def grows_attach)
qed

lemma grows_finalize: "bos_FinalizeBuild so b d s = Returns (log, d', s') \<Longrightarrow> grows d d'"
  by (auto simp: bos_FinalizeBuild_def grows_def split: option.splits)

section \<open>Simulation\<close>

text \<open>What a step does to the list of output paths.\<close>

inductive abs_step :: "abs_service \<Rightarrow> abs_service \<Rightarrow> bool" where
  abs_stutters: "abs_step S S"
| abs_starts: "abs_step S (abs_start b x S)"
| abs_finalizes: "abs_step S (abs_finalize b S)"
| abs_cleans: "abs_step S (abs_clean x c S)"

definition service_inv :: "nat \<Rightarrow> ('s, 'op, 'cf, 'df, 'sw) service \<Rightarrow> nat list \<Rightarrow> bool" where
  "service_inv n S as \<longleftrightarrow> bos_inv (sv_dir S) as \<and> unat (changeID (sv_dir S)) \<le> n \<and>
     (\<forall>(x, a) \<in> set (sv_found S) \<union> set (sv_emptied S).
        0 < a \<and> a < allocated (sv_dir S) \<and> ops_outputBaseID (heap (sv_dir S) a) = x)"

lemma pending_grows:
  assumes "grows d d'" "\<forall>(x, a) \<in> P. 0 < a \<and> a < allocated d \<and> ops_outputBaseID (heap d a) = x" "P' \<subseteq> P"
  shows "\<forall>(x, a) \<in> P'. 0 < a \<and> a < allocated d' \<and> ops_outputBaseID (heap d' a) = x"
proof safe
  fix x a assume "(x, a) \<in> P'"
  then have "0 < a \<and> a < allocated d \<and> ops_outputBaseID (heap d a) = x" using assms(2,3) by blast
  with assms(1) show "0 < a" "a < allocated d'" "ops_outputBaseID (heap d' a) = x"
    by (auto simp: grows_def)
qed

lemma no_wrap: "unat (c :: uint64) \<le> n \<Longrightarrow> Suc n < 2 ^ 64 \<Longrightarrow> c + 1 \<noteq> 0"
proof
  assume "unat c \<le> n" "Suc n < 2 ^ 64" "c + 1 = 0"
  have "unat (c + 1) = Suc (unat c)"
    using \<open>unat c \<le> n\<close> \<open>Suc n < 2 ^ 64\<close> unat_word_ariths(1) [of c 1] by simp
  with \<open>c + 1 = 0\<close> show False by simp
qed

lemma service_step_simulation:
  assumes "service_step so S S'" "service_inv n S as" "Suc n < 2 ^ 64"
  shows "\<exists>as'. service_inv (Suc n) S' as' \<and> abs_step (abs_of (sv_dir S) as) (abs_of (sv_dir S') as') \<and>
    grows (sv_dir S) (sv_dir S')"
proof -
  let ?d = "sv_dir S" and ?P = "set (sv_found S) \<union> set (sv_emptied S)"
  have inv: "bos_inv ?d as" and n: "unat (changeID ?d) \<le> n"
    and P: "\<forall>(x, a) \<in> ?P. 0 < a \<and> a < allocated ?d \<and> ops_outputBaseID (heap ?d a) = x"
    using assms(2) by (auto simp: service_inv_def)
  note c = no_wrap [OF n assms(3)]
  have pos: "0 < allocated ?d" using inv by (simp add: bos_inv_def)
  have keep: ?thesis if "sv_dir S' = ?d" "set (sv_found S') \<union> set (sv_emptied S') \<subseteq> ?P"
    using that inv n pending_grows [OF grows_refl P that(2)] by (intro exI [of _ as]) (simp add: service_inv_def abs_stutters)
  have move: ?thesis
    if "bos_inv (sv_dir S') as'" "grows ?d (sv_dir S')" "set (sv_found S') \<union> set (sv_emptied S') \<subseteq> ?P"
      "abs_step (abs_of ?d as) (abs_of (sv_dir S') as')" for as'
    using that n pending_grows [OF that(2) P that(3)] by (intro exI [of _ as']) (simp add: service_inv_def grows_def)
  from assms(1) show ?thesis
  proof cases
    case (Clean_finds x a)
    then have "a \<in> set as" "ops_outputBaseID (heap ?d a) = x" using bos_inv_outputBaseIDs [OF inv] by auto
    with Clean_finds inv n P bos_inv_allocated [OF inv] show ?thesis
      by (intro exI [of _ as]) (simp add: service_inv_def abs_stutters)
  next
    case (Clean_commits x a)
    then have a: "0 < a" "a < allocated ?d" "ops_outputBaseID (heap ?d a) = x" using P by auto
    obtain as' where "bos_inv (clean_commit x a ?d) as'"
      "abs_of (clean_commit x a ?d) as' = abs_clean x (ops_cookie (heap ?d a)) (abs_of ?d as)"
      using sim_clean [OF inv a c] by blast
    then show ?thesis
      using Clean_commits grows_clean [of ?d x a] abs_cleans [of "abs_of ?d as"] set_remove1_subset
      by (intro move [of as']) (simp_all, fastforce)
  next
    case (Starts x b df sw a log d w)
    obtain as' where "bos_inv d as'" "abs_of d as' = abs_start b x (abs_of ?d as)"
      using sim_start [OF inv c Starts(3)] by blast
    then show ?thesis using Starts grows_start [OF Starts(3) pos] abs_starts [of "abs_of ?d as"] by (intro move [of as']) simp_all
  next
    case (Finalizes b log d w)
    have "bos_inv d as" "abs_of d as = abs_finalize b (abs_of ?d as)" using sim_finalize [OF inv Finalizes(2)] by auto
    then show ?thesis using Finalizes grows_finalize [OF Finalizes(2)] abs_finalizes [of "abs_of ?d as"] by (intro move [of as]) simp_all
  qed (intro keep; auto dest: notin_set_remove1 in_set_remove1 set_remove1_subset [THEN subsetD])+
qed

lemma changeID_New: "changeID NewBazelOutputServiceDirectory = 0"
  by (simp add: NewBazelOutputServiceDirectory_def)

lemma reachable_inv:
  "reachable so n S \<Longrightarrow> \<exists>as. service_inv n S as"
proof (induction rule: reachable.induct)
  case (initially w)
  show ?case by (intro exI [of _ "[]"]) (simp add: service_inv_def bos_inv_New changeID_New)
next
  case (step n S S')
  then show ?case using service_step_simulation by blast
qed

section \<open>Listing the output paths\<close>

fun report_all :: "('child, 'p) reporter \<Rightarrow> (uint64 \<times> string \<times> 'child) list \<Rightarrow> 'p \<Rightarrow> 'p" where
  "report_all report [] p = p"
| "report_all report ((c, n, ch) # es) p =
     (case report c n ch p of (more_entries, p') \<Rightarrow> if more_entries then report_all report es p' else p')"

definition entry_of :: "(nat \<Rightarrow> ('op, 'cf, 'df, 'sw) outputPathState) \<Rightarrow> nat \<Rightarrow> uint64 \<times> string \<times> 'op option" where
  "entry_of h a = (ops_cookie (h a) + 1, ops_outputBaseID (h a), ops_rootDirectory (h a))"

lemma links_tl: "links h (a # r) \<Longrightarrow> links h r"
  by (cases r) auto

lemma find_first_links:
  "links h (r @ [0]) \<Longrightarrow> 0 \<notin> set r \<Longrightarrow>
   find_first h c (hd (r @ [0])) = Some (hd (dropWhile (\<lambda>a. ops_cookie (h a) < c) r @ [0]))"
proof (induction r)
  case Nil
  then show ?case by (simp add: find_first.simps)
next
  case (Cons a r)
  then have "ops_next (h a) = hd (r @ [0])" by (cases r) auto
  with Cons links_tl [of h a "r @ [0]"] show ?case
    by (subst find_first.simps) (auto simp: not_less not_le)
qed

lemma report_output_paths_links:
  "links h (r @ [0]) \<Longrightarrow> 0 \<notin> set r \<Longrightarrow>
   report_output_paths report h (hd (r @ [0])) p = Some (report_all report (map (entry_of h) r) p)"
proof (induction r arbitrary: p)
  case Nil
  then show ?case by (simp add: report_output_paths.simps)
next
  case (Cons a r)
  then have "ops_next (h a) = hd (r @ [0])" by (cases r) auto
  with Cons links_tl [of h a "r @ [0]"] show ?case
    by (subst report_output_paths.simps) (simp add: entry_of_def [of h a] split: prod.splits)
qed

lemma dropWhile_sorted_filter:
  "sorted_wrt (\<lambda>a b. f a < f b) xs \<Longrightarrow> dropWhile (\<lambda>a. f a < (c :: 'a :: linorder)) xs = filter (\<lambda>a. c \<le> f a) xs"
proof (induction xs)
  case (Cons a xs)
  show ?case
  proof (cases "f a < c")
    case False
    then have "\<forall>b \<in> set xs. c \<le> f b" using Cons.prems by fastforce
    with False show ?thesis by (simp add: not_less)
  qed (use Cons in auto)
qed simp

lemma bos_inv_cookies_sorted:
  assumes "bos_inv d as"
  shows "sorted_wrt (\<lambda>a b. ops_cookie (heap d a) < ops_cookie (heap d b)) as"
proof -
  have "sorted_wrt (<) as" using assms by (simp add: bos_inv_def)
  then show ?thesis
    by (rule sorted_wrt_mono_rel [rotated]) (use assms bos_inv_allocated [OF assms] in \<open>auto simp: bos_inv_def\<close>)
qed

lemma VirtualReadDir_entries:
  assumes inv: "bos_inv d as"
  shows "bos_VirtualReadDir c report d p =
    Returns (StatusOK, report_all report (map (entry_of (heap d)) (filter (\<lambda>a. c \<le> ops_cookie (heap d a)) as)) p)"
proof -
  let ?h = "heap d" and ?r = "filter (\<lambda>a. c \<le> ops_cookie (heap d a)) as"
  have l: "links ?h (0 # as @ [0])" and z: "0 \<notin> set as" using inv by (simp_all add: bos_inv_def circular_def)
  then have "links ?h (as @ [0])" "ops_next (?h 0) = hd (as @ [0])" by (simp add: links_tl, cases as, auto)
  then have f: "find_first ?h c (ops_next (?h 0)) = Some (hd (?r @ [0]))"
    using find_first_links [of ?h as c] z dropWhile_sorted_filter [OF bos_inv_cookies_sorted [OF inv], of c] by simp
  have "?r = dropWhile (\<lambda>a. ops_cookie (?h a) < c) as"
    using dropWhile_sorted_filter [OF bos_inv_cookies_sorted [OF inv], of c] by simp
  then obtain xs where "as = xs @ ?r" by (metis takeWhile_dropWhile_id)
  then have "links ?h (xs @ (?r @ [0]))" using \<open>links ?h (as @ [0])\<close> by (metis append.assoc)
  then have "links ?h (?r @ [0])"
    by (cases "?r @ [0]") (simp, metis links_append)
  moreover have "0 \<notin> set ?r" using z by simp
  ultimately have "report_output_paths report ?h (hd (?r @ [0])) p = Some (report_all report (map (entry_of ?h) ?r) p)"
    by (rule report_output_paths_links)
  with f z show ?thesis by (cases ?r) (auto simp: bos_VirtualReadDir_def dest: filter_eq_ConsD)
qed

lemma report_all_bounded:
  "report_all bounded_reporter es (k, acc) = (k - length es, acc @ take k es)"
proof (induction es arbitrary: k acc)
  case (Cons e es)
  then show ?case by (cases e; cases k) (simp_all add: bounded_reporter_def)
qed simp

text \<open>A client reads page after page, each at a later time, continuing at the last cookie it got.\<close>

fun read_pages ::
    "uint64 \<Rightarrow> (('op, 'cf, 'df, 'sw) BazelOutputServiceDirectory \<times> nat) list \<Rightarrow> (uint64 \<times> string \<times> 'op option) list exec" where
  "read_pages c [] = Returns []"
| "read_pages c ((d, k) # ps) =
     exec_bind (bos_VirtualReadDir c bounded_reporter d (k, [])) (\<lambda>(st, room, es).
       exec_bind (read_pages (if es = [] then c else fst (last es)) ps) (\<lambda>rest. Returns (es @ rest)))"

lemma cookie_plus_one:
  assumes "bos_inv d as" "a \<in> set as"
  shows "y < ops_cookie (heap d a) + 1 \<longleftrightarrow> y \<le> ops_cookie (heap d a)"
proof (rule less_plus_one64)
  have "ops_cookie (heap d a) < changeID d" using assms bos_inv_allocated [OF assms] by (simp add: bos_inv_def)
  then have "unat (ops_cookie (heap d a)) < unat (changeID d)" by (simp add: word_less_nat_alt)
  moreover have "unat (changeID d) < 2 ^ LENGTH(64)" by (rule unsigned_less)
  ultimately show "ops_cookie (heap d a) + 1 \<noteq> 0" using no_wrap [of "ops_cookie (heap d a)" "unat (ops_cookie (heap d a))"] by simp
qed

lemma sorted_fst_last:
  fixes es :: "('a :: linorder \<times> 'b) list"
  shows "sorted_wrt (<) (map fst es) \<Longrightarrow> e \<in> set es \<Longrightarrow> fst e \<le> fst (last es)"
  by (induction es) (auto intro: order.strict_implies_order)

lemma fst_entry_of:
  "bos_inv d as \<Longrightarrow> a \<in> set as \<Longrightarrow> y < fst (entry_of (heap d) a) \<longleftrightarrow> y \<le> ops_cookie (heap d a)"
  using cookie_plus_one by (simp add: entry_of_def)

lemma entries_sorted:
  assumes "bos_inv d as"
  shows "sorted_wrt (<) (map fst (map (entry_of (heap d)) (filter P as)))"
proof -
  have "sorted_wrt (\<lambda>a b. ops_cookie (heap d a) < ops_cookie (heap d b)) (filter P as)"
    by (rule sorted_wrt_filter [OF bos_inv_cookies_sorted [OF assms]])
  then have "sorted_wrt (\<lambda>a b. fst (entry_of (heap d) a) < fst (entry_of (heap d) b)) (filter P as)"
    by (rule sorted_wrt_mono_rel [rotated]) (simp add: fst_entry_of [OF assms], simp add: entry_of_def inc_le)
  then show ?thesis by (simp add: sorted_wrt_map)
qed

lemma bos_inv_length:
  assumes inv: "bos_inv d as"
  shows "length as = card (dom (outputBaseIDs d))"
proof -
  have "dom (outputBaseIDs d) = (\<lambda>a. ops_outputBaseID (heap d a)) ` set as"
    using bos_inv_outputBaseIDs [OF inv] by auto
  moreover have "inj_on (\<lambda>a. ops_outputBaseID (heap d a)) (set as)"
    using bos_inv_base_unique [OF inv] by (auto intro: inj_onI)
  moreover have "distinct as" using inv by (simp add: bos_inv_def circular_def)
  ultimately show ?thesis by (simp add: card_image distinct_card)
qed

text \<open>An entry past the cookie is on a page, or past its last entry.\<close>

lemma on_page_or_later:
  assumes inv: "bos_inv d as" and a: "a \<in> set as" "c \<le> ops_cookie (heap d a)"
    and es: "es = take k (map (entry_of (heap d)) (filter (\<lambda>a. c \<le> ops_cookie (heap d a)) as))"
  shows "entry_of (heap d) a \<in> set es \<or>
    (k < card (dom (outputBaseIDs d)) \<and> (if es = [] then c else fst (last es)) \<le> ops_cookie (heap d a))"
proof (cases "entry_of (heap d) a \<in> set es")
  case False
  let ?all = "map (entry_of (heap d)) (filter (\<lambda>a. c \<le> ops_cookie (heap d a)) as)"
  have mem: "entry_of (heap d) a \<in> set ?all" using a by simp
  have "k < length ?all" using False mem es by (metis linorder_not_less take_all)
  then have "k < card (dom (outputBaseIDs d))"
    using length_filter_le [of "\<lambda>a. c \<le> ops_cookie (heap d a)" as] bos_inv_length [OF inv] by simp
  moreover have "(if es = [] then c else fst (last es)) \<le> ops_cookie (heap d a)"
  proof (cases "es = []")
    case nonempty: False
    have "sorted_wrt (<) (map fst es @ map fst (drop k ?all))"
      using entries_sorted [OF inv] es by (metis append_take_drop_id map_append)
    moreover have "entry_of (heap d) a \<in> set (drop k ?all)" using False mem es by (metis UnE append_take_drop_id set_append)
    ultimately have "fst (last es) < fst (entry_of (heap d) a)"
      using nonempty by (simp only: sorted_wrt_append set_map) (metis image_eqI last_in_set)
    then show ?thesis using nonempty fst_entry_of [OF inv a(1)] by simp
  qed (use a(2) in simp)
  ultimately show ?thesis by blast
qed simp

lemma read_pages_complete:
  assumes "\<forall>(d, k) \<in> set ps. \<exists>as. bos_inv d as"
  shows "\<exists>es. read_pages c ps = Returns es \<and> sorted_wrt (<) (map fst es) \<and> (\<forall>e \<in> set es. c < fst e) \<and>
    (\<forall>x cookie op. ps \<noteq> [] \<longrightarrow> card (dom (outputBaseIDs (fst (last ps)))) \<le> snd (last ps) \<longrightarrow> c \<le> cookie \<longrightarrow>
       (\<forall>(d, k) \<in> set ps. \<exists>a. outputBaseIDs d x = Some a \<and> ops_cookie (heap d a) = cookie \<and> ops_rootDirectory (heap d a) = op) \<longrightarrow>
       (cookie + 1, x, op) \<in> set es)"
  using assms
proof (induction c ps rule: read_pages.induct)
  case (1 c)
  then show ?case by simp
next
  case (2 c d k ps)
  then obtain as where inv: "bos_inv d as" by auto
  let ?all = "map (entry_of (heap d)) (filter (\<lambda>a. c \<le> ops_cookie (heap d a)) as)"
  let ?es = "take k ?all"
  let ?c = "if ?es = [] then c else fst (last ?es)"
  have rd: "bos_VirtualReadDir c bounded_reporter d (k, []) = Returns (StatusOK, k - length ?all, ?es)"
    by (simp add: VirtualReadDir_entries [OF inv] report_all_bounded)
  have sorted_es: "sorted_wrt (<) (map fst ?es)"
    unfolding take_map [symmetric] by (rule sorted_wrt_take [OF entries_sorted [OF inv]])
  have "\<forall>e \<in> set ?all. c < fst e" by (auto simp: fst_entry_of [OF inv])
  then have gt_es: "\<forall>e \<in> set ?es. c < fst e" by (meson in_set_takeD)
  have last: "\<forall>e \<in> set ?es. fst e \<le> ?c" "c \<le> ?c"
    using sorted_fst_last [OF sorted_es] gt_es by (auto simp: less_imp_le)
  obtain rest where r: "read_pages ?c ps = Returns rest" "sorted_wrt (<) (map fst rest)" "\<forall>e \<in> set rest. ?c < fst e"
    and rest: "\<forall>x cookie op. ps \<noteq> [] \<longrightarrow> card (dom (outputBaseIDs (fst (last ps)))) \<le> snd (last ps) \<longrightarrow> ?c \<le> cookie \<longrightarrow>
       (\<forall>(d, k) \<in> set ps. \<exists>a. outputBaseIDs d x = Some a \<and> ops_cookie (heap d a) = cookie \<and> ops_rootDirectory (heap d a) = op) \<longrightarrow>
       (cookie + 1, x, op) \<in> set rest"
    using 2(1) [where xb = ?es] 2(2) by auto
  have complete: "(cookie + 1, x, op) \<in> set (?es @ rest)"
    if l: "card (dom (outputBaseIDs (fst (last ((d, k) # ps))))) \<le> snd (last ((d, k) # ps))" and ge: "c \<le> cookie"
      and ex: "\<forall>(d, k) \<in> set ((d, k) # ps). \<exists>a. outputBaseIDs d x = Some a \<and> ops_cookie (heap d a) = cookie \<and> ops_rootDirectory (heap d a) = op"
    for x cookie op
  proof -
    obtain a where a: "outputBaseIDs d x = Some a" "ops_cookie (heap d a) = cookie" "ops_rootDirectory (heap d a) = op"
      using ex by auto
    then have as: "a \<in> set as" and e: "entry_of (heap d) a = (cookie + 1, x, op)"
      using bos_inv_outputBaseIDs [OF inv] by (auto simp: entry_of_def)
    consider "entry_of (heap d) a \<in> set ?es" | "k < card (dom (outputBaseIDs d))" "?c \<le> cookie"
      using on_page_or_later [OF inv as _ refl, of c k] ge a(2) by blast
    then show ?thesis
    proof cases
      case 1
      with e show ?thesis by simp
    next
      case 2
      then have "ps \<noteq> []" using l by auto
      with rest 2(2) l ex have "(cookie + 1, x, op) \<in> set rest" by simp
      then show ?thesis by simp
    qed
  qed
  have "sorted_wrt (<) (map fst (?es @ rest))"
    using sorted_es r(2,3) last(1) by (auto simp: sorted_wrt_append intro: order.strict_trans1)
  moreover have "\<forall>e \<in> set (?es @ rest). c < fst e"
    using gt_es r(3) last(2) by (auto intro: order.strict_trans1)
  moreover have "read_pages c ((d, k) # ps) = Returns (?es @ rest)" using rd r(1) by simp
  ultimately show ?case using complete by blast
qed

end
