(* ===== verification/Service_Refinement.thy ===== *)
theory Service_Refinement
  imports Service_Steps
begin

text \<open>
  The Bazel Output Service refines a list of output paths, none of its requests dereferences a
  nil pointer, listings read in pages are complete, and starting and cleaning do what they say.
\<close>

section \<open>Refinement\<close>

text \<open>
  A concrete transition system is simulated by an abstract one; every run of it then has a
  matching abstract run.
\<close>

locale forward_simulation =
  fixes cinit :: "'c \<Rightarrow> bool" and cstep :: "'c \<Rightarrow> 'c \<Rightarrow> bool"
    and ainit :: "'a \<Rightarrow> bool" and astep :: "'a \<Rightarrow> 'a \<Rightarrow> bool"
    and represents :: "'c \<Rightarrow> 'a \<Rightarrow> bool"
  assumes init_law: "cinit c \<Longrightarrow> \<exists>a. ainit a \<and> represents c a"
    and step_law: "cstep c c' \<Longrightarrow> represents c a \<Longrightarrow> \<exists>a'. astep a a' \<and> represents c' a'"
begin

lemma simulated_from: "cstep\<^sup>*\<^sup>* c c' \<Longrightarrow> represents c a \<Longrightarrow> \<exists>a'. astep\<^sup>*\<^sup>* a a' \<and> represents c' a'"
proof (induction rule: rtranclp_induct)
  case base
  then show ?case by blast
next
  case (step c' c'')
  then show ?case using step_law by (meson rtranclp.rtrancl_into_rtrancl)
qed

lemma simulated: "cinit c \<Longrightarrow> cstep\<^sup>*\<^sup>* c c' \<Longrightarrow> \<exists>a a'. ainit a \<and> astep\<^sup>*\<^sup>* a a' \<and> represents c' a'"
  using init_law simulated_from by blast

end

text \<open>Steps of the service, counted so that the change ID does not wrap.\<close>

definition counted_step ::
    "('s, 'op, 'dd, 'cf, 'df) service_ops \<Rightarrow> nat \<times> ('s, 'op, 'cf, 'df, 'sw) service \<Rightarrow> nat \<times> ('s, 'op, 'cf, 'df, 'sw) service \<Rightarrow> bool" where
  "counted_step so c c' \<longleftrightarrow> fst c' = Suc (fst c) \<and> Suc (fst c) < 2 ^ 64 \<and> service_step so (snd c) (snd c')"

definition initial_service :: "nat \<times> ('s, 'op, 'cf, 'df, 'sw) service \<Rightarrow> bool" where
  "initial_service c \<longleftrightarrow> fst c = 0 \<and> (\<exists>w. snd c = \<lparr>sv_dir = NewBazelOutputServiceDirectory, sv_world = w,
     sv_found = [], sv_emptied = [], sv_absent = []\<rparr>)"

definition abs_empty :: abs_service where
  "abs_empty = \<lparr>ab_changeID = 0, ab_paths = []\<rparr>"

definition represents_list :: "nat \<times> ('s, 'op, 'cf, 'df, 'sw) service \<Rightarrow> abs_service \<Rightarrow> bool" where
  "represents_list c A \<longleftrightarrow> (\<exists>as. service_inv (fst c) (snd c) as \<and> A = abs_of (sv_dir (snd c)) as)"

interpretation bos: forward_simulation initial_service "counted_step so" "\<lambda>A. A = abs_empty" abs_step represents_list for so
proof unfold_locales
  fix c
  assume "initial_service c"
  then obtain w where "c = (0, \<lparr>sv_dir = NewBazelOutputServiceDirectory, sv_world = w, sv_found = [], sv_emptied = [], sv_absent = []\<rparr>)"
    by (cases c) (auto simp: initial_service_def)
  then show "\<exists>A. A = abs_empty \<and> represents_list c A"
    by (auto simp: represents_list_def service_inv_def bos_inv_New changeID_New abs_of_def abs_empty_def intro!: exI [of _ "[]"])
next
  fix c c' A
  assume "counted_step so c c'" "represents_list c A"
  then show "\<exists>A'. abs_step A A' \<and> represents_list c' A'"
    using service_step_simulation [of so "snd c" "snd c'" "fst c"]
    by (auto simp: counted_step_def represents_list_def) metis
qed

lemma reachable_counted:
  "reachable so n S \<Longrightarrow> \<exists>c. initial_service c \<and> (counted_step so)\<^sup>*\<^sup>* c (n, S)"
proof (induction rule: reachable.induct)
  case (initially w)
  then show ?case
    by (intro exI [of _ "(0, \<lparr>sv_dir = NewBazelOutputServiceDirectory, sv_world = w, sv_found = [], sv_emptied = [], sv_absent = []\<rparr>)"])
      (simp add: initial_service_def)
next
  case (step n S S')
  then have "counted_step so (n, S) (Suc n, S')" by (simp add: counted_step_def)
  with step show ?case by (meson rtranclp.rtrancl_into_rtrancl)
qed

lemma reachable_represents:
  assumes "reachable so n S"
  shows "\<exists>A as. abs_step\<^sup>*\<^sup>* abs_empty A \<and> service_inv n S as \<and> A = abs_of (sv_dir S) as"
proof -
  obtain c where "initial_service c" "(counted_step so)\<^sup>*\<^sup>* c (n, S)" using reachable_counted [OF assms] by blast
  from bos.simulated [OF this] show ?thesis by (auto simp: represents_list_def)
qed

text \<open>What clients can observe is what the abstract list says.\<close>

lemma ab_paths_ids: "ap_outputBaseID ` set (ab_paths (abs_of d as)) = (\<lambda>a. ops_outputBaseID (heap d a)) ` set as"
  by (simp add: abs_of_def abs_path_of_def image_image)

lemma lookup_abs:
  assumes "bos_inv d as"
  shows "bos_VirtualLookup x d = Inl StatusErrNoEnt \<longleftrightarrow> x \<notin> ap_outputBaseID ` set (ab_paths (abs_of d as))"
proof (cases "outputBaseIDs d x")
  case None
  have "ops_outputBaseID (heap d a) \<noteq> x" if "a \<in> set as" for a
    using bos_inv_outputBaseIDs [OF assms, of x a] None that by simp
  with None show ?thesis by (auto simp: ab_paths_ids bos_VirtualLookup_def)
next
  case (Some a)
  then have "a \<in> set as" "ops_outputBaseID (heap d a) = x" using bos_inv_outputBaseIDs [OF assms, of x a] by simp_all
  then have "x \<in> (\<lambda>a. ops_outputBaseID (heap d a)) ` set as" by (rule image_eqI [rotated, OF _ sym])
  with Some show ?thesis by (simp add: ab_paths_ids bos_VirtualLookup_def)
qed

lemma build_abs:
  assumes "bos_inv d as"
  shows "(\<exists>r. getOutputPathAndBuildState b d = Inr r) \<longleftrightarrow> Some b \<in> ap_build ` set (ab_paths (abs_of d as))"
  by (auto simp: abs_build_mem [OF assms] getOutputPathAndBuildState_def split: option.splits)

lemma readdir_abs:
  assumes "bos_inv d as"
  shows "\<exists>room es. bos_VirtualReadDir c bounded_reporter d (k, []) = Returns (StatusOK, room, es) \<and>
    map (\<lambda>(c, n, ch). (c, n)) es =
      take k (map (\<lambda>p. (ap_cookie p + 1, ap_outputBaseID p)) (filter (\<lambda>p. c \<le> ap_cookie p) (ab_paths (abs_of d as))))"
  by (simp add: VirtualReadDir_entries [OF assms] report_all_bounded take_map abs_of_def filter_map o_def
      entry_of_def abs_path_of_def)

section \<open>No nil pointers\<close>

lemma bos_inv_objects:
  "bos_inv d as \<Longrightarrow> 0 < a \<Longrightarrow> a < allocated d \<Longrightarrow>
   \<exists>op cf. ops_rootDirectory (heap d a) = Some op \<and> ops_casFileFactory (heap d a) = Some cf"
  by (simp add: bos_inv_def)

lemma buildIDs_complete:
  assumes inv: "bos_inv d as" and b: "buildIDs d b = Some a"
  shows "\<exists>bs op cf. ops_buildState (heap d a) = Some bs \<and> bs_id bs = b \<and>
    ops_rootDirectory (heap d a) = Some op \<and> ops_casFileFactory (heap d a) = Some cf"
  using bos_inv_buildIDs [OF inv, of b a] b bos_inv_allocated [OF inv, of a] bos_inv_objects [OF inv, of a] by auto

lemma bos_Clean_returns:
  assumes inv: "bos_inv d as"
  shows "\<exists>r. bos_Clean so x d s = Returns r"
proof (cases "outputBaseIDs d x")
  case None
  then show ?thesis by (simp add: bos_Clean_def split: prod.split)
next
  case (Some a)
  then obtain op where "ops_rootDirectory (heap d a) = Some op"
    using bos_inv_outputBaseIDs [OF inv, of x a] bos_inv_allocated [OF inv, of a] bos_inv_objects [OF inv, of a] by auto
  with Some show ?thesis by (simp add: bos_Clean_def split: prod.split option.split)
qed

lemma never_panics:
  assumes "reachable so n S"
    and "\<forall>op df w. \<exists>r. so_FinalizeBuild so op df w = Returns r" "\<forall>x cf df w. \<exists>r. so_StartInitialBuild so x cf df w = Returns r"
  shows "(\<exists>r. bos_FinalizeBuild so b (sv_dir S) w = Returns r) \<and>
    (\<exists>r. bos_Clean so x (sv_dir S) w = Returns r) \<and>
    (\<exists>r. startBuild_locked so b x df sw (sv_dir S) w = Returns r) \<and>
    (\<exists>r. bos_VirtualReadDir c report (sv_dir S) p = Returns r) \<and>
    (\<forall>(x, a) \<in> set (sv_found S). ops_rootDirectory (heap (sv_dir S) a) \<noteq> None) \<and>
    (\<forall>a mbs. getOutputPathAndBuildState b (sv_dir S) = Inr (a, mbs) \<longrightarrow>
       (\<exists>bs op cf. mbs = Some bs \<and> bs_id bs = b \<and> ops_rootDirectory (heap (sv_dir S) a) = Some op \<and>
          ops_casFileFactory (heap (sv_dir S) a) = Some cf))"
proof -
  obtain as where si: "service_inv n S as" using reachable_inv [OF assms(1)] by blast
  then have inv: "bos_inv (sv_dir S) as" by (simp add: service_inv_def)
  have "\<exists>r. bos_FinalizeBuild so b (sv_dir S) w = Returns r"
  proof (cases "buildIDs (sv_dir S) b")
    case (Some a)
    with buildIDs_complete [OF inv Some] assms(2) show ?thesis by (auto simp: bos_FinalizeBuild_def)
  qed (simp add: bos_FinalizeBuild_def)
  moreover have "\<exists>r. startBuild_locked so b x df sw (sv_dir S) w = Returns r"
  proof -
    obtain cf w1 where cf: "so_NewCASFileFactory so w = (cf, w1)" by fastforce
    obtain r where "so_StartInitialBuild so x cf df w1 = Returns r" using assms(3) by blast
    with cf show ?thesis
      by (cases r) (auto simp: startBuild_locked_def Let_def split: option.split prod.split)
  qed
  moreover have "\<forall>(x, a) \<in> set (sv_found S). ops_rootDirectory (heap (sv_dir S) a) \<noteq> None"
  proof (intro ballI, simp only: split_beta)
    fix xa assume "xa \<in> set (sv_found S)"
    then have "0 < snd xa \<and> snd xa < allocated (sv_dir S)" using si by (simp add: service_inv_def split_beta)
    then show "ops_rootDirectory (heap (sv_dir S) (snd xa)) \<noteq> None" using bos_inv_objects [OF inv, of "snd xa"] by auto
  qed
  moreover have "\<forall>a mbs. getOutputPathAndBuildState b (sv_dir S) = Inr (a, mbs) \<longrightarrow>
      (\<exists>bs op cf. mbs = Some bs \<and> bs_id bs = b \<and> ops_rootDirectory (heap (sv_dir S) a) = Some op \<and>
          ops_casFileFactory (heap (sv_dir S) a) = Some cf)"
    using buildIDs_complete [OF inv, of b] by (auto simp: getOutputPathAndBuildState_def split: option.splits)
  moreover have "\<exists>r. bos_VirtualReadDir c report (sv_dir S) p = Returns r" by (simp add: VirtualReadDir_entries [OF inv])
  moreover have "\<exists>r. bos_Clean so x (sv_dir S) w = Returns r" by (rule bos_Clean_returns [OF inv])
  ultimately show ?thesis by (intro conjI)
qed

section \<open>Starting and cleaning\<close>

lemma clean_outcome:
  assumes inv: "bos_inv d as" and c: "changeID d + 1 \<noteq> 0" and clean: "bos_Clean so x d s = Returns (None, d', s')"
  shows "bos_VirtualLookup x d' = Inl StatusErrNoEnt \<and>
    (\<forall>b a mbs. getOutputPathAndBuildState b d' = Inr (a, mbs) \<longrightarrow> ops_outputBaseID (heap d' a) \<noteq> x \<and> buildIDs d b = Some a) \<and>
    (\<forall>y. y \<noteq> x \<longrightarrow> outputBaseIDs d' y = outputBaseIDs d y)"
proof (cases "outputBaseIDs d x")
  case None
  with clean have d': "d' = d" by (auto simp: bos_Clean_def split: if_splits prod.splits)
  have "ops_outputBaseID (heap d a) \<noteq> x" if "buildIDs d b = Some a" for b a
    using that None bos_inv_buildIDs [OF inv, of b a] bos_inv_outputBaseIDs [OF inv, of x a] by auto
  with None d' show ?thesis
    by (auto simp: bos_VirtualLookup_def getOutputPathAndBuildState_def split: option.splits)
next
  case (Some a)
  with clean have d': "d' = clean_commit x a d"
    by (auto simp: bos_Clean_def split: if_splits prod.splits option.splits)
  have inv': "bos_inv d' (removeAll a as)" using bos_inv_clean_commit [OF inv c, of x a] Some d' by simp
  have a: "a \<in> set as" "ops_outputBaseID (heap d a) = x" using Some bos_inv_outputBaseIDs [OF inv] by auto
  have cc: "d' = unlisted x a (detach_build a d)"
    using clean_commit_unlisted [OF Some] circular_previous_neq [of "heap d" as a] inv a(1) d' by (simp add: bos_inv_def)
  have gone: "outputBaseIDs d' x = None" by (simp add: cc unlisted_def)
  have "ops_outputBaseID (heap d' e) \<noteq> x \<and> buildIDs d b = Some e" if "buildIDs d' b = Some e" for b e
  proof -
    have e: "e \<in> set (removeAll a as)" using bos_inv_buildIDs [OF inv', of b e] that by blast
    then have "ops_outputBaseID (heap d' e) \<noteq> x" using gone bos_inv_outputBaseIDs [OF inv', of x e] by auto
    moreover have "buildIDs d b = Some e"
      using that by (auto simp: cc unlisted_def detach_build_def split: option.splits if_splits)
    ultimately show ?thesis ..
  qed
  moreover have "\<forall>y. y \<noteq> x \<longrightarrow> outputBaseIDs d' y = outputBaseIDs d y" by (simp add: cc unlisted_def)
  ultimately show ?thesis
    using gone by (auto simp: bos_VirtualLookup_def getOutputPathAndBuildState_def split: option.splits)
qed

text \<open>What is left of an output path that is not cleaned: everything but its place in the list.\<close>

lemma clean_keeps_others:
  assumes inv: "bos_inv d as" and clean: "bos_Clean so x d s = Returns (None, d', s')"
    and y: "y \<noteq> x" "outputBaseIDs d y = Some e"
  shows "outputBaseIDs d' y = Some e \<and> ops_rootDirectory (heap d' e) = ops_rootDirectory (heap d e) \<and>
    ops_casFileFactory (heap d' e) = ops_casFileFactory (heap d e) \<and> ops_cookie (heap d' e) = ops_cookie (heap d e) \<and>
    ops_outputBaseID (heap d' e) = y \<and> ops_buildState (heap d' e) = ops_buildState (heap d e)"
proof (cases "outputBaseIDs d x")
  case None
  with clean have "d' = d" by (auto simp: bos_Clean_def split: if_splits prod.splits)
  with y bos_inv_outputBaseIDs [OF inv, of y e] show ?thesis by simp
next
  case (Some a)
  with clean have d': "d' = clean_commit x a d" by (auto simp: bos_Clean_def split: if_splits prod.splits option.splits)
  have a: "a \<in> set as" "ops_outputBaseID (heap d a) = x" using Some bos_inv_outputBaseIDs [OF inv] by auto
  have e: "e \<noteq> a" "ops_outputBaseID (heap d e) = y" using y a bos_inv_outputBaseIDs [OF inv, of y e] by auto
  have "d' = unlisted x a (detach_build a d)"
    using clean_commit_unlisted [OF Some] circular_previous_neq [of "heap d" as a] inv a(1) d' by (simp add: bos_inv_def)
  with y e show ?thesis
    by (auto simp: unlisted_def detach_build_def set_next_def set_previous_def set_buildState_def split: option.splits)
qed

lemma clean_keeps_builds:
  assumes inv: "bos_inv d as" and clean: "bos_Clean so x d s = Returns (None, d', s')"
    and b: "\<And>a. buildIDs d b = Some a \<Longrightarrow> ops_outputBaseID (heap d a) \<noteq> x"
  shows "getOutputPathAndBuildState b d' = getOutputPathAndBuildState b d"
proof (cases "outputBaseIDs d x")
  case None
  with clean have "d' = d" by (auto simp: bos_Clean_def split: if_splits prod.splits)
  then show ?thesis by simp
next
  case (Some a)
  with clean have d': "d' = clean_commit x a d" by (auto simp: bos_Clean_def split: if_splits prod.splits option.splits)
  have a: "a \<in> set as" "ops_outputBaseID (heap d a) = x" using Some bos_inv_outputBaseIDs [OF inv] by auto
  have cc: "d' = unlisted x a (detach_build a d)"
    using clean_commit_unlisted [OF Some] circular_previous_neq [of "heap d" as a] inv a(1) d' by (simp add: bos_inv_def)
  have "bs_id bs \<noteq> b" if "ops_buildState (heap d a) = Some bs" for bs
    using that b a bos_inv_buildIDs [OF inv, of b a] by auto
  then have same: "buildIDs d' b = buildIDs d b"
    by (auto simp: cc unlisted_def detach_build_def split: option.splits)
  show ?thesis
  proof (cases "buildIDs d b")
    case None
    with same show ?thesis by (simp add: getOutputPathAndBuildState_def)
  next
    case e: (Some e)
    have "outputBaseIDs d (ops_outputBaseID (heap d e)) = Some e"
      using e bos_inv_buildIDs [OF inv, of b e] bos_inv_outputBaseIDs [OF inv, of "ops_outputBaseID (heap d e)" e] by blast
    from clean_keeps_others [OF inv clean b [OF e] this] e same show ?thesis
      by (simp add: getOutputPathAndBuildState_def)
  qed
qed

lemma start_outcome:
  assumes inv: "bos_inv d as" and c: "changeID d + 1 \<noteq> 0"
    and start: "startBuild_locked so b x df sw d s = Returns (a, log, d', s')"
  shows "getOutputPathAndBuildState b d' = Inr (a, ops_buildState (heap d' a)) \<and>
    (if buildIDs d b = None
     then outputBaseIDs d' x = Some a \<and>
       ops_buildState (heap d' a) = Some \<lparr>bs_id = b, bs_digestFunction = df, bs_scopeWalkerFactory = sw\<rparr> \<and>
       (\<forall>b'. b' \<noteq> b \<longrightarrow> buildIDs d' b' \<noteq> Some a)
     else d' = d \<and> s' = s \<and> buildIDs d b = Some a)"
proof -
  obtain as' bs where s: "bos_inv d' as'" "a \<in> set as'" "ops_buildState (heap d' a) = Some bs" "bs_id bs = b"
    using sim_start [OF inv c start] by blast
  then have b: "buildIDs d' b = Some a" using bos_inv_buildIDs [OF s(1), of b a] by blast
  have one: "buildIDs d' b' \<noteq> Some a" if "b' \<noteq> b" for b'
    using that bos_inv_buildIDs [OF s(1), of b' a] s(3,4) by auto
  have fresh: "outputBaseIDs d' x = Some a \<and>
      ops_buildState (heap d' a) = Some \<lparr>bs_id = b, bs_digestFunction = df, bs_scopeWalkerFactory = sw\<rparr>"
    if nb: "buildIDs d b = None"
  proof (cases "outputBaseIDs d x")
    case (Some a')
    with nb start show ?thesis by (auto simp: startBuild_locked_def)
  next
    case None
    obtain cf s1 where cf: "so_NewCASFileFactory so s = (cf, s1)" by fastforce
    obtain op log0 s2 where op: "so_StartInitialBuild so x cf df s1 = Returns (op, log0, s2)"
      using start nb None cf by (auto simp: startBuild_locked_def)
    obtain a1 d1 where d1: "insert_output_path x op cf d = (a1, d1)" by fastforce
    have "0 < allocated d" using inv by (simp add: bos_inv_def)
    from insert_output_path_sel(3) [OF d1 this] show ?thesis
      using start nb None cf op d1 by (auto simp: startBuild_locked_def)
  qed
  show ?thesis
  proof (cases "buildIDs d b")
    case None
    with b one fresh show ?thesis by (simp add: getOutputPathAndBuildState_def)
  next
    case (Some a')
    with b start show ?thesis by (auto simp: getOutputPathAndBuildState_def startBuild_locked_def)
  qed
qed

section \<open>Properties\<close>

text \<open>An output path that numbers its builds, for concrete runs.\<close>

definition demo_so :: "(nat, nat, nat, unit, unit) service_ops" where
  "demo_so = \<lparr>so_StartInitialBuild = (\<lambda>x cf df w. Returns (w, [], w + 1)), so_Clean = (\<lambda>x w. (None, w)),
     so_directory = (\<lambda>op. op), so_FinalizeBuild = (\<lambda>op df w. Returns ([], w)),
     so_RemoveAllChildren = (\<lambda>op forbid w. (None, w)), so_NewCASFileFactory = (\<lambda>w. ((), w)),
     so_NotifyRemoval = (\<lambda>x w. w), so_NewComponent = (\<lambda>x. x \<noteq> '''')\<rparr>"

definition demo_bs :: "string \<Rightarrow> (unit, unit) buildState" where
  "demo_bs b = \<lparr>bs_id = b, bs_digestFunction = (), bs_scopeWalkerFactory = ()\<rparr>"

definition demo_service_dir :: "(nat, unit, unit, unit) BazelOutputServiceDirectory" where
  "demo_service_dir = attach_build 1 (demo_bs ''b'') (snd (insert_output_path ''x'' 0 () NewBazelOutputServiceDirectory))"

definition demo_service :: "(nat, nat, unit, unit, unit) service" where
  "demo_service = \<lparr>sv_dir = demo_service_dir, sv_world = 1, sv_found = [], sv_emptied = [], sv_absent = []\<rparr>"

lemma demo_start:
  "startBuild_locked demo_so ''b'' ''x'' () () NewBazelOutputServiceDirectory 0 = Returns (1, [], demo_service_dir, 1)"
  by (simp add: startBuild_locked_def NewBazelOutputServiceDirectory_def demo_so_def demo_service_dir_def demo_bs_def
      insert_output_path_def Let_def)

lemma demo_reachable: "reachable demo_so 1 demo_service"
proof -
  have "reachable demo_so 0 \<lparr>sv_dir = NewBazelOutputServiceDirectory :: (nat, unit, unit, unit) BazelOutputServiceDirectory, sv_world = 0,
      sv_found = [], sv_emptied = [], sv_absent = []\<rparr>" by (rule initially)
  moreover have "service_step demo_so \<lparr>sv_dir = NewBazelOutputServiceDirectory, sv_world = 0,
      sv_found = [], sv_emptied = [], sv_absent = []\<rparr> demo_service"
    using Starts [of demo_so "''x''" "''b''" "()" "()" "\<lparr>sv_dir = NewBazelOutputServiceDirectory, sv_world = 0,
      sv_found = [], sv_emptied = [], sv_absent = []\<rparr>" 1 "[]" demo_service_dir 1] demo_start
    by (simp add: demo_service_def) (simp add: demo_so_def)
  ultimately show ?thesis using step by fastforce
qed

text \<open>
  C4. The state of the service is well formed in every reachable state, whatever the order in
  which the locked sections of concurrent requests ran: the circular list holds the output paths
  of \<^verbatim>\<open>outputBaseIDs\<close> in the order of creation, \<^verbatim>\<open>buildIDs\<close> holds exactly the
  builds that listed output paths refer to, cookies are distinct and below the change ID; and
  every request to clean that is under way refers to an object that exists, with the ID it was
  looked up under.
\<close>

theorem service_invariant:
  assumes "reachable so n S"
  shows "\<exists>as. bos_inv (sv_dir S) as \<and> unat (changeID (sv_dir S)) \<le> n \<and>
    (\<forall>(x, a) \<in> set (sv_found S) \<union> set (sv_emptied S).
       0 < a \<and> a < allocated (sv_dir S) \<and> ops_outputBaseID (heap (sv_dir S) a) = x)"
  using reachable_inv [OF assms] by (simp only: service_inv_def)

theorem service_invariant_witness:
  "reachable demo_so 1 demo_service \<and> (\<exists>as. bos_inv (sv_dir demo_service) as \<and> unat (changeID (sv_dir demo_service)) \<le> 1)"
  using service_invariant [OF demo_reachable] demo_reachable by blast

text \<open>
  C3. The service refines a list of output paths: every reachable state stands for a list that
  the same number of abstract steps (start a build, finalize a build, clean the output path with
  a given cookie, or nothing) reaches from the empty one, and what clients observe is what the
  list says: a name can be looked up when it is in the list, a build is known when an output
  path of the list runs it, and a listing from any cookie on, cut off after any number of
  entries, returns the entries of the list in order.
\<close>

theorem service_refines_list:
  assumes "reachable so n S"
  shows "\<exists>A. abs_step\<^sup>*\<^sup>* abs_empty A \<and>
    (\<forall>x. bos_VirtualLookup x (sv_dir S) = Inl StatusErrNoEnt \<longleftrightarrow> x \<notin> ap_outputBaseID ` set (ab_paths A)) \<and>
    (\<forall>b. (\<exists>r. getOutputPathAndBuildState b (sv_dir S) = Inr r) \<longleftrightarrow> Some b \<in> ap_build ` set (ab_paths A)) \<and>
    (\<forall>c k. \<exists>room es. bos_VirtualReadDir c bounded_reporter (sv_dir S) (k, []) = Returns (StatusOK, room, es) \<and>
       map (\<lambda>(c, n, ch). (c, n)) es =
         take k (map (\<lambda>p. (ap_cookie p + 1, ap_outputBaseID p)) (filter (\<lambda>p. c \<le> ap_cookie p) (ab_paths A))))"
proof -
  obtain A as where "abs_step\<^sup>*\<^sup>* abs_empty A" and inv: "bos_inv (sv_dir S) as" and A: "A = abs_of (sv_dir S) as"
    using reachable_represents [OF assms] unfolding service_inv_def by (elim exE conjE)
  then show ?thesis
    unfolding A by (intro exI [of _ "abs_of (sv_dir S) as"] conjI allI lookup_abs build_abs readdir_abs)
qed

theorem service_refines_list_witness:
  "reachable demo_so 1 demo_service \<and> (\<exists>A. abs_step\<^sup>*\<^sup>* abs_empty A \<and>
     ''x'' \<in> ap_outputBaseID ` set (ab_paths A) \<and> Some ''b'' \<in> ap_build ` set (ab_paths A))"
proof -
  have "bos_VirtualLookup ''x'' (sv_dir demo_service) \<noteq> Inl StatusErrNoEnt"
    "getOutputPathAndBuildState ''b'' (sv_dir demo_service) = Inr (1, Some (demo_bs ''b''))"
    by (simp_all add: demo_service_def demo_service_dir_def bos_VirtualLookup_def getOutputPathAndBuildState_def
        insert_output_path_def NewBazelOutputServiceDirectory_def Let_def demo_bs_def)
  then show ?thesis using service_refines_list [OF demo_reachable] demo_reachable by blast
qed

text \<open>
  C5. No request dereferences a nil pointer, in any reachable state: when the calls the service
  makes to output paths return, so do finalizing a build, cleaning, starting a build and listing
  the output paths (whose loops end); an output path that a request to clean has found has a root
  directory; and a known build ID yields a build state with that ID and an output path with both
  its root directory and its file factory.
\<close>

theorem service_never_panics:
  assumes "reachable so n S"
    and "\<forall>op df w. \<exists>r. so_FinalizeBuild so op df w = Returns r" "\<forall>x cf df w. \<exists>r. so_StartInitialBuild so x cf df w = Returns r"
  shows "(\<exists>r. bos_FinalizeBuild so b (sv_dir S) w = Returns r) \<and>
    (\<exists>r. bos_Clean so x (sv_dir S) w = Returns r) \<and>
    (\<exists>r. startBuild_locked so b x df sw (sv_dir S) w = Returns r) \<and>
    (\<exists>r. bos_VirtualReadDir c report (sv_dir S) p = Returns r) \<and>
    (\<forall>(x, a) \<in> set (sv_found S). ops_rootDirectory (heap (sv_dir S) a) \<noteq> None) \<and>
    (\<forall>a mbs. getOutputPathAndBuildState b (sv_dir S) = Inr (a, mbs) \<longrightarrow>
       (\<exists>bs op cf. mbs = Some bs \<and> bs_id bs = b \<and> ops_rootDirectory (heap (sv_dir S) a) = Some op \<and>
          ops_casFileFactory (heap (sv_dir S) a) = Some cf))"
  by (rule never_panics [OF assms])

theorem service_never_panics_witness:
  "reachable demo_so 1 demo_service \<and> (\<exists>r. bos_FinalizeBuild demo_so ''b'' (sv_dir demo_service) 1 = Returns r) \<and>
   (\<exists>r. bos_Clean demo_so ''x'' (sv_dir demo_service) 1 = Returns r)"
proof -
  have "\<forall>op df w. \<exists>r. so_FinalizeBuild demo_so op df w = Returns r"
    "\<forall>x cf df w. \<exists>r. so_StartInitialBuild demo_so x cf df w = Returns r" by (simp_all add: demo_so_def)
  from service_never_panics [OF demo_reachable this, of "''b''" 1 "''x''" "()" "()" 0 "\<lambda>c n ch p. (True, p)" "()"]
  show ?thesis using demo_reachable by blast
qed

text \<open>
  C6. A listing read in pages is complete and free of duplicates, although output paths come and
  go between the pages: when a client reads page after page, each in some reachable state,
  continuing at the last cookie it was given, and the last page had room for everything, then
  every output path that was there on every page (the same one, not one cleaned and created
  again) is listed; the cookies it gets are strictly increasing, so that no entry is listed
  twice.
\<close>

theorem listing_is_stable:
  assumes "\<forall>(d, k) \<in> set ps. \<exists>n S. reachable so n S \<and> d = sv_dir S"
  shows "\<exists>es. read_pages 0 ps = Returns es \<and> sorted_wrt (<) (map fst es) \<and>
    (\<forall>x cookie op. ps \<noteq> [] \<longrightarrow> card (dom (outputBaseIDs (fst (last ps)))) \<le> snd (last ps) \<longrightarrow>
       (\<forall>(d, k) \<in> set ps. \<exists>a. outputBaseIDs d x = Some a \<and> ops_cookie (heap d a) = cookie \<and> ops_rootDirectory (heap d a) = op) \<longrightarrow>
       (cookie + 1, x, op) \<in> set es)"
proof -
  have "\<forall>(d, k) \<in> set ps. \<exists>as. bos_inv d as"
    using assms reachable_inv unfolding service_inv_def by fast
  from read_pages_complete [OF this, of 0] show ?thesis by (meson word_zero_le)
qed

theorem listing_is_stable_witness:
  "\<exists>es. read_pages 0 [(demo_service_dir, 0), (demo_service_dir, 1)] = Returns es \<and> (1, ''x'', Some 0) \<in> set es"
proof -
  let ?ps = "[(demo_service_dir, 0), (demo_service_dir, 1)]"
  have d: "outputBaseIDs demo_service_dir = [''x'' \<mapsto> 1]" "ops_cookie (heap demo_service_dir 1) = 0" "ops_rootDirectory (heap demo_service_dir 1) = Some 0"
    by (simp_all add: demo_service_dir_def insert_output_path_def NewBazelOutputServiceDirectory_def Let_def sentinel_def)
  have "\<forall>(d, k) \<in> set ?ps. \<exists>n S. reachable demo_so n S \<and> d = sv_dir S"
    using demo_reachable by (auto simp: demo_service_def intro!: exI [of _ demo_service] exI [of _ 1])
  from listing_is_stable [OF this] show ?thesis
    by - (elim exE conjE, intro exI conjI, assumption, erule allE [of _ "''x''"], erule allE [of _ 0],
        erule allE [of _ "Some 0"], simp add: d [unfolded One_nat_def] del: read_pages.simps)
qed

text \<open>
  C7. Cleaning removes an output path, and nothing else: when \<^verbatim>\<open>Clean\<close> succeeds and runs
  without interruption, the name can no longer be looked up and no known build runs in an output
  path of that name. Every build that ran elsewhere still runs there with the same build state,
  and every other output path keeps its record: the name still leads to it, with the same root
  directory, CAS file factory, cookie and build, so that a lookup gives what it gave before.
\<close>

theorem clean_removes_output_path:
  assumes "reachable so n S" "Suc n < 2 ^ 64" and "bos_Clean so x (sv_dir S) w = Returns (None, d', w')"
  shows "bos_VirtualLookup x d' = Inl StatusErrNoEnt \<and>
    (\<forall>b a mbs. getOutputPathAndBuildState b d' = Inr (a, mbs) \<longrightarrow> ops_outputBaseID (heap d' a) \<noteq> x \<and> buildIDs (sv_dir S) b = Some a) \<and>
    (\<forall>b. (\<forall>a. buildIDs (sv_dir S) b = Some a \<longrightarrow> ops_outputBaseID (heap (sv_dir S) a) \<noteq> x) \<longrightarrow>
       getOutputPathAndBuildState b d' = getOutputPathAndBuildState b (sv_dir S)) \<and>
    (\<forall>y. y \<noteq> x \<longrightarrow> outputBaseIDs d' y = outputBaseIDs (sv_dir S) y \<and>
       (\<forall>e. outputBaseIDs (sv_dir S) y = Some e \<longrightarrow>
          ops_rootDirectory (heap d' e) = ops_rootDirectory (heap (sv_dir S) e) \<and>
          ops_casFileFactory (heap d' e) = ops_casFileFactory (heap (sv_dir S) e) \<and>
          ops_cookie (heap d' e) = ops_cookie (heap (sv_dir S) e) \<and> ops_outputBaseID (heap d' e) = y \<and>
          ops_buildState (heap d' e) = ops_buildState (heap (sv_dir S) e)))"
proof -
  obtain as where as: "service_inv n S as" using reachable_inv [OF assms(1)] by blast
  then have inv: "bos_inv (sv_dir S) as" and c: "changeID (sv_dir S) + 1 \<noteq> 0"
    using no_wrap [OF _ assms(2)] by (simp_all add: service_inv_def)
  from clean_outcome [OF inv c assms(3)] clean_keeps_others [OF inv assms(3)] clean_keeps_builds [OF inv assms(3)]
  show ?thesis by simp
qed

theorem clean_removes_output_path_witness:
  "\<exists>d'. bos_Clean demo_so ''x'' demo_service_dir 1 = Returns (None, d', 1) \<and> bos_VirtualLookup ''x'' d' = Inl StatusErrNoEnt"
proof -
  have "bos_Clean demo_so ''x'' (sv_dir demo_service) 1 = Returns (None, clean_commit ''x'' 1 demo_service_dir, 1)"
    by (simp add: bos_Clean_def demo_so_def demo_service_def demo_service_dir_def insert_output_path_def Let_def
        NewBazelOutputServiceDirectory_def)
  moreover from this have "bos_VirtualLookup ''x'' (clean_commit ''x'' 1 demo_service_dir) = Inl StatusErrNoEnt"
    using clean_removes_output_path [OF demo_reachable, THEN conjunct1] by simp
  ultimately show ?thesis by (simp add: demo_service_def)
qed

text \<open>
  C8. Starting a build registers it: afterwards the build ID leads to the output path that
  \<^verbatim>\<open>StartBuild\<close> goes on with. A build ID that was not running is attached to the output
  path of the given output base, with the digest function and scope walker factory of the
  request, and no other build ID leads there any more (a build that was not finalized is ended).
  A build ID that is already running changes nothing, whatever output base the request names.
\<close>

theorem start_registers_build:
  assumes "reachable so n S" "Suc n < 2 ^ 64" and "startBuild_locked so b x df sw (sv_dir S) w = Returns (a, log, d', w')"
  shows "getOutputPathAndBuildState b d' = Inr (a, ops_buildState (heap d' a)) \<and>
    (if buildIDs (sv_dir S) b = None
     then outputBaseIDs d' x = Some a \<and>
       ops_buildState (heap d' a) = Some \<lparr>bs_id = b, bs_digestFunction = df, bs_scopeWalkerFactory = sw\<rparr> \<and>
       (\<forall>b'. b' \<noteq> b \<longrightarrow> buildIDs d' b' \<noteq> Some a)
     else d' = sv_dir S \<and> w' = w \<and> buildIDs (sv_dir S) b = Some a)"
proof -
  obtain as where as: "service_inv n S as" using reachable_inv [OF assms(1)] by blast
  then have inv: "bos_inv (sv_dir S) as" and c: "changeID (sv_dir S) + 1 \<noteq> 0"
    using no_wrap [OF _ assms(2)] by (simp_all add: service_inv_def)
  show ?thesis by (rule start_outcome [OF inv c assms(3)])
qed

theorem start_registers_build_witness:
  "\<exists>d'. startBuild_locked demo_so ''c'' ''x'' () () demo_service_dir 1 = Returns (1, [], d', 1) \<and>
     outputBaseIDs d' ''x'' = Some 1 \<and> buildIDs d' ''b'' \<noteq> Some 1"
proof -
  have d: "outputBaseIDs demo_service_dir = [''x'' \<mapsto> 1]" "buildIDs demo_service_dir = [''b'' \<mapsto> 1]"
    by (simp_all add: demo_service_dir_def insert_output_path_def NewBazelOutputServiceDirectory_def Let_def demo_bs_def)
  then have s: "startBuild_locked demo_so ''c'' ''x'' () () (sv_dir demo_service) 1 =
      Returns (1, [], attach_build 1 (demo_bs ''c'') (detach_build 1 demo_service_dir), 1)"
    by (simp add: startBuild_locked_def demo_service_def demo_bs_def)
  let ?d = "attach_build 1 (demo_bs ''c'') (detach_build 1 demo_service_dir)"
  have "\<forall>b'. b' \<noteq> ''c'' \<longrightarrow> buildIDs ?d b' \<noteq> Some 1"
    using start_registers_build [OF demo_reachable _ s] d by (auto simp: demo_service_def demo_bs_def)
  with s d show ?thesis by (simp add: demo_service_def)
qed

end
