(* ===== verification/Service_Chain.thy ===== *)
theory Service_Chain
  imports Output_Chain Service_Refinement
begin

text \<open>
  The Bazel Output Service on top of the output paths that \<^verbatim>\<open>main\<close> gives it: what a client of
  the service sees of cleaning and of restarts.
\<close>

section \<open>The service's calls\<close>

text \<open>
  The calls of the service on the chain of factories. The files and directories a restored output
  path is made of depend on the file factory and the digest function it is started with, which
  is what \<open>restorer\<close> stands for.
\<close>

definition main_service_ops ::
    "('v, 'l) upload_ops \<Rightarrow> ('v, 'dd, 'l, 'dg, 'd, 'r, 'w) persistentOutputPathFactory \<Rightarrow>
     ('cf \<Rightarrow> 'df \<Rightarrow> ('dg, 'l) stateRestorer) \<Rightarrow> ('v \<times> 'd \<Rightarrow> 'cf \<times> 'v \<times> 'd) \<Rightarrow> (string \<Rightarrow> 'v \<times> 'd \<Rightarrow> 'v \<times> 'd) \<Rightarrow>
     (string \<Rightarrow> bool) \<Rightarrow> ('v \<times> 'd, 'dd localFileUploadingOutputPath persistentOutputPath, 'dd, 'cf, 'df) service_ops" where
  "main_service_ops up pf restorer newCASFileFactory notifyRemoval newComponent = \<lparr>
     so_StartInitialBuild = (\<lambda>x cf df. StartInitialBuild (main_outputPathFactory up (pf\<lparr>pf_restorer := restorer cf df\<rparr>)) x),
     so_Clean = opf_Clean (main_outputPathFactory up pf),
     so_directory = op_directory (main_outputPathFactory up pf),
     so_FinalizeBuild = (\<lambda>op df. FinalizeBuild (main_outputPathFactory up pf) op),
     so_RemoveAllChildren = RemoveAllChildren (main_outputPathFactory up pf),
     so_NewCASFileFactory = newCASFileFactory,
     so_NotifyRemoval = notifyRemoval,
     so_NewComponent = newComponent\<rparr>"

section \<open>Output paths belong to their output bases\<close>

definition roots_belong ::
    "('op \<Rightarrow> string \<Rightarrow> bool) \<Rightarrow> ('op, 'cf, 'df, 'sw) BazelOutputServiceDirectory \<Rightarrow> bool" where
  "roots_belong belongs d \<longleftrightarrow>
     (\<forall>a op. 0 < a \<longrightarrow> a < allocated d \<longrightarrow> ops_rootDirectory (heap d a) = Some op \<longrightarrow> belongs op (ops_outputBaseID (heap d a)))"

definition starts_belong :: "('s, 'op, 'dd, 'cf, 'df) service_ops \<Rightarrow> ('op \<Rightarrow> string \<Rightarrow> bool) \<Rightarrow> bool" where
  "starts_belong so belongs \<longleftrightarrow>
     (\<forall>x cf df s op log s'. so_StartInitialBuild so x cf df s = Returns (op, log, s') \<longrightarrow> belongs op x)"

lemma clean_commit_fixed [simp]:
  "allocated (clean_commit x a d) = allocated d"
  "ops_rootDirectory (heap (clean_commit x a d) b) = ops_rootDirectory (heap d b)"
  "ops_outputBaseID (heap (clean_commit x a d) b) = ops_outputBaseID (heap d b)"
  by (simp_all add: clean_commit_def Let_def)

lemma finalize_fixed:
  assumes "bos_FinalizeBuild so b d s = Returns (log, d', s')"
  shows "allocated d' = allocated d" "ops_rootDirectory (heap d' a) = ops_rootDirectory (heap d a)"
    "ops_outputBaseID (heap d' a) = ops_outputBaseID (heap d a)"
  using assms by (auto simp: bos_FinalizeBuild_def split: option.splits)

lemma start_belongs:
  assumes start: "startBuild_locked so b x df sw d s = Returns (a, log, d', s')" and pos: "0 < allocated d"
    and so: "starts_belong so belongs" and d: "roots_belong belongs d"
  shows "roots_belong belongs d'"
proof (cases "buildIDs d b = None \<and> outputBaseIDs d x = None")
  case False
  then show ?thesis
    using start d by (cases "buildIDs d b"; cases "outputBaseIDs d x") (auto simp: startBuild_locked_def roots_belong_def)
next
  case True
  obtain cf s1 where cf: "so_NewCASFileFactory so s = (cf, s1)" by fastforce
  obtain op log0 s2 where op: "so_StartInitialBuild so x cf df s1 = Returns (op, log0, s2)"
    using start True cf by (auto simp: startBuild_locked_def)
  obtain a1 d1 where d1: "insert_output_path x op cf d = (a1, d1)" by fastforce
  note sel = insert_output_path_sel [OF d1 pos]
  have "d' = attach_build a1 \<lparr>bs_id = b, bs_digestFunction = df, bs_scopeWalkerFactory = sw\<rparr> d1"
    using start True cf op d1 by (auto simp: startBuild_locked_def)
  moreover have "belongs op x" using so op unfolding starts_belong_def by blast
  ultimately show ?thesis using d by (auto simp: roots_belong_def sel less_Suc_eq)
qed

lemma reachable_roots_belong:
  assumes so: "starts_belong so belongs"
  shows "reachable so n S \<Longrightarrow> roots_belong belongs (sv_dir S)"
proof (induction rule: reachable.induct)
  case (initially w)
  show ?case by (simp add: roots_belong_def NewBazelOutputServiceDirectory_def)
next
  case (step n S S')
  obtain as where "service_inv n S as" using reachable_inv [OF step.hyps(1)] by blast
  then have pos: "0 < allocated (sv_dir S)" by (simp add: service_inv_def bos_inv_def)
  from step.hyps(2) show ?case
  proof cases
    case (Clean_commits x a)
    with step.IH show ?thesis by (simp add: roots_belong_def)
  next
    case (Starts x b df sw a log d w)
    with start_belongs [OF Starts(3) pos so step.IH] show ?thesis by simp
  next
    case (Finalizes b log d w)
    with step.IH show ?thesis by (simp add: roots_belong_def finalize_fixed [OF Finalizes(2)])
  qed (use step.IH in simp_all)
qed

lemma main_starts_belong:
  "starts_belong (main_service_ops up pf restorer newCF notify nc) (\<lambda>op x. pop_outputBaseID op = x)"
  by (auto simp: starts_belong_def main_service_ops_def main_outputPathFactory_def persistentOutputPathFactory_Factory_def
      dest!: persistent_StartInitialBuild_base)

section \<open>Cleaned output bases start empty\<close>

lemma main_ops_restorer:
  "opf_Clean (main_outputPathFactory up (pf\<lparr>pf_restorer := r\<rparr>)) = opf_Clean (main_outputPathFactory up pf)"
  "RemoveAllChildren (main_outputPathFactory up (pf\<lparr>pf_restorer := r\<rparr>)) = RemoveAllChildren (main_outputPathFactory up pf)"
  "op_directory (main_outputPathFactory up (pf\<lparr>pf_restorer := r\<rparr>)) = op_directory (main_outputPathFactory up pf)"
proof -
  have "pf_store (pf\<lparr>pf_restorer := r\<rparr>) = pf_store pf" "pf_ops (pf\<lparr>pf_restorer := r\<rparr>) = pf_ops pf" by simp_all
  note fields = main_outputPathFactory_def persistentOutputPathFactory_Factory_def persistent_Clean_def
    persistent_RemoveAllChildren_def OutputPathFactory.select_convs this
  show "opf_Clean (main_outputPathFactory up (pf\<lparr>pf_restorer := r\<rparr>)) = opf_Clean (main_outputPathFactory up pf)"
    unfolding fields by (rule refl)
  show "RemoveAllChildren (main_outputPathFactory up (pf\<lparr>pf_restorer := r\<rparr>)) = RemoveAllChildren (main_outputPathFactory up pf)"
    unfolding fields by (rule refl)
  show "op_directory (main_outputPathFactory up (pf\<lparr>pf_restorer := r\<rparr>)) = op_directory (main_outputPathFactory up pf)"
    unfolding fields by (rule refl)
qed

text \<open>
  When a call of \<^verbatim>\<open>Clean\<close> succeeded, no state is left to restore, whether the output base was
  in use (its output path was emptied for good) or not (only its state was cleaned).
\<close>

lemma main_clean_absent:
  assumes F: "output_path_factory (main_outputPathFactory up pf) present (\<lambda>op x. pop_outputBaseID op = x) empty_dir"
    and inv: "bos_inv d as" and roots: "roots_belong (\<lambda>op x. pop_outputBaseID op = x) d"
    and clean: "bos_Clean (main_service_ops up pf restorer newCF notify nc) x d s = Returns (None, d1, s1)"
    and notify: "\<And>n st. present (notify n st) = present st"
  shows "x \<notin> present s1"
proof (cases "outputBaseIDs d x")
  case None
  with clean have "opf_Clean (main_outputPathFactory up pf) x s = (None, s1)"
    by (auto simp: bos_Clean_def main_service_ops_def split: if_splits prod.splits)
  then show ?thesis by (rule output_path_factory.clean_law [OF F])
next
  case (Some a)
  then obtain op where op: "ops_rootDirectory (heap d a) = Some op"
    using clean by (cases "ops_rootDirectory (heap d a)") (auto simp: bos_Clean_def split: if_splits)
  have "a \<in> set as" "ops_outputBaseID (heap d a) = x" using bos_inv_outputBaseIDs [OF inv, of x a] Some by auto
  with roots op bos_inv_allocated [OF inv, of a] have base: "pop_outputBaseID op = x" by (auto simp: roots_belong_def)
  obtain s0 where "RemoveAllChildren (main_outputPathFactory up pf) op True s = (None, s0)" "s1 = notify x s0"
    using clean Some op by (auto simp: bos_Clean_def main_service_ops_def split: if_splits prod.splits option.splits)
  with output_path_factory.remove_law [OF F this(1) base] show ?thesis by (simp add: notify)
qed

text \<open>A build that starts on an output base that is not in use starts with what is restored.\<close>

lemma main_start_calls:
  assumes unused: "buildIDs d b = None" "outputBaseIDs d x = None" and d: "0 < allocated d"
    and start: "startBuild_locked (main_service_ops up pf restorer newCF notify nc) b x df sw d st = Returns (a, log, d', st1)"
  shows "\<exists>op. StartInitialBuild (main_outputPathFactory up (pf\<lparr>pf_restorer := restorer (fst (newCF st)) df\<rparr>)) x (snd (newCF st)) =
      Returns (op, log, st1) \<and> ops_rootDirectory (heap d' a) = Some op"
proof -
  let ?F = "main_outputPathFactory up (pf\<lparr>pf_restorer := restorer (fst (newCF st)) df\<rparr>)"
  obtain op log0 s2 where op: "StartInitialBuild ?F x (snd (newCF st)) = Returns (op, log0, s2)"
    using start unused by (auto simp: startBuild_locked_def main_service_ops_def split_beta)
  obtain a1 d1 where d1: "insert_output_path x op (fst (newCF st)) d = (a1, d1)" by fastforce
  have "a = a1" "st1 = s2" "log = log0" "ops_rootDirectory (heap d' a) = Some op"
    using start unused op d1 insert_output_path_sel [OF d1 d]
    by (auto simp: startBuild_locked_def main_service_ops_def split_beta)
  with op show ?thesis by simp
qed

lemma main_start_fresh:
  assumes F: "output_path_factory (main_outputPathFactory up (pf\<lparr>pf_restorer := restorer (fst (newCF st)) df\<rparr>)) present
      (\<lambda>op x. pop_outputBaseID op = x) empty_dir"
    and start: "buildIDs d b = None" "outputBaseIDs d x = None" "0 < allocated d"
      "startBuild_locked (main_service_ops up pf restorer newCF notify nc) b x df sw d st = Returns (a, log, d', st1)"
    and absent: "x \<notin> present (snd (newCF st))"
  shows "\<exists>op. ops_rootDirectory (heap d' a) = Some op \<and> empty_dir (op_directory (main_outputPathFactory up pf) op) st1"
proof -
  obtain op where op: "StartInitialBuild (main_outputPathFactory up (pf\<lparr>pf_restorer := restorer (fst (newCF st)) df\<rparr>)) x (snd (newCF st)) =
      Returns (op, log, st1)" "ops_rootDirectory (heap d' a) = Some op"
    using main_start_calls [OF start] by blast
  with output_path_factory.start_empty [OF F op(1) absent] show ?thesis by (simp add: main_ops_restorer)
qed

section \<open>Restarts\<close>

lemma saveOutputPath_cong:
  assumes "pf_store pf = S\<lparr>store_Read := rd\<rparr>" "pf_store pf' = S\<lparr>store_Read := rd'\<rparr>" "pf_applyAppend pf' = pf_applyAppend pf"
  shows "saveOutputPath pf tree x t s = saveOutputPath pf' tree x t s"
proof -
  have "writer_WriteDirectory (pf_store pf) = writer_WriteDirectory (pf_store pf')" "writer_Close (pf_store pf) = writer_Close (pf_store pf')"
    "writer_Finalize (pf_store pf) = writer_Finalize (pf_store pf')" "store_Write (pf_store pf) = store_Write (pf_store pf')"
    by (simp_all add: assms(1,2))
  then show ?thesis unfolding saveOutputPath_def assms(3) by presburger
qed

lemma main_saves_alike:
  assumes "pf_store pf = main_outputPathStore nc c dir m tm age now" "pf_store pf' = main_outputPathStore nc c dir m tm' age' now'"
    "pf_applyAppend pf' = pf_applyAppend pf"
  shows "saveOutputPath pf tree x t s = saveOutputPath pf' tree x t s"
  by (rule saveOutputPath_cong [OF trans [OF assms(1) main_store_update] trans [OF assms(2) main_store_update] assms(3)])

text \<open>A build that finalizes without a log entry was saved, as the tree that is there afterwards.\<close>

lemma main_silent_finalize:
  assumes "FinalizeBuild (main_outputPathFactory up pf) op st = Returns ([], st1)"
  shows "saveOutputPath pf (LookupAllChildren (pf_ops pf) (op_directory (main_outputPathFactory up pf) op) (fst st1))
    (pop_outputBaseID op) (pop_initialCreationTime op) (snd st) = Returns (None, snd st1)"
proof -
  let ?base = "localFileUploadingOutputPathFactory (inMemoryOutputPathFactory (pf_ops pf)) (LookupAllChildren (pf_ops pf)) up"
  have fin: "persistent_FinalizeBuild pf ?base op st = Returns ([], st1)"
    using assms by (simp add: main_outputPathFactory_def persistentOutputPathFactory_Factory_def)
  obtain log v where b: "FinalizeBuild ?base (pop_OutputPath op) (fst st) = Returns (log, v)"
    using fin by (auto simp: persistent_FinalizeBuild_def)
  obtain err d1 where s: "saveOutputPath pf (LookupAllChildren (pf_ops pf) (op_directory ?base (pop_OutputPath op)) v)
      (pop_outputBaseID op) (pop_initialCreationTime op) (snd st) = Returns (err, d1)"
    using fin b by (auto simp: persistent_FinalizeBuild_def)
  have "err = None" "st1 = (v, d1)" using fin b s by (auto simp: persistent_FinalizeBuild_def split: option.splits)
  moreover have "op_directory (main_outputPathFactory up pf) op = op_directory ?base (pop_OutputPath op)"
    by (simp add: main_outputPathFactory_def persistentOutputPathFactory_Factory_def)
  ultimately show ?thesis using s by simp
qed

lemma finalize_calls:
  assumes "bos_FinalizeBuild so b d st = Returns (log, d', st1)" "buildIDs d b = Some a" "ops_rootDirectory (heap d a) = Some op"
  shows "\<exists>df. so_FinalizeBuild so op df st = Returns (log, st1)"
  using assms by (auto simp: bos_FinalizeBuild_def split: option.splits)

lemma new_directory_unused:
  "buildIDs NewBazelOutputServiceDirectory b = None" "outputBaseIDs NewBazelOutputServiceDirectory x = None"
  "0 < allocated NewBazelOutputServiceDirectory"
  by (simp_all add: NewBazelOutputServiceDirectory_def)

section \<open>A concrete service\<close>

abbreviation chain_service where
  "chain_service pf \<equiv> main_service_ops chain_up pf (\<lambda>(u :: unit) (u' :: unit). pf_restorer chain_pf) (\<lambda>st. ((), st)) (\<lambda>n st. st) (\<lambda>n. n \<noteq> [])"

lemma chain_start_makes:
  assumes "StartInitialBuild (main_outputPathFactory chain_up pf) x st = Returns (op, log, st1)" "pf_restorer pf = pf_restorer chain_pf"
    and "buildIDs d b = None" "outputBaseIDs d x = None"
  shows "startBuild_locked (chain_service pf) b x () () d st =
    Returns (allocated d, log, attach_build (allocated d) \<lparr>bs_id = b, bs_digestFunction = (), bs_scopeWalkerFactory = ()\<rparr>
      (snd (insert_output_path x op () d)), st1)"
proof -
  have "fst (insert_output_path x op () d) = allocated d" by (simp add: insert_output_path_def Let_def)
  moreover have "pf\<lparr>pf_restorer := pf_restorer chain_pf\<rparr> = pf" using assms(2) by (cases pf) simp
  then have "StartInitialBuild (main_outputPathFactory chain_up (pf\<lparr>pf_restorer := pf_restorer chain_pf\<rparr>)) x st =
      Returns (op, log, fst st1, snd st1)" using assms(1) by simp
  ultimately show ?thesis using assms(3,4) by (simp add: startBuild_locked_def main_service_ops_def Let_def split_beta)
qed

text \<open>
  \<open>chain_pf\<close>, with output paths whose contents are \<open>chain_tree\<close>.
\<close>

definition chain_tree_pf where
  "chain_tree_pf = chain_pf\<lparr>pf_ops := mem_ops\<lparr>LookupAllChildren := \<lambda>d v. chain_tree\<rparr>\<rparr>"

definition chain_op :: "string list localFileUploadingOutputPath persistentOutputPath" where
  "chain_op = \<lparr>pop_OutputPath = \<lparr>lfu_OutputPath = [[]], lfu_outputBaseID = ''x''\<rparr>, pop_outputBaseID = ''x'', pop_initialCreationTime = chain_time\<rparr>"

definition chain_dir :: "(string list localFileUploadingOutputPath persistentOutputPath, unit, unit, unit) BazelOutputServiceDirectory" where
  "chain_dir = attach_build 1 \<lparr>bs_id = ''b'', bs_digestFunction = (), bs_scopeWalkerFactory = ()\<rparr>
     (snd (insert_output_path ''x'' chain_op () NewBazelOutputServiceDirectory))"

lemma chain_starts:
  assumes "pf = chain_pf \<or> pf = chain_tree_pf"
  shows "\<exists>log. startBuild_locked (chain_service pf) ''b'' ''x'' () () NewBazelOutputServiceDirectory (mem_vfs_empty, mem_empty) =
     Returns (1, log, chain_dir, (mem_vfs_empty\<lparr>mv_roots := 1\<rparr>, mem_empty))"
proof -
  have "\<exists>log. StartInitialBuild (main_outputPathFactory chain_up pf) ''x'' (mem_vfs_empty, mem_empty) =
      Returns (chain_op, log, (mem_vfs_empty\<lparr>mv_roots := 1\<rparr>, mem_empty))"
    using assms by (auto simp: chain_tree_pf_def chain_op_def chain_time_def Let_def mem_vfs_empty_def main_outputPathFactory_def
        persistentOutputPathFactory_Factory_def persistent_StartInitialBuild_def
        localFileUploadingOutputPathFactory_def inMemoryOutputPathFactory_def chain_pf_def main_outputPathStore_def
        maximumAgeStore_Store_def directoryBackedStore_Store_def dbs_Read_def mas_Read_def mem_dir_def mem_empty_def
        mem_ops_def)
  then obtain log where log: "StartInitialBuild (main_outputPathFactory chain_up pf) ''x'' (mem_vfs_empty, mem_empty) =
      Returns (chain_op, log, (mem_vfs_empty\<lparr>mv_roots := 1\<rparr>, mem_empty))" by blast
  have "pf_restorer pf = pf_restorer chain_pf" using assms by (auto simp: chain_tree_pf_def)
  from chain_start_makes [OF log this new_directory_unused(1,2)] show ?thesis
    by (intro exI) (simp add: chain_dir_def NewBazelOutputServiceDirectory_def)
qed

lemma chain_dir_sel:
  "buildIDs chain_dir = [''b'' \<mapsto> 1]" "outputBaseIDs chain_dir = [''x'' \<mapsto> 1]"
  "ops_rootDirectory (heap chain_dir 1) = Some chain_op" "ops_outputBaseID (heap chain_dir 1) = ''x''"
  "ops_buildState (heap chain_dir 1) = Some \<lparr>bs_id = ''b'', bs_digestFunction = (), bs_scopeWalkerFactory = ()\<rparr>"
  by (auto simp: chain_dir_def insert_output_path_def NewBazelOutputServiceDirectory_def Let_def)

lemma chain_reachable:
  assumes "pf = chain_pf \<or> pf = chain_tree_pf"
  shows "reachable (chain_service pf) 1 \<lparr>sv_dir = chain_dir, sv_world = (mem_vfs_empty\<lparr>mv_roots := 1\<rparr>, mem_empty), sv_found = [],
    sv_emptied = [], sv_absent = []\<rparr>"
proof -
  obtain log where log: "startBuild_locked (chain_service pf) ''b'' ''x'' () () NewBazelOutputServiceDirectory (mem_vfs_empty, mem_empty) =
     Returns (1, log, chain_dir, (mem_vfs_empty\<lparr>mv_roots := 1\<rparr>, mem_empty))" using chain_starts [OF assms] by blast
  have "so_NewComponent (chain_service pf) ''x''" by (simp add: main_service_ops_def)
  from reachable.step [OF reachable.initially service_step.Starts [OF this]] log show ?thesis by fastforce
qed

section \<open>Properties\<close>

text \<open>
  C17. A cleaned output base starts empty. In every reachable state of the service on the chain
  of \<^verbatim>\<open>main\<close>, after a successful \<^verbatim>\<open>Clean\<close> of an output base, in use or not, the next build that
  starts on it gets an output path whose directory is empty: neither the old output path nor
  its saved state comes back. Notifying the kernel and making a file factory leave the state
  directory alone, and a directory made by \<^verbatim>\<open>NewInMemoryPrepopulatedDirectory\<close> is empty.
\<close>

theorem cleaned_base_starts_empty:
  assumes "state_directory dir files inode hname" "pf_store pf = main_outputPathStore ncm c dir m tm age now"
    and "\<And>v. empty_dir (fst (NewInMemoryPrepopulatedDirectory (pf_ops pf) v)) (snd (NewInMemoryPrepopulatedDirectory (pf_ops pf) v))"
    and "\<And>n st. snd (notify n st) = snd st" "\<And>st. snd (snd (newCF st)) = snd st"
    and "reachable (main_service_ops up pf restorer newCF notify nc) n S" "Suc n < 2 ^ 64"
    and "bos_Clean (main_service_ops up pf restorer newCF notify nc) x (sv_dir S) st = Returns (None, d1, st1)"
    and "buildIDs d1 b = None"
    and "startBuild_locked (main_service_ops up pf restorer newCF notify nc) b x df sw d1 st1 = Returns (a, log, d2, st2)"
  shows "\<exists>op. ops_rootDirectory (heap d2 a) = Some op \<and> empty_dir (op_directory (main_outputPathFactory up pf) op) (fst st2)"
proof -
  note F = main_factory_contract [where empty_dir = empty_dir and up = up, OF assms(1-3)]
  have F': "output_path_factory (main_outputPathFactory up (pf\<lparr>pf_restorer := r\<rparr>)) (\<lambda>st. dom (files (snd st)))
      (\<lambda>op x. pop_outputBaseID op = x) (\<lambda>d st. empty_dir d (fst st))" for r
    using main_factory_contract [where pf = "pf\<lparr>pf_restorer := r\<rparr>" and empty_dir = empty_dir and up = up, OF assms(1)] assms(2,3)
    by simp
  obtain as where as: "service_inv n S as" using reachable_inv [OF assms(6)] by blast
  then have inv: "bos_inv (sv_dir S) as" and c: "changeID (sv_dir S) + 1 \<noteq> 0"
    using no_wrap [OF _ assms(7)] by (simp_all add: service_inv_def)
  have absent: "x \<notin> dom (files (snd st1))"
    by (rule main_clean_absent [OF F inv reachable_roots_belong [OF main_starts_belong assms(6)] assms(8)]) (simp add: assms(4))
  have "bos_VirtualLookup x d1 = Inl StatusErrNoEnt" using clean_outcome [OF inv c assms(8)] by blast
  then have "outputBaseIDs d1 x = None" by (auto simp: bos_VirtualLookup_def split: option.splits)
  moreover have "0 < allocated (sv_dir S)" using inv by (simp add: bos_inv_def)
  then have "0 < allocated d1" using assms(8) by (auto simp: bos_Clean_def split: if_splits option.splits prod.splits)
  ultimately show ?thesis
    by (rule main_start_fresh [OF F' assms(9) _ _ assms(10)]) (use absent in \<open>simp add: assms(5)\<close>)
qed

theorem cleaned_base_starts_empty_witness:
  "\<exists>d1 st1 a log d2 st2 op. bos_Clean (chain_service chain_pf) ''x'' chain_dir (mem_vfs_empty\<lparr>mv_roots := 1\<rparr>, mem_empty\<lparr>md_files := [''x'' \<mapsto> [9]]\<rparr>) =
      Returns (None, d1, st1) \<and>
    startBuild_locked (chain_service chain_pf) ''c'' ''x'' () () d1 st1 = Returns (a, log, d2, st2) \<and>
    ops_rootDirectory (heap d2 a) = Some op \<and>
    (\<forall>q. strict_prefix (op_directory (main_outputPathFactory chain_up chain_pf) op) q \<longrightarrow> mem_file (fst st2) q = None \<and> \<not> mem_dir_at (fst st2) q)"
proof -
  let ?so = "chain_service chain_pf" and ?v = "mem_vfs_empty\<lparr>mv_roots := 1\<rparr>"
  let ?S = "\<lparr>sv_dir = chain_dir, sv_world = (?v, mem_empty), sv_found = [], sv_emptied = [], sv_absent = []\<rparr>"
  have remove: "RemoveAllChildren (main_outputPathFactory chain_up chain_pf) chain_op True (?v, mem_empty\<lparr>md_files := [''x'' \<mapsto> [9]]\<rparr>) =
      (None, (?v, mem_empty))"
    by (simp add: chain_op_def main_outputPathFactory_def persistentOutputPathFactory_Factory_def
        persistent_RemoveAllChildren_def localFileUploadingOutputPathFactory_def inMemoryOutputPathFactory_def)
      (simp add: chain_pf_def main_outputPathStore_def maximumAgeStore_Store_def directoryBackedStore_Store_def dbs_Clean_def
        getTemporaryName_def mem_dir_def mem_empty_def mem_ops_def mem_vfs_empty_def)
  have clean: "bos_Clean ?so ''x'' (sv_dir ?S) (?v, mem_empty\<lparr>md_files := [''x'' \<mapsto> [9]]\<rparr>) =
      Returns (None, clean_commit ''x'' 1 chain_dir, (?v, mem_empty))"
    using remove by (simp add: bos_Clean_def chain_dir_sel chain_dir_sel [unfolded One_nat_def] main_service_ops_def)
  have unused: "buildIDs (clean_commit ''x'' 1 chain_dir) ''c'' = None" "outputBaseIDs (clean_commit ''x'' 1 chain_dir) ''x'' = None"
    by (auto simp: clean_commit_def chain_dir_sel detach_build_def Let_def split: option.splits)
  have "\<exists>op log st2. StartInitialBuild (main_outputPathFactory chain_up chain_pf) ''x'' (?v, mem_empty) = Returns (op, log, st2)"
    by (simp add: Let_def mem_vfs_empty_def main_outputPathFactory_def persistentOutputPathFactory_Factory_def persistent_StartInitialBuild_def
        localFileUploadingOutputPathFactory_def inMemoryOutputPathFactory_def chain_pf_def main_outputPathStore_def
        maximumAgeStore_Store_def directoryBackedStore_Store_def dbs_Read_def mas_Read_def mem_dir_def mem_empty_def
        mem_ops_def)
  then obtain a log d2 st2 where start: "startBuild_locked ?so ''c'' ''x'' () () (clean_commit ''x'' 1 chain_dir) (?v, mem_empty) = Returns (a, log, d2, st2)"
    using chain_start_makes [OF _ refl unused] by blast
  have e: "\<forall>q. strict_prefix (fst (NewInMemoryPrepopulatedDirectory (pf_ops chain_pf) v)) q \<longrightarrow>
      mem_file (snd (NewInMemoryPrepopulatedDirectory (pf_ops chain_pf) v)) q = None \<and>
      \<not> mem_dir_at (snd (NewInMemoryPrepopulatedDirectory (pf_ops chain_pf) v)) q" for v
    using mem_fs.new_law [OF prod.collapse [symmetric], of v] by (simp add: chain_pf_def)
  have empty: "\<exists>op. ops_rootDirectory (heap d2 a) = Some op \<and>
      (\<forall>q. strict_prefix (op_directory (main_outputPathFactory chain_up chain_pf) op) q \<longrightarrow> mem_file (fst st2) q = None \<and> \<not> mem_dir_at (fst st2) q)"
    by (rule cleaned_base_starts_empty [where empty_dir = "\<lambda>d v. \<forall>q. strict_prefix d q \<longrightarrow> mem_file v q = None \<and> \<not> mem_dir_at v q",
          OF mem.state_directory_axioms chain_pf_store e _ _ chain_reachable _ clean unused(1) start]) simp_all
  show ?thesis using clean start empty unfolding service.select_convs by blast
qed

text \<open>
  C1. The contents of an output path survive a restart of the service. In any reachable state of
  the service, when finalizing a build logs nothing, and the next process (a new service, on the
  same state directory) starts a build on that output base and logs nothing, then the virtual
  directory of its output path holds exactly the tree that the first process had at the end of
  the build: every directory, file and symbolic link of it, and nothing else (the two workspace
  status files at the top, and leaves that persist as nothing, are left out). The creation time
  is kept. Files and symbolic links are those the new process makes for the saved nodes. The
  Protobuf codec round trips and makes messages below 2 GiB; names are distinct within a
  directory, and the state file is no larger than the permitted size.
\<close>

theorem contents_survive_restart:
  assumes D: "state_directory dir files inode hname" and P: "prepopulated_directory (pf_ops pf2) pfiles pdirs at"
    and pf: "pf_store pf1 = main_outputPathStore ncm c dir m tm age1 now1" "pf_store pf2 = main_outputPathStore ncm c dir m tm age2 now2"
      "pf_applyAppend pf1 = pf_applyAppend pf2"
    and S: "reachable (main_service_ops up1 pf1 restorer1 newCF1 notify1 nc1) n S"
    and build: "buildIDs (sv_dir S) b1 = Some a" "ops_rootDirectory (heap (sv_dir S) a) = Some op"
    and finalize: "bos_FinalizeBuild (main_service_ops up1 pf1 restorer1 newCF1 notify1 nc1) b1 (sv_dir S) st = Returns ([], d1, st1)"
    and tree: "tree = LookupAllChildren (pf_ops pf1) (op_directory (main_outputPathFactory up1 pf1) op) (fst st1)"
    and restart: "snd st2 = snd st1" "\<And>st. snd (snd (newCF2 st)) = snd st"
    and start: "startBuild_locked (main_service_ops up2 pf2 restorer2 newCF2 notify2 nc2) b2 (ops_outputBaseID (heap (sv_dir S) a)) df sw
        NewBazelOutputServiceDirectory st2 = Returns (a2, [], d2, st3)"
    and codec: "codec_ok (marshalDirectory c) (unmarshalDirectory c)" "appends_nodes (pf_applyAppend pf2) persists"
      "\<forall>r bs. marshalRoot c r = Inr bs \<longrightarrow> bs \<noteq> [] \<and> length bs < 2 ^ 31 \<and> unmarshalRoot c bs = Inr r"
    and wf: "wf_tree tree" "2 ^ 31 * (ndirs tree + 1) \<le> 2 ^ 63 - 17"
    and fits: "\<forall>bs. files (snd st1) (ops_outputBaseID (heap (sv_dir S) a)) = Some bs \<longrightarrow> int (length bs) \<le> m" "m < 2 ^ 63"
  shows "\<exists>op2. ops_rootDirectory (heap d2 a2) = Some op2 \<and> pop_initialCreationTime op2 = pop_initialCreationTime op \<and>
    (\<forall>n r. pfiles (fst st3) (at (op_directory (main_outputPathFactory up2 pf2) op2) @ n # r) =
         view (restorer2 (fst (newCF2 st2)) df) persists [] tree (n # r) \<and>
       pdirs (fst st3) (at (op_directory (main_outputPathFactory up2 pf2) op2) @ n # r) = dir_at tree (n # r))"
proof -
  let ?x = "ops_outputBaseID (heap (sv_dir S) a)"
  let ?pf = "pf2\<lparr>pf_restorer := restorer2 (fst (newCF2 st2)) df\<rparr>"
  obtain as where "service_inv n S as" using reachable_inv [OF S] by blast
  then have inv: "bos_inv (sv_dir S) as" by (simp add: service_inv_def)
  have "a \<in> set as" using bos_inv_buildIDs [OF inv, of b1 a] build(1) by blast
  then have x: "pop_outputBaseID op = ?x"
    using reachable_roots_belong [OF main_starts_belong S] build(2) bos_inv_allocated [OF inv, of a] by (auto simp: roots_belong_def)
  have "FinalizeBuild (main_outputPathFactory up1 pf1) op st = Returns ([], st1)"
    using finalize_calls [OF finalize build] by (auto simp: main_service_ops_def)
  from main_silent_finalize [OF this]
  have save: "saveOutputPath ?pf tree ?x (pop_initialCreationTime op) (snd st) = Returns (None, snd st1)"
    using main_saves_alike [OF pf(1), of ?pf] pf(2,3) unfolding tree x by simp
  obtain op2 where op2: "StartInitialBuild (main_outputPathFactory up2 ?pf) ?x (snd (newCF2 st2)) = Returns (op2, [], st3)"
    "ops_rootDirectory (heap d2 a2) = Some op2"
    using main_start_calls [OF new_directory_unused start] by blast
  have start': "StartInitialBuild (main_outputPathFactory up2 ?pf) ?x (fst (snd (newCF2 st2)), snd st1) = Returns (op2, [], (fst st3, snd st3))"
    using op2(1) restart by (metis prod.collapse)
  have "pf_store ?pf = main_outputPathStore ncm c dir m tm age2 now2" "prepopulated_directory (pf_ops ?pf) pfiles pdirs at"
    "appends_nodes (pf_applyAppend ?pf) persists" using pf(2) P codec(2) by simp_all
  from main_restored_output_path [OF D this(2,1) save start' codec(1) this(3) codec(3) wf fits] op2(2)
  show ?thesis by (simp add: main_ops_restorer)
qed

theorem contents_survive_restart_witness:
  "\<exists>st1 d1 d2 v3 op2. bos_FinalizeBuild (chain_service chain_tree_pf) ''b'' chain_dir (mem_vfs_empty, mem_empty) = Returns ([], d1, (mem_vfs_empty, st1)) \<and>
    startBuild_locked (chain_service chain_pf) ''c'' ''x'' () () NewBazelOutputServiceDirectory (mem_vfs_empty, st1) = Returns (1, [], d2, (v3, st1)) \<and>
    ops_rootDirectory (heap d2 1) = Some op2 \<and>
    mem_file v3 (op_directory (main_outputPathFactory chain_up chain_pf) op2 @ [''sub'', ''a'']) = Some (SymlinkN ''b'')"
proof -
  let ?sv = "\<lparr>sv_dir = chain_dir, sv_world = (mem_vfs_empty\<lparr>mv_roots := 1\<rparr>, mem_empty), sv_found = [], sv_emptied = [], sv_absent = []\<rparr>"
  obtain s where s: "saveOutputPath chain_pf chain_tree ''x'' chain_time mem_empty = Returns (None, s)"
    "md_files s ''x'' = Some (header_bytes (region_for [1,2] [7]) @ [1,2] @ [7])" using chain_save by blast
  obtain op v3 where r: "StartInitialBuild (main_outputPathFactory chain_up chain_pf) ''x'' (mem_vfs_empty, s) = Returns (op, [], v3, s)"
    using chain_restore [OF s(2)] by blast
  have tree_store: "pf_store chain_tree_pf = pf_store chain_pf" "pf_applyAppend chain_tree_pf = pf_applyAppend chain_pf"
    by (simp_all add: chain_tree_pf_def)
  have "saveOutputPath chain_tree_pf chain_tree ''x'' chain_time mem_empty = Returns (None, s)"
    using s(1) main_saves_alike [of chain_tree_pf, OF _ chain_pf_store, of _ _ _ _ _ _ _] tree_store chain_pf_store by metis
  then have "FinalizeBuild (main_outputPathFactory chain_up chain_tree_pf) chain_op (mem_vfs_empty, mem_empty) = Returns ([], (mem_vfs_empty, s))"
    by (simp add: main_outputPathFactory_def persistentOutputPathFactory_Factory_def persistent_FinalizeBuild_def chain_op_def
        localFileUploadingOutputPathFactory_def localFileUploading_FinalizeBuild_def inMemoryOutputPathFactory_def)
      (simp add: chain_tree_pf_def chain_tree_def chain_up_def)
  then obtain d1 where fin: "bos_FinalizeBuild (chain_service chain_tree_pf) ''b'' (sv_dir ?sv) (mem_vfs_empty, mem_empty) = Returns ([], d1, (mem_vfs_empty, s))"
    by (simp add: bos_FinalizeBuild_def chain_dir_sel chain_dir_sel [unfolded One_nat_def] main_service_ops_def)
  have "allocated NewBazelOutputServiceDirectory = 1" by (simp add: NewBazelOutputServiceDirectory_def)
  then obtain d2 where start: "startBuild_locked (chain_service chain_pf) ''c'' (ops_outputBaseID (heap (sv_dir ?sv) 1)) () () NewBazelOutputServiceDirectory
      (mem_vfs_empty, s) = Returns (1, [], d2, (v3, s))"
    using chain_start_makes [OF r refl new_directory_unused(1,2)] unfolding service.select_convs chain_dir_sel by metis
  have build: "buildIDs (sv_dir ?sv) ''b'' = Some 1" "ops_rootDirectory (heap (sv_dir ?sv) 1) = Some chain_op"
    "ops_outputBaseID (heap (sv_dir ?sv) 1) = ''x''"
    unfolding service.select_convs chain_dir_sel by simp_all
  have P: "prepopulated_directory (pf_ops chain_pf) mem_file mem_dir_at (\<lambda>d. d)"
    using mem_fs.prepopulated_directory_axioms by (simp add: chain_pf_def)
  have tree: "chain_tree = LookupAllChildren (pf_ops chain_tree_pf) (op_directory (main_outputPathFactory chain_up chain_tree_pf) chain_op) (fst (mem_vfs_empty, s))"
    by (simp add: chain_tree_pf_def)
  have "\<exists>op2. ops_rootDirectory (heap d2 1) = Some op2 \<and> pop_initialCreationTime op2 = pop_initialCreationTime chain_op \<and>
    (\<forall>n r. mem_file (fst (v3, s)) (op_directory (main_outputPathFactory chain_up chain_pf) op2 @ n # r) =
         view (pf_restorer chain_pf) (\<lambda>l. l) [] chain_tree (n # r) \<and>
       mem_dir_at (fst (v3, s)) (op_directory (main_outputPathFactory chain_up chain_pf) op2 @ n # r) = dir_at chain_tree (n # r))"
    by (rule contents_survive_restart [OF mem.state_directory_axioms P trans [OF tree_store(1) chain_pf_store] chain_pf_store tree_store(2)
        chain_reachable build(1,2) fin tree _ _ start])
      (use s(2) in \<open>auto simp: chain_dir_sel(4) [unfolded One_nat_def] codec_ok_def chain_codec_def demo_marshalD_def demo_unmarshalD_def appends_nodes_def
         chain_pf_def chain_tree_def header_bytes_def\<close>)
  moreover have "view (pf_restorer chain_pf) (\<lambda>l. l) [] chain_tree [''sub'', ''a''] = Some (SymlinkN ''b'')"
    by (simp add: chain_tree_def chain_pf_def kept_def)
  ultimately have "\<exists>op2. ops_rootDirectory (heap d2 1) = Some op2 \<and>
    mem_file v3 (op_directory (main_outputPathFactory chain_up chain_pf) op2 @ [''sub'', ''a'']) = Some (SymlinkN ''b'')"
    unfolding fst_conv by metis
  then show ?thesis using fin start unfolding service.select_convs chain_dir_sel by blast
qed

end
