(* ===== verification/Build_Contents.thy ===== *)
theory Build_Contents
  imports Service_Refinement
begin

text \<open>
  \<^verbatim>\<open>StartBuild\<close> in full (\<^verbatim>\<open>bazel_output_service_directory.go\<close>): the checks of the
  request, the locked section of \<^verbatim>\<open>Output_Service\<close>, and the removal of everything from the
  output path whose contents are missing from the Content Addressable Storage.
\<close>

section \<open>Finding and removing what is missing\<close>

text \<open>
  The variables the callback of \<^verbatim>\<open>filterMissingChildren\<close> captures. The functions that
  remove a child are values, called through \<open>fo_remove\<close>.
\<close>

record ('d, 'rm) filter_locals =
  fl_queue :: "'d \<rightharpoonup> 'rm list"
  fl_savedErr :: "go_error option"

text \<open>
  The calls filtering makes: \<^verbatim>\<open>FindMissing\<close> on the storage, \<^verbatim>\<open>FilterChildren\<close> on
  the output path, which runs a callback on its nodes until one returns false, the functions that
  remove a node, and \<^verbatim>\<open>VirtualApply\<close> with \<^verbatim>\<open>ApplyGetContainingDigests\<close>, which
  answers \<open>None\<close> when the node depends on no digests.
\<close>

record ('s, 'd, 'df, 'node, 'rm, 'pd) filter_ops =
  fo_FindMissing :: "'d set \<Rightarrow> 's \<Rightarrow> 'd list result \<times> 's"
  fo_RecommendedFindMissingDigestsCount :: nat
  fo_FilterChildren ::
    "'pd \<Rightarrow> ('node \<Rightarrow> 'rm \<Rightarrow> ('d, 'rm) filter_locals \<times> 's \<Rightarrow> bool \<times> ('d, 'rm) filter_locals \<times> 's) \<Rightarrow>
     ('d, 'rm) filter_locals \<times> 's \<Rightarrow> go_error option \<times> ('d, 'rm) filter_locals \<times> 's"
  fo_remove :: "'rm \<Rightarrow> 's \<Rightarrow> go_error option \<times> 's"
  fo_GetContainingDigests :: "'node \<Rightarrow> 's \<Rightarrow> 'd list result option \<times> 's"
  fo_UsesDigestFunction :: "'d \<Rightarrow> 'df \<Rightarrow> bool"
  fo_Code :: "go_error \<Rightarrow> code"
  fo_String :: "'d \<Rightarrow> string"

fun run_removers ::
    "('s, 'd, 'df, 'node, 'rm, 'pd) filter_ops \<Rightarrow> 'd \<Rightarrow> 'rm list \<Rightarrow> 's \<Rightarrow> go_error option \<times> 's" where
  "run_removers fo d [] s = (None, s)"
| "run_removers fo d (rm # rms) s =
     (case fo_remove fo rm s of
        (Some err, s1) \<Rightarrow> (Some (StatusWrap (Some err) ''Failed to remove file with digest %#v'' [FStr (fo_String fo d)]), s1)
      | (None, s1) \<Rightarrow> run_removers fo d rms s1)"

fun remove_missing ::
    "('s, 'd, 'df, 'node, 'rm, 'pd) filter_ops \<Rightarrow> ('d \<rightharpoonup> 'rm list) \<Rightarrow> 'd list \<Rightarrow> 's \<Rightarrow> go_error option \<times> 's" where
  "remove_missing fo queue [] s = (None, s)"
| "remove_missing fo queue (d # ds) s =
     (case run_removers fo d (case queue d of None \<Rightarrow> [] | Some rms \<Rightarrow> rms) s of
        (Some err, s1) \<Rightarrow> (Some err, s1)
      | (None, s1) \<Rightarrow> remove_missing fo queue ds s1)"

definition findMissingAndRemove ::
    "('s, 'd, 'df, 'node, 'rm, 'pd) filter_ops \<Rightarrow> ('d \<rightharpoonup> 'rm list) \<Rightarrow> 's \<Rightarrow> go_error option \<times> 's" where
  "findMissingAndRemove fo queue s =
     (case fo_FindMissing fo (dom queue) s of
        (Inl err, s1) \<Rightarrow> (Some (StatusWrap (Some err) ''Failed to find missing blobs'' []), s1)
      | (Inr missing, s1) \<Rightarrow> remove_missing fo queue missing s1)"

text \<open>The loop that queues a node under its digests, and the callback around it.\<close>

definition add_remover :: "'d \<Rightarrow> 'rm \<Rightarrow> ('d \<rightharpoonup> 'rm list) \<Rightarrow> 'd \<rightharpoonup> 'rm list" where
  "add_remover d rm q = q(d \<mapsto> (case q d of None \<Rightarrow> [] | Some rms \<Rightarrow> rms) @ [rm])"

fun queue_digests ::
    "('s, 'd, 'df, 'node, 'rm, 'pd) filter_ops \<Rightarrow> 'rm \<Rightarrow> 'd list \<Rightarrow> ('d, 'rm) filter_locals \<Rightarrow> 's \<Rightarrow>
     bool \<times> ('d, 'rm) filter_locals \<times> 's" where
  "queue_digests fo rm [] l s = (True, l, s)"
| "queue_digests fo rm (d # ds) l s =
     (if fo_RecommendedFindMissingDigestsCount fo \<le> card (dom (fl_queue l))
      then (case findMissingAndRemove fo (fl_queue l) s of
              (Some err, s1) \<Rightarrow> (False, l\<lparr>fl_savedErr := Some err\<rparr>, s1)
            | (None, s1) \<Rightarrow>
                queue_digests fo rm ds (l\<lparr>fl_savedErr := None, fl_queue := add_remover d rm Map.empty\<rparr>) s1)
      else queue_digests fo rm ds (l\<lparr>fl_queue := add_remover d rm (fl_queue l)\<rparr>) s)"

definition remove_child ::
    "('s, 'd, 'df, 'node, 'rm, 'pd) filter_ops \<Rightarrow> 'rm \<Rightarrow> string \<Rightarrow> fmt_arg list \<Rightarrow> ('d, 'rm) filter_locals \<Rightarrow> 's \<Rightarrow>
     bool \<times> ('d, 'rm) filter_locals \<times> 's" where
  "remove_child fo rm msg args l s =
     (case fo_remove fo rm s of
        (Some err, s1) \<Rightarrow> (False, l\<lparr>fl_savedErr := Some (StatusWrap (Some err) msg args)\<rparr>, s1)
      | (None, s1) \<Rightarrow> (True, l, s1))"

definition filter_child ::
    "('s, 'd, 'df, 'node, 'rm, 'pd) filter_ops \<Rightarrow> 'df \<Rightarrow> 'node \<Rightarrow> 'rm \<Rightarrow> ('d, 'rm) filter_locals \<times> 's \<Rightarrow>
     bool \<times> ('d, 'rm) filter_locals \<times> 's" where
  "filter_child fo digestFunction node rm c =
     (case c of (l, s) \<Rightarrow>
        (case fo_GetContainingDigests fo node s of
           (None, s1) \<Rightarrow> (True, l, s1)
         | (Some (Inl err), s1) \<Rightarrow>
             if fo_Code fo err \<noteq> NotFound then (False, l\<lparr>fl_savedErr := Some err\<rparr>, s1)
             else remove_child fo rm ''Failed to remove non-existent directory'' [] l s1
         | (Some (Inr digests), s1) \<Rightarrow>
             (case find (\<lambda>d. \<not> fo_UsesDigestFunction fo d digestFunction) digests of
                Some d \<Rightarrow> remove_child fo rm
                  ''Failed to remove file with different instance name or digest function with digest %#v''
                  [FStr (fo_String fo d)] l s1
              | None \<Rightarrow> queue_digests fo rm digests l s1)))"

definition filterMissingChildren ::
    "('s, 'd, 'df, 'node, 'rm, 'pd) filter_ops \<Rightarrow> 'pd \<Rightarrow> 'df \<Rightarrow> 's \<Rightarrow> go_error option \<times> 's" where
  "filterMissingChildren fo rootDirectory digestFunction s =
     (case fo_FilterChildren fo rootDirectory (filter_child fo digestFunction)
             (\<lparr>fl_queue = Map.empty, fl_savedErr = None\<rparr>, s) of
        (Some err, l, s1) \<Rightarrow> (Some err, s1)
      | (None, l, s1) \<Rightarrow>
          (case fl_savedErr l of
             Some err \<Rightarrow> (Some err, s1)
           | None \<Rightarrow>
               if 0 < card (dom (fl_queue l)) then findMissingAndRemove fo (fl_queue l) s1 else (None, s1)))"

section \<open>What the calls promise\<close>

text \<open>
  \<^verbatim>\<open>FilterChildren\<close> runs its callback on nodes in some order, until the callback returns
  false or it fails itself.
\<close>

fun visit :: "('node \<times> 'rm) list \<Rightarrow> ('node \<Rightarrow> 'rm \<Rightarrow> 'c \<Rightarrow> bool \<times> 'c) \<Rightarrow> 'c \<Rightarrow> 'c" where
  "visit [] f c = c"
| "visit ((node, rm) # r) f c = (case f node rm c of (go, c') \<Rightarrow> if go then visit r f c' else c')"

definition traverses :: "('s, 'd, 'df, 'node, 'rm, 'pd) filter_ops \<Rightarrow> 'pd \<Rightarrow> 's \<Rightarrow> ('node \<times> 'rm) list \<Rightarrow> bool" where
  "traverses fo pd s nodes \<longleftrightarrow>
     (\<forall>f l. \<exists>k err. fo_FilterChildren fo pd f (l, s) = (err, visit (take k nodes) f (l, s)) \<and> (err = None \<longrightarrow> length nodes \<le> k))"

text \<open>
  \<open>gone rm s\<close>: what \<open>rm\<close> removes is no longer there. \<open>safe d s\<close>: the storage was asked about
  the digest and did not report it missing. Both stay true whatever filtering does. The storage
  need only answer requests of the recommended size.
\<close>

record ('s, 'd, 'rm) filter_view =
  gone :: "'rm \<Rightarrow> 's \<Rightarrow> bool"
  safe :: "'d \<Rightarrow> 's \<Rightarrow> bool"

definition keeps :: "('s, 'd, 'rm) filter_view \<Rightarrow> 's \<Rightarrow> 's \<Rightarrow> bool" where
  "keeps V s s' \<longleftrightarrow> (\<forall>rm. gone V rm s \<longrightarrow> gone V rm s') \<and> (\<forall>d. safe V d s \<longrightarrow> safe V d s')"

definition remove_law :: "('s, 'd, 'df, 'node, 'rm, 'pd) filter_ops \<Rightarrow> ('s, 'd, 'rm) filter_view \<Rightarrow> bool" where
  "remove_law fo V \<longleftrightarrow> (\<forall>rm s r s'. fo_remove fo rm s = (r, s') \<longrightarrow> keeps V s s' \<and> (r = None \<longrightarrow> gone V rm s'))"

definition find_law :: "('s, 'd, 'df, 'node, 'rm, 'pd) filter_ops \<Rightarrow> ('s, 'd, 'rm) filter_view \<Rightarrow> bool" where
  "find_law fo V \<longleftrightarrow>
     (\<forall>D s r s'. 0 < card D \<longrightarrow> card D \<le> fo_RecommendedFindMissingDigestsCount fo \<longrightarrow> fo_FindMissing fo D s = (r, s') \<longrightarrow>
        keeps V s s' \<and> (\<forall>missing. r = Inr missing \<longrightarrow> (\<forall>d \<in> D. d \<in> set missing \<or> safe V d s')))"

definition digests_law ::
    "('s, 'd, 'df, 'node, 'rm, 'pd) filter_ops \<Rightarrow> ('s, 'd, 'rm) filter_view \<Rightarrow> ('node \<Rightarrow> 'd list result option) \<Rightarrow> bool" where
  "digests_law fo V digests \<longleftrightarrow>
     (\<forall>node s r s'. fo_GetContainingDigests fo node s = (r, s') \<longrightarrow> keeps V s s' \<and> r = digests node)"

definition filter_contract ::
    "('s, 'd, 'df, 'node, 'rm, 'pd) filter_ops \<Rightarrow> ('s, 'd, 'rm) filter_view \<Rightarrow> ('node \<Rightarrow> 'd list result option) \<Rightarrow> bool" where
  "filter_contract fo V digests \<longleftrightarrow> 0 < fo_RecommendedFindMissingDigestsCount fo \<and>
     remove_law fo V \<and> find_law fo V \<and> digests_law fo V digests"

lemma keeps_refl [simp]: "keeps V s s"
  by (simp add: keeps_def)

lemma keeps_trans: "keeps V s s' \<Longrightarrow> keeps V s' s'' \<Longrightarrow> keeps V s s''"
  by (auto simp: keeps_def)

lemma contract_remove:
  "filter_contract fo V digests \<Longrightarrow> fo_remove fo rm s = (r, s') \<Longrightarrow> keeps V s s' \<and> (r = None \<longrightarrow> gone V rm s')"
  by (simp add: filter_contract_def remove_law_def)

lemma contract_find:
  "filter_contract fo V digests \<Longrightarrow> fo_FindMissing fo D s = (r, s') \<Longrightarrow> 0 < card D \<Longrightarrow>
   card D \<le> fo_RecommendedFindMissingDigestsCount fo \<Longrightarrow>
   keeps V s s' \<and> (\<forall>missing. r = Inr missing \<longrightarrow> (\<forall>d \<in> D. d \<in> set missing \<or> safe V d s'))"
  by (simp add: filter_contract_def find_law_def)

lemma contract_digests:
  "filter_contract fo V digests \<Longrightarrow> fo_GetContainingDigests fo node s = (r, s') \<Longrightarrow> keeps V s s' \<and> r = digests node"
  by (simp add: filter_contract_def digests_law_def)

section \<open>Nothing that is missing stays\<close>

text \<open>
  What is known of a digest of a node, while \<open>q\<close> is waiting to be looked up: the node is gone,
  the digest is safe, or it is waiting with the function that removes the node.
\<close>

definition covered :: "('s, 'd, 'rm) filter_view \<Rightarrow> ('d \<rightharpoonup> 'rm list) \<Rightarrow> 's \<Rightarrow> 'd \<Rightarrow> 'rm \<Rightarrow> bool" where
  "covered V q s d rm \<longleftrightarrow> gone V rm s \<or> safe V d s \<or> (\<exists>rms. q d = Some rms \<and> rm \<in> set rms)"

definition moves :: "('s, 'd, 'rm) filter_view \<Rightarrow> ('d \<rightharpoonup> 'rm list) \<times> 's \<Rightarrow> ('d \<rightharpoonup> 'rm list) \<times> 's \<Rightarrow> bool" where
  "moves V c c' \<longleftrightarrow> keeps V (snd c) (snd c') \<and>
     (\<forall>d rm. covered V (fst c) (snd c) d rm \<longrightarrow> covered V (fst c') (snd c') d rm)"

text \<open>A node that was dealt with: it has no digests, or it is gone, or all of them are covered.\<close>

definition settled ::
    "('s, 'd, 'df, 'node, 'rm, 'pd) filter_ops \<Rightarrow> ('s, 'd, 'rm) filter_view \<Rightarrow> 'df \<Rightarrow> ('d \<rightharpoonup> 'rm list) \<times> 's \<Rightarrow>
     'd list result option \<Rightarrow> 'rm \<Rightarrow> bool" where
  "settled fo V df c digests rm \<longleftrightarrow>
     (case digests of
        None \<Rightarrow> True
      | Some (Inl err) \<Rightarrow> fo_Code fo err = NotFound \<and> gone V rm (snd c)
      | Some (Inr ds) \<Rightarrow> gone V rm (snd c) \<or>
          (\<forall>d \<in> set ds. fo_UsesDigestFunction fo d df \<and> covered V (fst c) (snd c) d rm))"

lemma moves_refl [simp]: "moves V c c"
  by (simp add: moves_def)

lemma moves_trans: "moves V c c' \<Longrightarrow> moves V c' c'' \<Longrightarrow> moves V c c''"
  by (simp add: moves_def keeps_def)

lemma moves_keeps: "keeps V s s' \<Longrightarrow> moves V (q, s) (q, s')"
  by (auto simp: moves_def keeps_def covered_def)

lemma settled_moves: "moves V c c' \<Longrightarrow> settled fo V df c ds rm \<Longrightarrow> settled fo V df c' ds rm"
  by (auto simp: settled_def moves_def keeps_def split: option.splits sum.splits)

lemma run_removers_keeps:
  "filter_contract fo V digests \<Longrightarrow> run_removers fo d rms s = (r, s') \<Longrightarrow>
   keeps V s s' \<and> (r = None \<longrightarrow> (\<forall>rm \<in> set rms. gone V rm s'))"
proof (induction rms arbitrary: s)
  case Nil
  then show ?case by simp
next
  case (Cons rm rms)
  obtain r1 s1 where rm: "fo_remove fo rm s = (r1, s1)" by fastforce
  note k = contract_remove [OF Cons.prems(1) rm]
  show ?case
  proof (cases r1)
    case None
    then have rest: "run_removers fo d rms s1 = (r, s')" using Cons.prems(2) rm by simp
    note ih = Cons.IH [OF Cons.prems(1) rest]
    moreover have "gone V rm s'" using k None ih by (simp add: keeps_def)
    ultimately show ?thesis using k keeps_trans by auto
  next
    case (Some err)
    then show ?thesis using Cons.prems(2) rm k by auto
  qed
qed

lemma remove_missing_keeps:
  "filter_contract fo V digests \<Longrightarrow> remove_missing fo q ds s = (r, s') \<Longrightarrow>
   keeps V s s' \<and> (r = None \<longrightarrow> (\<forall>d \<in> set ds. \<forall>rms. q d = Some rms \<longrightarrow> (\<forall>rm \<in> set rms. gone V rm s')))"
proof (induction ds arbitrary: s)
  case Nil
  then show ?case by simp
next
  case (Cons d ds)
  obtain r1 s1 where rm: "run_removers fo d (case q d of None \<Rightarrow> [] | Some rms \<Rightarrow> rms) s = (r1, s1)" by fastforce
  note k = run_removers_keeps [OF Cons.prems(1) rm]
  show ?case
  proof (cases r1)
    case None
    then have rest: "remove_missing fo q ds s1 = (r, s')" using Cons.prems(2) rm by simp
    note ih = Cons.IH [OF Cons.prems(1) rest]
    moreover have "\<forall>rms. q d = Some rms \<longrightarrow> (\<forall>rm \<in> set rms. gone V rm s')" using k None ih by (auto simp: keeps_def)
    ultimately show ?thesis using k keeps_trans by auto
  next
    case (Some err)
    then show ?thesis using Cons.prems(2) rm k by auto
  qed
qed

lemma findMissingAndRemove_moves:
  assumes "filter_contract fo V digests" "findMissingAndRemove fo q s = (r, s')"
    and "0 < card (dom q)" "card (dom q) \<le> fo_RecommendedFindMissingDigestsCount fo"
  shows "keeps V s s' \<and> (r = None \<longrightarrow> moves V (q, s) (Map.empty, s'))"
proof -
  obtain r1 s1 where f: "fo_FindMissing fo (dom q) s = (r1, s1)" by fastforce
  note k = contract_find [OF assms(1) f assms(3,4)]
  show ?thesis
  proof (cases r1)
    case (Inl err)
    then show ?thesis using assms(2) f k by (auto simp: findMissingAndRemove_def)
  next
    case (Inr missing)
    then have rm: "remove_missing fo q missing s1 = (r, s')" using assms(2) f by (simp add: findMissingAndRemove_def)
    note k1 = remove_missing_keeps [OF assms(1) rm]
    have kk: "keeps V s s'" by (rule keeps_trans [OF k [THEN conjunct1] k1 [THEN conjunct1]])
    moreover have "safe V d s' \<or> gone V rm s'" if "r = None" "q d = Some rms" "rm \<in> set rms" for d rm rms
    proof (cases "d \<in> set missing")
      case True
      then show ?thesis using k1 that by blast
    next
      case False
      then have "safe V d s1" using k Inr that by blast
      then show ?thesis using k1 by (simp add: keeps_def)
    qed
    ultimately show ?thesis by (auto simp: moves_def keeps_def covered_def)
  qed
qed

text \<open>The queue never grows past the recommended size.\<close>

definition queue_ok :: "('s, 'd, 'df, 'node, 'rm, 'pd) filter_ops \<Rightarrow> ('d \<rightharpoonup> 'rm list) \<Rightarrow> bool" where
  "queue_ok fo q \<longleftrightarrow> finite (dom q) \<and> card (dom q) \<le> fo_RecommendedFindMissingDigestsCount fo"

lemma add_remover_covers: "covered V (add_remover d rm q) s d rm"
  by (simp add: covered_def add_remover_def)

lemma add_remover_moves: "moves V (q, s) (add_remover d rm q, s)"
  by (auto simp: moves_def covered_def add_remover_def split: option.splits)

lemma add_remover_ok:
  assumes "finite (dom q)" "card (dom q) < fo_RecommendedFindMissingDigestsCount fo"
  shows "queue_ok fo (add_remover d rm q)"
proof -
  have "card (insert d (dom q)) \<le> Suc (card (dom q))" by (rule card_insert_le_m1) simp_all
  then show ?thesis using assms by (simp add: queue_ok_def add_remover_def)
qed

lemma queue_digests_moves:
  assumes con: "filter_contract fo V digests"
  shows "queue_digests fo rm ds l s = (go, l', s') \<Longrightarrow> queue_ok fo (fl_queue l) \<Longrightarrow> fl_savedErr l = None \<Longrightarrow>
    go = (fl_savedErr l' = None) \<and>
    (go \<longrightarrow> queue_ok fo (fl_queue l') \<and> moves V (fl_queue l, s) (fl_queue l', s') \<and>
       (\<forall>d \<in> set ds. covered V (fl_queue l') s' d rm))"
proof (induction ds arbitrary: l s)
  case Nil
  then show ?case by auto
next
  case (Cons d ds)
  let ?N = "fo_RecommendedFindMissingDigestsCount fo" and ?q = "fl_queue l"
  have pos: "0 < ?N" using con by (simp add: filter_contract_def)
  have rest: ?case
    if "queue_digests fo rm ds l1 s1 = (go, l', s')" "fl_savedErr l1 = None" "fl_queue l1 = add_remover d rm q1"
      "moves V (?q, s) (q1, s1)" "finite (dom q1)" "card (dom q1) < ?N" for l1 s1 q1
  proof -
    have ok: "queue_ok fo (fl_queue l1)" unfolding that(3) by (rule add_remover_ok [OF that(5,6)])
    note ih = Cons.IH [OF that(1) ok that(2)]
    have m: "moves V (?q, s) (fl_queue l1, s1)" unfolding that(3) by (rule moves_trans [OF that(4) add_remover_moves])
    have "covered V (fl_queue l1) s1 d rm" unfolding that(3) by (rule add_remover_covers)
    then have "moves V (fl_queue l1, s1) (fl_queue l', s') \<Longrightarrow> covered V (fl_queue l') s' d rm" by (simp add: moves_def)
    with ih m show ?thesis using moves_trans [OF m] by simp
  qed
  show ?case
  proof (cases "?N \<le> card (dom ?q)")
    case True
    obtain r s1 where f: "findMissingAndRemove fo ?q s = (r, s1)" by fastforce
    have "0 < card (dom ?q)" "card (dom ?q) \<le> ?N" using True pos Cons.prems(2) by (simp_all add: queue_ok_def)
    note k = findMissingAndRemove_moves [OF con f this]
    show ?thesis
    proof (cases r)
      case None
      with True f Cons.prems(1) have "queue_digests fo rm ds (l\<lparr>fl_savedErr := None, fl_queue := add_remover d rm Map.empty\<rparr>) s1 = (go, l', s')"
        by simp
      from rest [OF this, of Map.empty] show ?thesis using k None pos by simp
    next
      case (Some err)
      then show ?thesis using True f Cons.prems(1) by auto
    qed
  next
    case False
    with Cons.prems(1) have "queue_digests fo rm ds (l\<lparr>fl_queue := add_remover d rm ?q\<rparr>) s = (go, l', s')" by simp
    from rest [OF this, of ?q] show ?thesis using False Cons.prems(2,3) by (simp add: queue_ok_def)
  qed
qed

lemma remove_child_moves:
  assumes "filter_contract fo V digests" "remove_child fo rm msg args l s = (go, l', s')" "fl_savedErr l = None"
  shows "go = (fl_savedErr l' = None) \<and> (go \<longrightarrow> fl_queue l' = fl_queue l \<and> keeps V s s' \<and> gone V rm s')"
proof -
  obtain r s1 where rm: "fo_remove fo rm s = (r, s1)" by fastforce
  from contract_remove [OF assms(1) rm] assms(2,3) rm show ?thesis
    by (cases r) (auto simp: remove_child_def)
qed

lemma filter_child_moves:
  assumes con: "filter_contract fo V digests" and f: "filter_child fo df node rm (l, s) = (go, l', s')"
    and ok: "queue_ok fo (fl_queue l)" "fl_savedErr l = None"
  shows "go = (fl_savedErr l' = None) \<and>
    (go \<longrightarrow> queue_ok fo (fl_queue l') \<and> moves V (fl_queue l, s) (fl_queue l', s') \<and>
       settled fo V df (fl_queue l', s') (digests node) rm)"
proof -
  obtain r s1 where g: "fo_GetContainingDigests fo node s = (r, s1)" by fastforce
  have k: "keeps V s s1" "r = digests node" using contract_digests [OF con g] by simp_all
  then have m1: "moves V (fl_queue l, s) (fl_queue l, s1)" by (simp add: moves_keeps)
  have removed: ?thesis
    if "remove_child fo rm msg args l s1 = (go, l', s')" "gone V rm s' \<Longrightarrow> settled fo V df (fl_queue l', s') (digests node) rm" for msg args
    using remove_child_moves [OF con that(1) ok(2)] that(2) ok(1) moves_trans [OF m1 moves_keeps] by auto
  show ?thesis
  proof (cases r)
    case None
    then show ?thesis using f g k ok m1 by (auto simp: filter_child_def settled_def)
  next
    case (Some res)
    show ?thesis
    proof (cases res)
      case (Inl err)
      show ?thesis
      proof (cases "fo_Code fo err = NotFound")
        case True
        then have "remove_child fo rm ''Failed to remove non-existent directory'' [] l s1 = (go, l', s')"
          using f g Some Inl by (simp add: filter_child_def)
        moreover have "digests node = Some (Inl err)" using k(2) Some Inl by simp
        ultimately show ?thesis using True by (intro removed) (simp_all add: settled_def)
      next
        case False
        then show ?thesis using f g Some Inl by (auto simp: filter_child_def)
      qed
    next
      case (Inr ds)
      show ?thesis
      proof (cases "find (\<lambda>d. \<not> fo_UsesDigestFunction fo d df) ds")
        case None
        then have uses: "\<forall>d \<in> set ds. fo_UsesDigestFunction fo d df" by (auto simp: find_None_iff)
        have "queue_digests fo rm ds l s1 = (go, l', s')" using f g Some Inr None by (simp add: filter_child_def)
        note q = queue_digests_moves [OF con this ok]
        have "digests node = Some (Inr ds)" using k(2) Some Inr by simp
        then show ?thesis using q uses moves_trans [OF m1] by (simp add: settled_def)
      next
        case found: (Some d)
        have "remove_child fo rm ''Failed to remove file with different instance name or digest function with digest %#v''
            [FStr (fo_String fo d)] l s1 = (go, l', s')"
          using f g Some Inr found by (simp add: filter_child_def)
        moreover have "digests node = Some (Inr ds)" using k(2) Some Inr by simp
        ultimately show ?thesis by (intro removed) (simp_all add: settled_def)
      qed
    qed
  qed
qed

lemma visit_moves:
  assumes con: "filter_contract fo V digests"
  shows "visit nodes (filter_child fo df) (l, s) = (l', s') \<Longrightarrow> queue_ok fo (fl_queue l) \<Longrightarrow> fl_savedErr l = None \<Longrightarrow>
    fl_savedErr l' = None \<Longrightarrow>
    queue_ok fo (fl_queue l') \<and> moves V (fl_queue l, s) (fl_queue l', s') \<and>
       (\<forall>(node, rm) \<in> set nodes. settled fo V df (fl_queue l', s') (digests node) rm)"
proof (induction nodes arbitrary: l s)
  case Nil
  then show ?case by simp
next
  case (Cons nr nodes)
  obtain node rm where nr: "nr = (node, rm)" by fastforce
  obtain go l1 s1 where f: "filter_child fo df node rm (l, s) = (go, l1, s1)" by (metis prod_cases3)
  note k = filter_child_moves [OF con f Cons.prems(2,3)]
  have go using k Cons.prems(1,4) f nr by (cases go) auto
  then have v: "visit nodes (filter_child fo df) (l1, s1) = (l', s')" using Cons.prems(1) f nr by simp
  have l1: "queue_ok fo (fl_queue l1)" "fl_savedErr l1 = None" using k \<open>go\<close> by simp_all
  note ih = Cons.IH [OF v l1 Cons.prems(4)]
  have m: "moves V (fl_queue l, s) (fl_queue l1, s1)" "moves V (fl_queue l1, s1) (fl_queue l', s')"
    "settled fo V df (fl_queue l1, s1) (digests node) rm" using k ih \<open>go\<close> by simp_all
  have "settled fo V df (fl_queue l', s') (digests node) rm" by (rule settled_moves [OF m(2,3)])
  moreover have "moves V (fl_queue l, s) (fl_queue l', s')" by (rule moves_trans [OF m(1,2)])
  ultimately show ?case using ih nr by simp
qed

lemma filterMissingChildren_settles:
  assumes con: "filter_contract fo V digests" and tr: "traverses fo pd s nodes"
    and f: "filterMissingChildren fo pd df s = (None, s')"
  shows "\<forall>(node, rm) \<in> set nodes. settled fo V df (Map.empty, s') (digests node) rm"
proof -
  let ?l = "\<lparr>fl_queue = Map.empty, fl_savedErr = None\<rparr>"
  obtain k err where t: "fo_FilterChildren fo pd (filter_child fo df) (?l, s) = (err, visit (take k nodes) (filter_child fo df) (?l, s))"
    "err = None \<longrightarrow> length nodes \<le> k" using tr unfolding traverses_def by blast
  have err: "err = None" using f t(1) by (cases err) (auto simp: filterMissingChildren_def split: prod.splits)
  obtain l1 s1 where v: "visit nodes (filter_child fo df) (?l, s) = (l1, s1)" by fastforce
  then have t1: "fo_FilterChildren fo pd (filter_child fo df) (?l, s) = (None, l1, s1)" using t err by simp
  have saved: "fl_savedErr l1 = None" using f t1 by (auto simp: filterMissingChildren_def split: option.splits)
  have ok: "queue_ok fo (fl_queue ?l)" by (simp add: queue_ok_def)
  note vm = visit_moves [OF con v ok _ saved]
  show ?thesis
  proof (cases "0 < card (dom (fl_queue l1))")
    case True
    then have fm: "findMissingAndRemove fo (fl_queue l1) s1 = (None, s')"
      using f t1 saved by (simp add: filterMissingChildren_def)
    have "card (dom (fl_queue l1)) \<le> fo_RecommendedFindMissingDigestsCount fo" using vm by (simp add: queue_ok_def)
    then have "moves V (fl_queue l1, s1) (Map.empty, s')" using findMissingAndRemove_moves [OF con fm True] by simp
    from settled_moves [OF this] show ?thesis using vm by fastforce
  next
    case False
    then have "fl_queue l1 = Map.empty" using vm by (simp add: queue_ok_def)
    moreover have "s' = s1" using False f t1 saved by (simp add: filterMissingChildren_def)
    ultimately show ?thesis using vm by simp
  qed
qed

section \<open>StartBuild\<close>

text \<open>
  The request, and the calls that check it: resolving the output path prefix, joining the output
  base ID to it, making the virtual root, unmarshalling the arguments (the instance name and the
  digest function), and choosing the digest function. \<open>st_OnTerminal\<close> gives the joined output
  path, and its suffix as a UNIX string.
\<close>

record ('any, 'aliases) StartBuildRequest =
  OutputBaseId :: string
  BuildId :: string
  Args :: 'any
  OutputPathPrefix :: string
  OutputPathAliases :: 'aliases

record ('any, 'aliases, 'path, 'walker, 'sw, 'inst, 'enum, 'df) start_ops =
  st_ResolvePrefix :: "string \<Rightarrow> 'path result"
  st_OnRelative :: "'path \<Rightarrow> 'walker result"
  st_OnTerminal :: "'walker \<Rightarrow> string \<Rightarrow> ('path \<times> string) result"
  st_NewVirtualRootScopeWalkerFactory :: "'path \<Rightarrow> 'aliases \<Rightarrow> 'sw result"
  st_UnmarshalTo :: "'any \<Rightarrow> (string \<times> 'enum) result"
  st_NewInstanceName :: "string \<Rightarrow> 'inst result"
  st_GetDigestFunction :: "'inst \<Rightarrow> 'enum \<Rightarrow> nat \<Rightarrow> 'df result"

abbreviation wrap :: "string \<Rightarrow> fmt_arg list \<Rightarrow> 'a result \<Rightarrow> 'a result" where
  "wrap msg args r \<equiv> (case r of Inl err \<Rightarrow> Inl (StatusWrap (Some err) msg args) | Inr x \<Rightarrow> Inr x)"

definition result_bind :: "'a result \<Rightarrow> ('a \<Rightarrow> 'b result) \<Rightarrow> 'b result" where
  "result_bind r f = (case r of Inl err \<Rightarrow> Inl err | Inr x \<Rightarrow> f x)"

text \<open>Everything before the lock: the digest function, the scope walker factory and the suffix.\<close>

definition startBuild_prepare ::
    "('any, 'aliases, 'path, 'walker, 'sw, 'inst, 'enum, 'df) start_ops \<Rightarrow> (string \<Rightarrow> bool) \<Rightarrow>
     ('any, 'aliases) StartBuildRequest \<Rightarrow> ('df \<times> 'sw \<times> string) result" where
  "startBuild_prepare st newComponent request =
     result_bind (wrap ''Failed to resolve output path prefix'' [] (st_ResolvePrefix st (OutputPathPrefix request))) (\<lambda>prefix.
     if \<not> newComponent (OutputBaseId request)
     then Inl (Status InvalidArgument ''Output base ID is not a valid filename'' [])
     else
       result_bind (wrap ''Failed to resolve output path'' [] (st_OnRelative st prefix)) (\<lambda>componentWalker.
       result_bind (wrap ''Failed to resolve output path'' [] (st_OnTerminal st componentWalker (OutputBaseId request)))
         (\<lambda>(outputPath, outputPathSuffix).
       result_bind (st_NewVirtualRootScopeWalkerFactory st outputPath (OutputPathAliases request)) (\<lambda>scopeWalkerFactory.
       result_bind (wrap ''Failed to unmarshal start build arguments'' [] (st_UnmarshalTo st (Args request)))
         (\<lambda>(instance_name, digest_function).
       result_bind (wrap ''Failed to parse instance name %#v'' [FStr instance_name] (st_NewInstanceName st instance_name)) (\<lambda>inst.
       result_bind (st_GetDigestFunction st inst digest_function 0) (\<lambda>digestFunction.
         Inr (digestFunction, scopeWalkerFactory, outputPathSuffix))))))))"

text \<open>
  The whole call, without other requests between its parts: the response or the error, what was
  logged, and the states.
\<close>

definition bos_StartBuild ::
    "('s, 'op, 'dd, 'cf, 'df) service_ops \<Rightarrow> ('any, 'aliases, 'path, 'walker, 'sw, 'inst, 'enum, 'df) start_ops \<Rightarrow>
     ('s, 'd, 'df, 'node, 'rm, 'dd) filter_ops \<Rightarrow> ('any, 'aliases) StartBuildRequest \<Rightarrow>
     ('op, 'cf, 'df, 'sw) BazelOutputServiceDirectory \<Rightarrow> 's \<Rightarrow>
     (string result \<times> go_error list \<times> ('op, 'cf, 'df, 'sw) BazelOutputServiceDirectory \<times> 's) exec" where
  "bos_StartBuild so st fo request d s =
     (case startBuild_prepare st (so_NewComponent so) request of
        Inl err \<Rightarrow> Returns (Inl err, [], d, s)
      | Inr (digestFunction, scopeWalkerFactory, outputPathSuffix) \<Rightarrow>
          exec_bind (startBuild_locked so (BuildId request) (OutputBaseId request) digestFunction scopeWalkerFactory d s)
            (\<lambda>(a, log, d1, s1).
               case ops_rootDirectory (heap d1 a) of
                 None \<Rightarrow> Panics ''nil pointer dereference''
               | Some op \<Rightarrow>
                   (case filterMissingChildren fo (so_directory so op) digestFunction s1 of
                      (Some err, s2) \<Rightarrow>
                        Returns (Inl (StatusWrap (Some err) ''Failed to filter contents of the output path'' []), log, d1, s2)
                    | (None, s2) \<Rightarrow> Returns (Inr outputPathSuffix, log, d1, s2))))"

lemma bos_StartBuild_cases:
  assumes "bos_StartBuild so st fo request d s = Returns (r, log, d', s')"
  obtains (rejected) err where "startBuild_prepare st (so_NewComponent so) request = Inl err" "r = Inl err" "log = []" "d' = d" "s' = s"
  | (filtered) df sw suffix a op s1 res where "startBuild_prepare st (so_NewComponent so) request = Inr (df, sw, suffix)"
      "startBuild_locked so (BuildId request) (OutputBaseId request) df sw d s = Returns (a, log, d', s1)"
      "ops_rootDirectory (heap d' a) = Some op" "filterMissingChildren fo (so_directory so op) df s1 = (res, s')"
      "r = (case res of Some err \<Rightarrow> Inl (StatusWrap (Some err) ''Failed to filter contents of the output path'' [])
            | None \<Rightarrow> Inr suffix)"
proof (cases "startBuild_prepare st (so_NewComponent so) request")
  case (Inl err)
  then show ?thesis using assms rejected by (simp add: bos_StartBuild_def)
next
  case (Inr p)
  obtain df sw suffix where p: "p = (df, sw, suffix)" by (metis prod_cases3)
  obtain a log1 d1 s1 where l: "startBuild_locked so (BuildId request) (OutputBaseId request) df sw d s = Returns (a, log1, d1, s1)"
    using assms Inr p by (auto simp: bos_StartBuild_def)
  then obtain op where op: "ops_rootDirectory (heap d1 a) = Some op"
    using assms Inr p by (cases "ops_rootDirectory (heap d1 a)") (simp_all add: bos_StartBuild_def)
  obtain res s2 where f: "filterMissingChildren fo (so_directory so op) df s1 = (res, s2)" by fastforce
  have "log1 = log" "d1 = d'" "s2 = s'"
      "r = (case res of Some err \<Rightarrow> Inl (StatusWrap (Some err) ''Failed to filter contents of the output path'' [])
            | None \<Rightarrow> Inr suffix)"
    using assms Inr p l op f by (cases res; simp add: bos_StartBuild_def)+
  then show ?thesis using filtered Inr p l op f by blast
qed

lemma bos_StartBuild_Inr:
  assumes "bos_StartBuild so st fo request d s = Returns (Inr suffix, log, d', s')"
  shows "\<exists>df sw a op s1. startBuild_prepare st (so_NewComponent so) request = Inr (df, sw, suffix) \<and>
    startBuild_locked so (BuildId request) (OutputBaseId request) df sw d s = Returns (a, log, d', s1) \<and>
    ops_rootDirectory (heap d' a) = Some op \<and> filterMissingChildren fo (so_directory so op) df s1 = (None, s')"
  using assms by (cases rule: bos_StartBuild_cases) (auto split: option.splits)

lemma bos_StartBuild_Inl:
  assumes "bos_StartBuild so st fo request d s = Returns (Inl err, log, d', s')"
  shows "(startBuild_prepare st (so_NewComponent so) request = Inl err \<and> d' = d \<and> s' = s \<and> log = []) \<or>
    (\<exists>df sw suffix a s1 err1. startBuild_prepare st (so_NewComponent so) request = Inr (df, sw, suffix) \<and>
       startBuild_locked so (BuildId request) (OutputBaseId request) df sw d s = Returns (a, log, d', s1) \<and>
       err = StatusWrap (Some err1) ''Failed to filter contents of the output path'' [])"
  using assms by (cases rule: bos_StartBuild_cases) (auto split: option.splits)

lemma settled_at_end:
  "settled fo V df (Map.empty, s) digests rm \<longleftrightarrow>
     (case digests of
        None \<Rightarrow> True
      | Some (Inl err) \<Rightarrow> fo_Code fo err = NotFound \<and> gone V rm s
      | Some (Inr ds) \<Rightarrow> gone V rm s \<or> (\<forall>d \<in> set ds. fo_UsesDigestFunction fo d df \<and> safe V d s))"
  by (auto simp: settled_def covered_def split: option.split sum.split)

lemma start_build_checked:
  assumes "filter_contract fo V digests" "\<forall>pd s. traverses fo pd s (nodes pd s)"
    and inv: "bos_inv d as" and c: "changeID d + 1 \<noteq> 0"
    and start: "bos_StartBuild so st fo request d s = Returns (Inr suffix, log, d', s')"
  shows "\<exists>df sw a op s1. startBuild_prepare st (so_NewComponent so) request = Inr (df, sw, suffix) \<and>
    startBuild_locked so (BuildId request) (OutputBaseId request) df sw d s = Returns (a, log, d', s1) \<and>
    getOutputPathAndBuildState (BuildId request) d' = Inr (a, ops_buildState (heap d' a)) \<and>
    ops_rootDirectory (heap d' a) = Some op \<and>
    (\<forall>(node, rm) \<in> set (nodes (so_directory so op) s1).
       case digests node of
         None \<Rightarrow> True
       | Some (Inl err) \<Rightarrow> fo_Code fo err = NotFound \<and> gone V rm s'
       | Some (Inr ds) \<Rightarrow> gone V rm s' \<or> (\<forall>d \<in> set ds. fo_UsesDigestFunction fo d df \<and> safe V d s'))"
proof -
  obtain df sw a op s1 where p: "startBuild_prepare st (so_NewComponent so) request = Inr (df, sw, suffix)"
    and l: "startBuild_locked so (BuildId request) (OutputBaseId request) df sw d s = Returns (a, log, d', s1)"
    and op: "ops_rootDirectory (heap d' a) = Some op"
    and f: "filterMissingChildren fo (so_directory so op) df s1 = (None, s')"
    using bos_StartBuild_Inr [OF start] by blast
  have "\<forall>(node, rm) \<in> set (nodes (so_directory so op) s1). settled fo V df (Map.empty, s') (digests node) rm"
    using filterMissingChildren_settles [OF assms(1) _ f] assms(2) by blast
  note checked = this [unfolded settled_at_end]
  have "getOutputPathAndBuildState (BuildId request) d' = Inr (a, ops_buildState (heap d' a))"
    using start_outcome [OF inv c l] by blast
  then show ?thesis using p l op checked by (intro exI conjI)
qed

section \<open>Properties\<close>

text \<open>A world that counts removals, in which the storage has lost the digest 3.\<close>

definition demo_fo :: "(nat, nat, unit, nat, unit, nat) filter_ops" where
  "demo_fo = \<lparr>fo_FindMissing = (\<lambda>D s. (Inr (if 3 \<in> D then [3] else []), s)), fo_RecommendedFindMissingDigestsCount = 2,
     fo_FilterChildren = (\<lambda>pd f c. (None, visit [(7, ()), (8, ())] f c)), fo_remove = (\<lambda>rm s. (None, s + 2)),
     fo_GetContainingDigests = (\<lambda>node s. (if node = 7 then Some (Inr [3, 4, 5]) else None, s)),
     fo_UsesDigestFunction = (\<lambda>d df. True), fo_Code = (\<lambda>err. Unknown), fo_String = (\<lambda>d. '''')\<rparr>"

definition demo_view :: "(nat, nat, unit) filter_view" where
  "demo_view = \<lparr>gone = (\<lambda>rm s. 2 \<le> s), safe = (\<lambda>d s. d \<noteq> 3)\<rparr>"

definition demo_st :: "(unit, unit, unit, unit, unit, unit, unit, unit) start_ops" where
  "demo_st = \<lparr>st_ResolvePrefix = (\<lambda>p. Inr ()), st_OnRelative = (\<lambda>p. Inr ()), st_OnTerminal = (\<lambda>w n. Inr ((), n)),
     st_NewVirtualRootScopeWalkerFactory = (\<lambda>p al. Inr ()), st_UnmarshalTo = (\<lambda>a. Inr ('''', ())),
     st_NewInstanceName = (\<lambda>n. Inr ()), st_GetDigestFunction = (\<lambda>i e n. Inr ())\<rparr>"

definition demo_request :: "(unit, unit) StartBuildRequest" where
  "demo_request = \<lparr>OutputBaseId = ''x'', BuildId = ''c'', Args = (), OutputPathPrefix = ''/'', OutputPathAliases = ()\<rparr>"

text \<open>
  C9. After a \<^verbatim>\<open>StartBuild\<close> that succeeds, the build is registered with its output path,
  and nothing in there can disappear during the build: of every node the output path held when it
  was filtered, either the node depends on no digests, or it was removed, or each digest it
  depends on uses the build's digest function and was reported as present by the storage, which
  is only ever asked about at most the recommended number of digests at a time.
\<close>

theorem start_build_contents_present:
  assumes "filter_contract fo V digests" "\<forall>pd s. traverses fo pd s (nodes pd s)"
    and "reachable so n S" "Suc n < 2 ^ 64"
    and "bos_StartBuild so st fo request (sv_dir S) s = Returns (Inr suffix, log, d', s')"
  shows "\<exists>df sw a op s1. startBuild_prepare st (so_NewComponent so) request = Inr (df, sw, suffix) \<and>
    startBuild_locked so (BuildId request) (OutputBaseId request) df sw (sv_dir S) s = Returns (a, log, d', s1) \<and>
    getOutputPathAndBuildState (BuildId request) d' = Inr (a, ops_buildState (heap d' a)) \<and>
    ops_rootDirectory (heap d' a) = Some op \<and>
    (\<forall>(node, rm) \<in> set (nodes (so_directory so op) s1).
       case digests node of
         None \<Rightarrow> True
       | Some (Inl err) \<Rightarrow> fo_Code fo err = NotFound \<and> gone V rm s'
       | Some (Inr ds) \<Rightarrow> gone V rm s' \<or> (\<forall>d \<in> set ds. fo_UsesDigestFunction fo d df \<and> safe V d s'))"
proof -
  obtain as where as: "service_inv n S as" using reachable_inv [OF assms(3)] by blast
  then have inv: "bos_inv (sv_dir S) as" and c: "changeID (sv_dir S) + 1 \<noteq> 0"
    using no_wrap [OF _ assms(4)] by (simp_all add: service_inv_def)
  show ?thesis by (rule start_build_checked [OF assms(1,2) inv c assms(5)])
qed

lemma demo_contract: "filter_contract demo_fo demo_view (\<lambda>node. if node = 7 then Some (Inr [3, 4, 5]) else None)"
  by (auto simp: filter_contract_def remove_law_def find_law_def digests_law_def keeps_def demo_fo_def demo_view_def)

lemma demo_traverses: "traverses demo_fo pd s [(7, ()), (8, ())]"
  unfolding traverses_def by (intro allI exI [of _ 2] exI [of _ None]) (simp add: demo_fo_def)

theorem start_build_contents_present_witness:
  "\<exists>log d'. bos_StartBuild demo_so demo_st demo_fo demo_request demo_service_dir 1 = Returns (Inr ''x'', log, d', 3) \<and>
     buildIDs d' ''c'' \<noteq> None"
proof -
  have d: "outputBaseIDs demo_service_dir = [''x'' \<mapsto> 1]" "buildIDs demo_service_dir = [''b'' \<mapsto> 1]"
    "ops_rootDirectory (heap demo_service_dir 1) = Some 0"
    by (simp_all add: demo_service_dir_def insert_output_path_def NewBazelOutputServiceDirectory_def Let_def demo_bs_def sentinel_def)
  let ?d = "attach_build 1 (demo_bs ''c'') (detach_build 1 demo_service_dir)"
  have p: "startBuild_prepare demo_st (so_NewComponent demo_so) demo_request = Inr ((), (), ''x'')"
    by (simp add: startBuild_prepare_def demo_st_def demo_so_def demo_request_def result_bind_def)
  have l: "startBuild_locked demo_so ''c'' ''x'' () () demo_service_dir 1 = Returns (1, [], ?d, 1)"
    using d by (simp add: startBuild_locked_def demo_bs_def)
  have f: "filterMissingChildren demo_fo 0 () 1 = (None, 3)"
    by (simp add: filterMissingChildren_def demo_fo_def filter_child_def add_remover_def findMissingAndRemove_def)
  have s: "bos_StartBuild demo_so demo_st demo_fo demo_request (sv_dir demo_service) 1 = Returns (Inr ''x'', [], ?d, 3)"
    using p l f d by (simp add: bos_StartBuild_def demo_request_def demo_service_def) (simp add: demo_so_def)
  have "\<forall>pd s. traverses demo_fo pd s [(7, ()), (8, ())]" by (simp add: demo_traverses)
  from start_build_contents_present [OF demo_contract, of "\<lambda>pd s. [(7, ()), (8, ())]", OF this demo_reachable _ s]
  have "getOutputPathAndBuildState ''c'' ?d \<noteq> Inl e" for e by (auto simp: demo_request_def)
  then have "buildIDs ?d ''c'' \<noteq> None" by (cases "buildIDs ?d ''c''") (simp_all only: getOutputPathAndBuildState_def, auto)
  with s show ?thesis by (auto simp: demo_service_def)
qed

text \<open>
  C13. A \<^verbatim>\<open>StartBuild\<close> that fails has either changed nothing, because the request was
  rejected, or it failed to filter the output path, says so, and has left the build registered,
  so that a retry of the same build ID filters the same output path again.
\<close>

theorem start_build_errors:
  assumes "reachable so n S" "Suc n < 2 ^ 64"
    and "bos_StartBuild so st fo request (sv_dir S) s = Returns (Inl err, log, d', s')"
  shows "(startBuild_prepare st (so_NewComponent so) request = Inl err \<and> d' = sv_dir S \<and> s' = s \<and> log = []) \<or>
    (\<exists>err1 a. err = StatusWrap (Some err1) ''Failed to filter contents of the output path'' [] \<and>
       getOutputPathAndBuildState (BuildId request) d' = Inr (a, ops_buildState (heap d' a)) \<and>
       (\<forall>df sw w. startBuild_locked so (BuildId request) (OutputBaseId request) df sw d' w = Returns (a, [], d', w)))"
proof -
  obtain as where as: "service_inv n S as" using reachable_inv [OF assms(1)] by blast
  then have inv: "bos_inv (sv_dir S) as" and c: "changeID (sv_dir S) + 1 \<noteq> 0"
    using no_wrap [OF _ assms(2)] by (simp_all add: service_inv_def)
  have registered: "getOutputPathAndBuildState (BuildId request) d' = Inr (a, ops_buildState (heap d' a)) \<and>
       (\<forall>df sw w. startBuild_locked so (BuildId request) (OutputBaseId request) df sw d' w = Returns (a, [], d', w))"
    if "startBuild_locked so (BuildId request) (OutputBaseId request) df sw (sv_dir S) s = Returns (a, log, d', s1)" for df sw a s1
    using start_outcome [OF inv c that]
    by (auto simp: getOutputPathAndBuildState_def startBuild_locked_def split: option.splits)
  show ?thesis using bos_StartBuild_Inl [OF assms(3)] registered by blast
qed

theorem start_build_errors_witness:
  "\<exists>err. bos_StartBuild demo_so demo_st demo_fo (demo_request\<lparr>OutputBaseId := ''''\<rparr>) demo_service_dir 1 =
     Returns (Inl err, [], demo_service_dir, 1) \<and>
     startBuild_prepare demo_st (so_NewComponent demo_so) (demo_request\<lparr>OutputBaseId := ''''\<rparr>) = Inl err"
proof -
  let ?err = "Status InvalidArgument ''Output base ID is not a valid filename'' []"
  have s: "bos_StartBuild demo_so demo_st demo_fo (demo_request\<lparr>OutputBaseId := ''''\<rparr>) (sv_dir demo_service) 1 =
      Returns (Inl ?err, [], demo_service_dir, 1)"
    by (simp add: bos_StartBuild_def startBuild_prepare_def demo_st_def demo_so_def demo_request_def result_bind_def demo_service_def)
  have "startBuild_prepare demo_st (so_NewComponent demo_so) (demo_request\<lparr>OutputBaseId := ''''\<rparr>) = Inl ?err"
    using start_build_errors [OF demo_reachable _ s] by auto
  with s show ?thesis by (auto simp: demo_service_def)
qed

end
