(* ===== verification/Build_Artifacts.thy ===== *)
theory Build_Artifacts
  imports Build_Contents CAS_Factories
begin

text \<open>
  The calls of a running build (\<^verbatim>\<open>bazel_output_service_directory.go\<close>): creating files and
  directories in the output path (\<^verbatim>\<open>StageArtifacts\<close>) and looking at them
  (\<^verbatim>\<open>BatchStat\<close>), with the walkers that follow a path through the output path.
\<close>

section \<open>Directories of the output path\<close>

text \<open>The calls on the prepopulated directories of an output path and on their leaves.\<close>

datatype ('leaf, 'fetcher) InitialChild = InitialLeaf 'leaf | InitialDirectory 'fetcher

record ('s, 'dir, 'leaf, 'fetcher, 'df, 'target, 'stat) dir_ops =
  CreateAndEnterPrepopulatedDirectory :: "'dir \<Rightarrow> string \<Rightarrow> 's \<Rightarrow> 'dir result \<times> 's"
  CreateChildren :: "'dir \<Rightarrow> (string \<rightharpoonup> ('leaf, 'fetcher) InitialChild) \<Rightarrow> bool \<Rightarrow> 's \<Rightarrow> go_error option \<times> 's"
  LookupChild :: "'dir \<Rightarrow> string \<Rightarrow> 's \<Rightarrow> ('dir, 'leaf) DirectoryChild result \<times> 's"
  GetSymlinkTarget :: "'leaf \<Rightarrow> 's \<Rightarrow> 'target option \<times> 's"
  GetBazelOutputServiceStat :: "'leaf \<Rightarrow> 'df \<Rightarrow> 's \<Rightarrow> 'stat result option \<times> 's"

text \<open>\<^verbatim>\<open>util.NonEmptyStack\<close>; \<^verbatim>\<open>PopSingle\<close> says whether it took something off.\<close>

record ('st, 'dir) stack_ops =
  NewNonEmptyStack :: "'dir \<Rightarrow> 'st"
  Peek :: "'st \<Rightarrow> 'dir"
  Push :: "'dir \<Rightarrow> 'st \<Rightarrow> 'st"
  PopSingle :: "'st \<Rightarrow> bool \<times> 'st"
  PopAll :: "'st \<Rightarrow> 'st"

section \<open>Staging\<close>

text \<open>
  The walker that creates parent directories. \<open>'t\<close> is the embedded
  \<^verbatim>\<open>TerminalNameTrackingComponentWalker\<close>. A callback that returns no error goes on with the
  walker itself.
\<close>

record ('t, 'st) parentDirectoryCreatingComponentWalker =
  pdw_terminal :: 't
  pdw_stack :: 'st

definition creating_OnDirectory ::
    "('s, 'dir, 'leaf, 'fetcher, 'df, 'target, 'stat) dir_ops \<Rightarrow> ('st, 'dir) stack_ops \<Rightarrow> string \<Rightarrow>
     ('t, 'st) parentDirectoryCreatingComponentWalker \<times> 's \<Rightarrow>
     go_error option \<times> ('t, 'st) parentDirectoryCreatingComponentWalker \<times> 's" where
  "creating_OnDirectory D K name c =
     (case c of (cw, s) \<Rightarrow>
        (case CreateAndEnterPrepopulatedDirectory D (Peek K (pdw_stack cw)) name s of
           (Inl err, s1) \<Rightarrow> (Some err, cw, s1)
         | (Inr child, s1) \<Rightarrow> (None, cw\<lparr>pdw_stack := Push K child (pdw_stack cw)\<rparr>, s1)))"

definition creating_OnUp ::
    "('st, 'dir) stack_ops \<Rightarrow> ('t, 'st) parentDirectoryCreatingComponentWalker \<times> 's \<Rightarrow>
     go_error option \<times> ('t, 'st) parentDirectoryCreatingComponentWalker \<times> 's" where
  "creating_OnUp K c =
     (case c of (cw, s) \<Rightarrow>
        (case PopSingle K (pdw_stack cw) of (ok, st) \<Rightarrow>
           if \<not> ok
           then (Some (Status InvalidArgument ''Path resolves to a location outside the output path'' []), cw\<lparr>pdw_stack := st\<rparr>, s)
           else (None, cw\<lparr>pdw_stack := st\<rparr>, s)))"

text \<open>A walker as \<^verbatim>\<open>path.Resolve\<close> sees it.\<close>

record 'c component_walker =
  cw_OnDirectory :: "string \<Rightarrow> 'c \<Rightarrow> go_error option \<times> 'c"
  cw_OnTerminal :: "string \<Rightarrow> 'c \<Rightarrow> go_error option \<times> 'c"
  cw_OnUp :: "'c \<Rightarrow> go_error option \<times> 'c"

text \<open>
  Locators of artifacts, and the other calls staging makes. \<open>'proto\<close> is a digest message that
  may be nil.
\<close>

datatype 'proto locator =
    FileArtifactLocator 'proto
  | TreeArtifactLocator 'proto "'proto option"
  | UnknownLocator

record 'any artifact =
  ar_Path :: string
  ar_Locator :: 'any

record ('c, 't, 'leaf, 'fetcher, 'cf, 'df, 'd, 'proto, 'any) stage_ops =
  sg_ResolveRelative :: "string \<Rightarrow> 'c component_walker \<Rightarrow> 'c \<Rightarrow> go_error option \<times> 'c"
  sg_initial :: 't
  sg_OnTerminal :: "string \<Rightarrow> 't \<Rightarrow> go_error option \<times> 't"
  sg_TerminalName :: "'t \<Rightarrow> string option"
  sg_UnmarshalNew :: "'any \<Rightarrow> 'proto locator result"
  sg_NewDigestFromProto :: "'df \<Rightarrow> 'proto \<Rightarrow> 'd result"
  sg_GetSizeBytes :: "'d \<Rightarrow> int"
  sg_LookupFile :: "'cf \<Rightarrow> 'd \<Rightarrow> bool \<Rightarrow> 'leaf"
  sg_NewCASInitialContentsFetcher :: "'d treeDirectoryWalker \<Rightarrow> 'cf \<Rightarrow> 'df \<Rightarrow> 'fetcher"
  sg_directoryFetcher :: "'d DirectoryFetcher"
  sg_maximumTreeSizeBytes :: int

definition creating_walker ::
    "('s, 'dir, 'leaf, 'fetcher, 'df, 'target, 'stat) dir_ops \<Rightarrow> ('st, 'dir) stack_ops \<Rightarrow>
     (('t, 'st) parentDirectoryCreatingComponentWalker \<times> 's, 't, 'leaf, 'fetcher, 'cf, 'df, 'd, 'proto, 'any) stage_ops \<Rightarrow>
     (('t, 'st) parentDirectoryCreatingComponentWalker \<times> 's) component_walker" where
  "creating_walker D K G =
     \<lparr>cw_OnDirectory = creating_OnDirectory D K,
      cw_OnTerminal = (\<lambda>name c. case sg_OnTerminal G name (pdw_terminal (fst c)) of
         (err, t) \<Rightarrow> (err, (fst c)\<lparr>pdw_terminal := t\<rparr>, snd c)),
      cw_OnUp = creating_OnUp K\<rparr>"

text \<open>The child a locator stands for.\<close>

definition locate_child ::
    "('c, 't, 'leaf, 'fetcher, 'cf, 'df, 'd, 'proto, 'any) stage_ops \<Rightarrow> 'cf \<Rightarrow> ('df, 'sw) buildState \<Rightarrow> 'proto locator \<Rightarrow>
     ('leaf, 'fetcher) InitialChild result" where
  "locate_child G casFileFactory bs loc =
     (case loc of
        FileArtifactLocator digest \<Rightarrow>
          result_bind (wrap ''Invalid digest'' [] (sg_NewDigestFromProto G (bs_digestFunction bs) digest)) (\<lambda>childDigest.
            Inr (InitialLeaf (sg_LookupFile G casFileFactory childDigest True)))
      | TreeArtifactLocator treeDigest rootDirectoryDigest \<Rightarrow>
          result_bind (wrap ''Invalid tree digest'' [] (sg_NewDigestFromProto G (bs_digestFunction bs) treeDigest)) (\<lambda>childDigest.
            let sizeBytes = sg_GetSizeBytes G childDigest
            in if sizeBytes > sg_maximumTreeSizeBytes G
               then Inl (Status InvalidArgument ''Directory is %d bytes in size, which exceeds the permitted maximum of %d bytes''
                      [FInt sizeBytes, FInt (sg_maximumTreeSizeBytes G)])
               else
                 result_bind
                   (case rootDirectoryDigest of
                      None \<Rightarrow> Inr None
                    | Some r \<Rightarrow> result_bind (wrap ''Invalid root directory digest'' [] (sg_NewDigestFromProto G (bs_digestFunction bs) r))
                        (\<lambda>x. Inr (Some x)))
                   (\<lambda>rd. Inr (InitialDirectory (sg_NewCASInitialContentsFetcher G
                      (NewTreeDirectoryWalker (sg_directoryFetcher G) childDigest rd) casFileFactory (bs_digestFunction bs)))))
      | UnknownLocator \<Rightarrow> Inl (Status InvalidArgument ''Locator is of an unknown type'' []))"

definition stageSingleArtifact ::
    "('s, 'dir, 'leaf, 'fetcher, 'df, 'target, 'stat) dir_ops \<Rightarrow> ('st, 'dir) stack_ops \<Rightarrow>
     (('t, 'st) parentDirectoryCreatingComponentWalker \<times> 's, 't, 'leaf, 'fetcher, 'cf, 'df, 'd, 'proto, 'any) stage_ops \<Rightarrow>
     'any artifact \<Rightarrow> 'dir \<Rightarrow> 'cf \<Rightarrow> ('df, 'sw) buildState \<Rightarrow> 's \<Rightarrow> go_error option \<times> 's" where
  "stageSingleArtifact D K G artifact rootDirectory casFileFactory bs s =
     (case sg_ResolveRelative G (ar_Path artifact) (creating_walker D K G)
             (\<lparr>pdw_terminal = sg_initial G, pdw_stack = NewNonEmptyStack K rootDirectory\<rparr>, s) of
        (Some err, cw, s1) \<Rightarrow> (Some (StatusWrap (Some err) ''Failed to resolve path'' []), s1)
      | (None, cw, s1) \<Rightarrow>
          (case sg_TerminalName G (pdw_terminal cw) of
             None \<Rightarrow> (Some (Status InvalidArgument ''Path resolves to a directory'' []), s1)
           | Some name \<Rightarrow>
               (case sg_UnmarshalNew G (ar_Locator artifact) of
                  Inl err \<Rightarrow> (Some (StatusWrapWithCode err InvalidArgument ''Failed to unmarshal locator''), s1)
                | Inr loc \<Rightarrow>
                    (case locate_child G casFileFactory bs loc of
                       Inl err \<Rightarrow> (Some err, s1)
                     | Inr child \<Rightarrow> CreateChildren D (Peek K (pdw_stack cw)) [name \<mapsto> child] True s1))))"

text \<open>
  Artifacts are staged one after the other, whether or not earlier ones failed; a response is
  the status of one artifact.
\<close>

fun stage_each :: "('a \<Rightarrow> 's \<Rightarrow> go_error option \<times> 's) \<Rightarrow> 'a list \<Rightarrow> 's \<Rightarrow> go_error option list \<times> 's" where
  "stage_each stage [] s = ([], s)"
| "stage_each stage (artifact # artifacts) s =
     (case stage artifact s of (err, s1) \<Rightarrow>
        case stage_each stage artifacts s1 of (responses, s2) \<Rightarrow> (err # responses, s2))"

definition bos_StageArtifacts ::
    "('s, 'op, 'dir, 'cf, 'df) service_ops \<Rightarrow> ('s, 'dir, 'leaf, 'fetcher, 'df, 'target, 'stat) dir_ops \<Rightarrow> ('st, 'dir) stack_ops \<Rightarrow>
     (('t, 'st) parentDirectoryCreatingComponentWalker \<times> 's, 't, 'leaf, 'fetcher, 'cf, 'df, 'd, 'proto, 'any) stage_ops \<Rightarrow>
     string \<Rightarrow> 'any artifact list \<Rightarrow> ('op, 'cf, 'df, 'sw) BazelOutputServiceDirectory \<Rightarrow> 's \<Rightarrow>
     (go_error option list result \<times> 's) exec" where
  "bos_StageArtifacts so D K G buildId artifacts d s =
     (case getOutputPathAndBuildState buildId d of
        Inl err \<Rightarrow> Returns (Inl err, s)
      | Inr (a, mbs) \<Rightarrow>
          (case (ops_rootDirectory (heap d a), ops_casFileFactory (heap d a), mbs) of
             (Some op, Some cf, Some bs) \<Rightarrow>
               (case stage_each (\<lambda>artifact. stageSingleArtifact D K G artifact (so_directory so op) cf bs) artifacts s of
                  (responses, s1) \<Rightarrow> Returns (Inr responses, s1))
           | _ \<Rightarrow> if artifacts = [] then Returns (Inr [], s) else Panics ''nil pointer dereference''))"

section \<open>Stat calls\<close>

text \<open>A \<^verbatim>\<open>BatchStatResponse_Stat\<close>: empty, of a directory, or what a leaf says.\<close>

datatype 'stat bstat = EmptyStat | DirectoryStat | LeafStat 'stat

record ('st, 'stat) statWalker =
  stw_stack :: 'st
  stw_stat :: "'stat bstat"

datatype 'target got = GotDirectory | GotSymlink 'target

definition stat_OnRelative :: "('st, 'stat) statWalker \<times> 's \<Rightarrow> ('st, 'stat) statWalker \<times> 's" where
  "stat_OnRelative c = (case c of (cw, s) \<Rightarrow> (cw\<lparr>stw_stat := DirectoryStat\<rparr>, s))"

definition stat_OnAbsolute :: "('st, 'dir) stack_ops \<Rightarrow> ('st, 'stat) statWalker \<times> 's \<Rightarrow> ('st, 'stat) statWalker \<times> 's" where
  "stat_OnAbsolute K c = (case c of (cw, s) \<Rightarrow> stat_OnRelative (cw\<lparr>stw_stack := PopAll K (stw_stack cw)\<rparr>, s))"

definition stat_OnDriveLetter :: go_error where
  "stat_OnDriveLetter = Status Unimplemented ''Drive letters not supported'' []"

definition stat_OnShare :: go_error where
  "stat_OnShare = Status Unimplemented ''Shares not supported'' []"

definition stat_OnDirectory ::
    "('s, 'dir, 'leaf, 'fetcher, 'df, 'target, 'stat) dir_ops \<Rightarrow> ('st, 'dir) stack_ops \<Rightarrow> string \<Rightarrow>
     ('st, 'stat) statWalker \<times> 's \<Rightarrow> 'target got result \<times> ('st, 'stat) statWalker \<times> 's" where
  "stat_OnDirectory D K name c =
     (case c of (cw, s) \<Rightarrow>
        (case LookupChild D (Peek K (stw_stack cw)) name s of
           (Inl err, s1) \<Rightarrow> (Inl err, cw, s1)
         | (Inr (FromDirectory directory), s1) \<Rightarrow>
             (Inr GotDirectory, cw\<lparr>stw_stack := Push K directory (stw_stack cw)\<rparr>, s1)
         | (Inr (FromLeaf leaf), s1) \<Rightarrow>
             (case GetSymlinkTarget D leaf s1 of
                (None, s2) \<Rightarrow> (Inl (Errno ENOTDIR), cw, s2)
              | (Some target, s2) \<Rightarrow> (Inr (GotSymlink target), cw\<lparr>stw_stat := EmptyStat\<rparr>, s2))))"

definition stat_OnTerminal ::
    "('s, 'dir, 'leaf, 'fetcher, 'df, 'target, 'stat) dir_ops \<Rightarrow> ('st, 'dir) stack_ops \<Rightarrow> 'df \<Rightarrow> string \<Rightarrow>
     ('st, 'stat) statWalker \<times> 's \<Rightarrow> (go_error option \<times> ('st, 'stat) statWalker \<times> 's) exec" where
  "stat_OnTerminal D K digestFunction name c =
     (case c of (cw, s) \<Rightarrow>
        (case LookupChild D (Peek K (stw_stack cw)) name s of
           (Inl err, s1) \<Rightarrow> Returns (Some err, cw, s1)
         | (Inr (FromDirectory directory), s1) \<Rightarrow>
             Returns (None, cw\<lparr>stw_stack := Push K directory (stw_stack cw)\<rparr>, s1)
         | (Inr (FromLeaf leaf), s1) \<Rightarrow>
             (case GetBazelOutputServiceStat D leaf digestFunction s1 of
                (None, s2) \<Rightarrow> Panics ''output path contains leaves that don't support ApplyGetBazelOutputServiceStat''
              | (Some (Inl err), s2) \<Rightarrow> Returns (Some err, cw, s2)
              | (Some (Inr stat), s2) \<Rightarrow> Returns (None, cw\<lparr>stw_stat := LeafStat stat\<rparr>, s2))))"

text \<open>Going up from the root goes on with \<^verbatim>\<open>VoidComponentWalker\<close>, which the first result says.\<close>

definition stat_OnUp ::
    "('st, 'dir) stack_ops \<Rightarrow> ('st, 'stat) statWalker \<times> 's \<Rightarrow> bool \<times> ('st, 'stat) statWalker \<times> 's" where
  "stat_OnUp K c =
     (case c of (cw, s) \<Rightarrow>
        (case PopSingle K (stw_stack cw) of (ok, st) \<Rightarrow>
           if \<not> ok then (True, cw\<lparr>stw_stack := st, stw_stat := EmptyStat\<rparr>, s) else (False, cw\<lparr>stw_stack := st\<rparr>, s)))"

text \<open>A scope walker and component walker as \<^verbatim>\<open>path.Resolve\<close> sees it, with the walkers wrapped around it.\<close>

record ('c, 'target) scope_walker =
  sc_OnAbsolute :: "'c \<Rightarrow> 'c"
  sc_OnRelative :: "'c \<Rightarrow> 'c"
  sc_OnDriveLetter :: go_error
  sc_OnShare :: go_error
  sc_OnDirectory :: "string \<Rightarrow> 'c \<Rightarrow> 'target got result \<times> 'c"
  sc_OnTerminal :: "string \<Rightarrow> 'c \<Rightarrow> (go_error option \<times> 'c) exec"
  sc_OnUp :: "'c \<Rightarrow> bool \<times> 'c"

definition stat_walker ::
    "('s, 'dir, 'leaf, 'fetcher, 'df, 'target, 'stat) dir_ops \<Rightarrow> ('st, 'dir) stack_ops \<Rightarrow> 'df \<Rightarrow>
     (('st, 'stat) statWalker \<times> 's, 'target) scope_walker" where
  "stat_walker D K digestFunction =
     \<lparr>sc_OnAbsolute = stat_OnAbsolute K, sc_OnRelative = stat_OnRelative, sc_OnDriveLetter = stat_OnDriveLetter,
      sc_OnShare = stat_OnShare, sc_OnDirectory = stat_OnDirectory D K, sc_OnTerminal = stat_OnTerminal D K digestFunction,
      sc_OnUp = stat_OnUp K\<rparr>"

text \<open>
  Resolving a path below the virtual root of the build, with loop detection: the error, the path
  that was resolved, and the walker's state.
\<close>

type_synonym ('c, 'target, 'sw) stat_resolver =
  "'sw \<Rightarrow> string \<Rightarrow> ('c, 'target) scope_walker \<Rightarrow> 'c \<Rightarrow> (go_error option \<times> string \<times> 'c) exec"

fun batch_stat_loop ::
    "('s, 'dir, 'leaf, 'fetcher, 'df, 'target, 'stat) dir_ops \<Rightarrow> ('st, 'dir) stack_ops \<Rightarrow>
     (('st, 'stat) statWalker \<times> 's, 'target, 'sw) stat_resolver \<Rightarrow> 'dir \<Rightarrow> ('df, 'sw) buildState \<Rightarrow>
     string list \<Rightarrow> 's \<Rightarrow> ('stat bstat option list result \<times> 's) exec" where
  "batch_stat_loop D K resolve rootDirectory bs [] s = Returns (Inr [], s)"
| "batch_stat_loop D K resolve rootDirectory bs (statPath # paths) s =
     exec_bind (resolve (bs_scopeWalkerFactory bs) statPath (stat_walker D K (bs_digestFunction bs))
         (\<lparr>stw_stack = NewNonEmptyStack K rootDirectory, stw_stat = EmptyStat\<rparr>, s)) (\<lambda>(err, resolvedPath, cw, s1).
       if err \<noteq> None \<and> err \<noteq> Some (Errno ENOENT)
       then Returns (Inl (StatusWrap err ''Failed to resolve path %#v beyond %#v'' [FStr statPath, FStr resolvedPath]), s1)
       else exec_bind (batch_stat_loop D K resolve rootDirectory bs paths s1) (\<lambda>(r, s2).
         Returns (result_bind r (\<lambda>responses. Inr ((if err = None then Some (stw_stat cw) else None) # responses)), s2)))"

definition bos_BatchStat ::
    "('s, 'op, 'dir, 'cf, 'df) service_ops \<Rightarrow> ('s, 'dir, 'leaf, 'fetcher, 'df, 'target, 'stat) dir_ops \<Rightarrow> ('st, 'dir) stack_ops \<Rightarrow>
     (('st, 'stat) statWalker \<times> 's, 'target, 'sw) stat_resolver \<Rightarrow> string \<Rightarrow> string list \<Rightarrow>
     ('op, 'cf, 'df, 'sw) BazelOutputServiceDirectory \<Rightarrow> 's \<Rightarrow> ('stat bstat option list result \<times> 's) exec" where
  "bos_BatchStat so D K resolve buildId paths d s =
     (case getOutputPathAndBuildState buildId d of
        Inl err \<Rightarrow> Returns (Inl err, s)
      | Inr (a, mbs) \<Rightarrow>
          (case (ops_rootDirectory (heap d a), mbs) of
             (Some op, Some bs) \<Rightarrow> batch_stat_loop D K resolve (so_directory so op) bs paths s
           | _ \<Rightarrow> if paths = [] then Returns (Inr [], s) else Panics ''nil pointer dereference''))"

text \<open>\<^verbatim>\<open>FinalizeArtifacts\<close> accepts every request, and \<^verbatim>\<open>VirtualApply\<close> supports nothing.\<close>

definition bos_FinalizeArtifacts :: "unit result" where
  "bos_FinalizeArtifacts = Inr ()"

definition bos_VirtualApply :: "'data \<Rightarrow> bool" where
  "bos_VirtualApply data = False"

section \<open>What the calls promise\<close>

text \<open>A non-empty stack: its contents with the bottom first.\<close>

definition stack_law :: "('st, 'dir) stack_ops \<Rightarrow> ('st \<Rightarrow> 'dir list) \<Rightarrow> bool" where
  "stack_law K contents \<longleftrightarrow>
     (\<forall>p. contents (NewNonEmptyStack K p) = [p]) \<and>
     (\<forall>st. contents st \<noteq> [] \<and> Peek K st = last (contents st)) \<and>
     (\<forall>p st. contents (Push K p st) = contents st @ [p]) \<and>
     (\<forall>st. fst (PopSingle K st) = (1 < length (contents st)) \<and>
        contents (snd (PopSingle K st)) = (if 1 < length (contents st) then butlast (contents st) else contents st)) \<and>
     (\<forall>st. contents (PopAll K st) = [hd (contents st)])"

text \<open>
  \<^verbatim>\<open>path.Resolve\<close> acts through the callbacks of its walker only: it calls them for some
  components of the path, and an error of one of them ends it with an error.
\<close>

datatype path_event = EnterDir string | Final string | GoUp

fun walker_event :: "'c component_walker \<Rightarrow> path_event \<Rightarrow> 'c \<Rightarrow> go_error option \<times> 'c" where
  "walker_event w (EnterDir n) c = cw_OnDirectory w n c"
| "walker_event w (Final n) c = cw_OnTerminal w n c"
| "walker_event w GoUp c = cw_OnUp w c"

fun run_walker :: "'c component_walker \<Rightarrow> path_event list \<Rightarrow> 'c \<Rightarrow> go_error option \<times> 'c" where
  "run_walker w [] c = (None, c)"
| "run_walker w (e # es) c =
     (case walker_event w e c of
        (Some err, c') \<Rightarrow> (Some err, c')
      | (None, c') \<Rightarrow> run_walker w es c')"

definition resolves_through :: "(string \<Rightarrow> 'c component_walker \<Rightarrow> 'c \<Rightarrow> go_error option \<times> 'c) \<Rightarrow> bool" where
  "resolves_through resolve \<longleftrightarrow>
     (\<forall>p w c. \<exists>es err. resolve p w c = (err, snd (run_walker w es c)) \<and> (fst (run_walker w es c) \<noteq> None \<longrightarrow> err \<noteq> None))"

datatype scope_event = Absolute | Relative | Component path_event

fun scope_step :: "('c, 'target) scope_walker \<Rightarrow> scope_event \<Rightarrow> 'c \<Rightarrow> (go_error option \<times> 'c) exec" where
  "scope_step w Absolute c = Returns (None, sc_OnAbsolute w c)"
| "scope_step w Relative c = Returns (None, sc_OnRelative w c)"
| "scope_step w (Component (EnterDir n)) c =
     (case sc_OnDirectory w n c of (r, c') \<Rightarrow> Returns (case r of Inl err \<Rightarrow> Some err | Inr got \<Rightarrow> None, c'))"
| "scope_step w (Component (Final n)) c = sc_OnTerminal w n c"
| "scope_step w (Component GoUp) c = Returns (None, snd (sc_OnUp w c))"

fun run_scope :: "('c, 'target) scope_walker \<Rightarrow> scope_event list \<Rightarrow> 'c \<Rightarrow> (go_error option \<times> 'c) exec" where
  "run_scope w [] c = Returns (None, c)"
| "run_scope w (e # es) c =
     exec_bind (scope_step w e c) (\<lambda>(err, c'). if err = None then run_scope w es c' else Returns (err, c'))"

definition stats_through :: "('c, 'target, 'sw) stat_resolver \<Rightarrow> bool" where
  "stats_through resolve \<longleftrightarrow>
     (\<forall>sw p w c. \<exists>es err path. resolve sw p w c = exec_bind (run_scope w es c) (\<lambda>(e, c'). Returns (if e = None then err else e, path, c')))"

section \<open>Staying inside the output path\<close>

text \<open>The directories that can be reached from the root of the output path, without going up.\<close>

inductive inside :: "('s, 'dir, 'leaf, 'fetcher, 'df, 'target, 'stat) dir_ops \<Rightarrow> 'dir \<Rightarrow> 'dir \<Rightarrow> bool" for D root where
  inside_root: "inside D root root"
| inside_created: "inside D root p \<Longrightarrow> CreateAndEnterPrepopulatedDirectory D p n s = (Inr c, s') \<Longrightarrow> inside D root c"
| inside_child: "inside D root p \<Longrightarrow> LookupChild D p n s = (Inr (FromDirectory c), s') \<Longrightarrow> inside D root c"

text \<open>
  \<open>ok s s'\<close>: going from \<open>s\<close> to \<open>s'\<close> changes nothing but what is inside the output path. Every call
  on a directory inside it, and on a leaf found in one, is like that.
\<close>

definition quiet :: "('s, 'dir, 'leaf, 'fetcher, 'df, 'target, 'stat) dir_ops \<Rightarrow> ('s \<Rightarrow> 's \<Rightarrow> bool) \<Rightarrow> 'dir \<Rightarrow> bool" where
  "quiet D ok p \<longleftrightarrow>
     (\<forall>n s. ok s (snd (CreateAndEnterPrepopulatedDirectory D p n s))) \<and>
     (\<forall>m b s. ok s (snd (CreateChildren D p m b s))) \<and>
     (\<forall>n s. ok s (snd (LookupChild D p n s)))"

definition quiet_leaf :: "('s, 'dir, 'leaf, 'fetcher, 'df, 'target, 'stat) dir_ops \<Rightarrow> ('s \<Rightarrow> 's \<Rightarrow> bool) \<Rightarrow> 'leaf \<Rightarrow> bool" where
  "quiet_leaf D ok leaf \<longleftrightarrow>
     (\<forall>s. ok s (snd (GetSymlinkTarget D leaf s))) \<and> (\<forall>df s. ok s (snd (GetBazelOutputServiceStat D leaf df s)))"

definition effects_within ::
    "('s, 'dir, 'leaf, 'fetcher, 'df, 'target, 'stat) dir_ops \<Rightarrow> 'dir \<Rightarrow> ('s \<Rightarrow> 's \<Rightarrow> bool) \<Rightarrow> bool" where
  "effects_within D root ok \<longleftrightarrow> reflp ok \<and> transp ok \<and>
     (\<forall>p. inside D root p \<longrightarrow> quiet D ok p \<and>
        (\<forall>n s leaf s'. LookupChild D p n s = (Inr (FromLeaf leaf), s') \<longrightarrow> quiet_leaf D ok leaf))"

lemma within_trans: "effects_within D root ok \<Longrightarrow> ok a b \<Longrightarrow> ok b c \<Longrightarrow> ok a c"
  unfolding effects_within_def by (elim conjE) (erule transpE)

lemma within_refl: "effects_within D root ok \<Longrightarrow> ok a a"
  unfolding effects_within_def by (elim conjE) (erule reflpD)

lemma within_quiet: "effects_within D root ok \<Longrightarrow> inside D root p \<Longrightarrow> quiet D ok p"
  by (simp add: effects_within_def)

lemma quiet_sel:
  assumes "quiet D ok p"
  shows "ok s (snd (CreateAndEnterPrepopulatedDirectory D p n s))" "ok s (snd (CreateChildren D p m b s))"
    "ok s (snd (LookupChild D p n s))"
  using assms by (simp_all add: quiet_def)

lemma within_create:
  assumes "effects_within D root ok" "inside D root p" "CreateAndEnterPrepopulatedDirectory D p n s = (r, s')"
  shows "ok s s'"
  using quiet_sel(1) [OF within_quiet [OF assms(1,2)], of s n] assms(3) by simp

lemma within_children:
  assumes "effects_within D root ok" "inside D root p" "CreateChildren D p m b s = (r, s')"
  shows "ok s s'"
  using quiet_sel(2) [OF within_quiet [OF assms(1,2)], of s m b] assms(3) by simp

lemma within_lookup:
  assumes "effects_within D root ok" "inside D root p" "LookupChild D p n s = (r, s')"
  shows "ok s s'"
  using quiet_sel(3) [OF within_quiet [OF assms(1,2)], of s n] assms(3) by simp

lemma within_leaf:
  assumes "effects_within D root ok" "inside D root p" "LookupChild D p n s = (Inr (FromLeaf leaf), s')"
  shows "ok s1 (snd (GetSymlinkTarget D leaf s1))" "ok s1 (snd (GetBazelOutputServiceStat D leaf df s1))"
proof -
  have "\<forall>n s leaf s'. LookupChild D p n s = (Inr (FromLeaf leaf), s') \<longrightarrow> quiet_leaf D ok leaf"
    using assms(1,2) by (simp add: effects_within_def)
  with assms(3) have "quiet_leaf D ok leaf" by blast
  then show "ok s1 (snd (GetSymlinkTarget D leaf s1))" "ok s1 (snd (GetBazelOutputServiceStat D leaf df s1))"
    by (simp_all add: quiet_leaf_def)
qed

lemma stack_New: "stack_law K contents \<Longrightarrow> contents (NewNonEmptyStack K p) = [p]"
  by (simp add: stack_law_def)

lemma stack_Push: "stack_law K contents \<Longrightarrow> contents (Push K p st) = contents st @ [p]"
  by (simp add: stack_law_def)

lemma stack_Peek: "stack_law K contents \<Longrightarrow> Peek K st \<in> set (contents st)"
  by (simp add: stack_law_def)

lemma stack_PopSingle: "stack_law K contents \<Longrightarrow> PopSingle K st = (b, st') \<Longrightarrow> set (contents st') \<subseteq> set (contents st)"
proof -
  assume law: "stack_law K contents" and pop: "PopSingle K st = (b, st')"
  have "contents (snd (PopSingle K st)) = (if 1 < length (contents st) then butlast (contents st) else contents st)"
    using law by (simp add: stack_law_def)
  then show ?thesis using pop by (auto dest: in_set_butlastD)
qed

lemma stack_PopAll: "stack_law K contents \<Longrightarrow> set (contents (PopAll K st)) \<subseteq> set (contents st)"
  by (simp add: stack_law_def)

text \<open>The walkers only ever hold directories inside the output path.\<close>

definition confined ::
    "('s, 'dir, 'leaf, 'fetcher, 'df, 'target, 'stat) dir_ops \<Rightarrow> 'dir \<Rightarrow> ('s \<Rightarrow> 's \<Rightarrow> bool) \<Rightarrow> ('st \<Rightarrow> 'dir list) \<Rightarrow> 's \<Rightarrow> 'st \<Rightarrow> 's \<Rightarrow> bool" where
  "confined D root ok contents s0 st s \<longleftrightarrow> (\<forall>p \<in> set (contents st). inside D root p) \<and> ok s0 s"

lemma confined_Peek: "stack_law K contents \<Longrightarrow> confined D root ok contents s0 st s \<Longrightarrow> inside D root (Peek K st)"
  using stack_Peek unfolding confined_def by fast

lemma confined_start: "stack_law K contents \<Longrightarrow> effects_within D root ok \<Longrightarrow> confined D root ok contents s (NewNonEmptyStack K root) s"
  by (simp add: confined_def within_refl inside_root stack_New [of K contents])

lemma creating_event_confined:
  assumes K: "stack_law K contents" and D: "effects_within D root ok"
    and c: "confined D root ok contents s0 (pdw_stack cw) s"
    and e: "walker_event (creating_walker D K G) e (cw, s) = (err, cw', s')"
  shows "confined D root ok contents s0 (pdw_stack cw') s'"
proof (cases e)
  case (EnterDir n)
  have p: "inside D root (Peek K (pdw_stack cw))" by (rule confined_Peek [OF K c])
  obtain r s1 where r: "CreateAndEnterPrepopulatedDirectory D (Peek K (pdw_stack cw)) n s = (r, s1)" by fastforce
  have ok: "ok s0 s1" using c within_trans [OF D _ within_create [OF D p r]] by (simp add: confined_def)
  show ?thesis
  proof (cases r)
    case (Inl err)
    with e EnterDir r ok c show ?thesis by (auto simp: creating_walker_def creating_OnDirectory_def confined_def)
  next
    case (Inr child)
    then have "inside D root child" using inside_created [OF p] r by blast
    with Inr e EnterDir r ok c show ?thesis
      by (auto simp: creating_walker_def creating_OnDirectory_def confined_def stack_Push [OF K])
  qed
next
  case (Final n)
  with e c show ?thesis by (auto simp: creating_walker_def split: prod.splits)
next
  case GoUp
  obtain b st where "PopSingle K (pdw_stack cw) = (b, st)" by fastforce
  with stack_PopSingle [OF K this] e c GoUp show ?thesis
    by (auto simp: creating_walker_def creating_OnUp_def confined_def split: if_splits)
qed

lemma run_creating_confined:
  assumes K: "stack_law K contents" and D: "effects_within D root ok"
  shows "run_walker (creating_walker D K G) es (cw, s) = (err, cw', s') \<Longrightarrow>
    confined D root ok contents s0 (pdw_stack cw) s \<Longrightarrow> confined D root ok contents s0 (pdw_stack cw') s'"
proof (induction es arbitrary: cw s)
  case Nil
  then show ?case by simp
next
  case (Cons e es)
  obtain r cw1 s1 where r: "walker_event (creating_walker D K G) e (cw, s) = (r, cw1, s1)" by (metis prod_cases3)
  note c = creating_event_confined [OF K D Cons.prems(2) r]
  show ?case
  proof (cases r)
    case None
    with r Cons.prems(1) have "run_walker (creating_walker D K G) es (cw1, s1) = (err, cw', s')" by simp
    then show ?thesis using Cons.IH c by blast
  next
    case (Some e)
    with r c Cons.prems(1) show ?thesis by auto
  qed
qed

text \<open>The directories the path goes through, and the state after creating them.\<close>

fun walk_dirs ::
    "('s, 'dir, 'leaf, 'fetcher, 'df, 'target, 'stat) dir_ops \<Rightarrow> path_event list \<Rightarrow> 'dir list \<Rightarrow> 's \<Rightarrow> ('dir list \<times> 's) option" where
  "walk_dirs D [] ds s = Some (ds, s)"
| "walk_dirs D (EnterDir n # es) ds s =
     (case CreateAndEnterPrepopulatedDirectory D (last ds) n s of
        (Inl err, s1) \<Rightarrow> None
      | (Inr child, s1) \<Rightarrow> walk_dirs D es (ds @ [child]) s1)"
| "walk_dirs D (Final n # es) ds s = walk_dirs D es ds s"
| "walk_dirs D (GoUp # es) ds s = (if 1 < length ds then walk_dirs D es (butlast ds) s else None)"

lemma stack_Peek_last: "stack_law K contents \<Longrightarrow> Peek K st = last (contents st)"
  by (simp add: stack_law_def)

lemma stack_PopSingle_cases:
  "stack_law K contents \<Longrightarrow> PopSingle K st = (b, st') \<Longrightarrow>
   b = (1 < length (contents st)) \<and> (b \<longrightarrow> contents st' = butlast (contents st))"
  unfolding stack_law_def by (metis fst_conv snd_conv)

lemma run_creating_walk:
  assumes K: "stack_law K contents"
  shows "run_walker (creating_walker D K G) es (cw, s) = (None, cw', s') \<Longrightarrow>
    walk_dirs D es (contents (pdw_stack cw)) s = Some (contents (pdw_stack cw'), s')"
proof (induction es arbitrary: cw s)
  case Nil
  then show ?case by simp
next
  case (Cons e es)
  obtain r cw1 s1 where r: "walker_event (creating_walker D K G) e (cw, s) = (r, cw1, s1)" by (metis prod_cases3)
  with Cons.prems have n: "r = None" "run_walker (creating_walker D K G) es (cw1, s1) = (None, cw', s')"
    by (auto split: option.splits)
  note ih = Cons.IH [OF n(2)]
  show ?case
  proof (cases e)
    case (EnterDir m)
    obtain x s2 where x: "CreateAndEnterPrepopulatedDirectory D (Peek K (pdw_stack cw)) m s = (x, s2)" by fastforce
    with r n(1) EnterDir obtain c where "x = Inr c" "contents (pdw_stack cw1) = contents (pdw_stack cw) @ [c]" "s1 = s2"
      by (cases x) (auto simp: creating_walker_def creating_OnDirectory_def stack_Push [OF K])
    with x ih EnterDir show ?thesis by (simp add: stack_Peek_last [OF K])
  next
    case (Final m)
    with r ih show ?thesis by (auto simp: creating_walker_def split: prod.splits)
  next
    case GoUp
    obtain b st where b: "PopSingle K (pdw_stack cw) = (b, st)" by fastforce
    with r n(1) GoUp have "b" "cw1 = cw\<lparr>pdw_stack := st\<rparr>" "s1 = s"
      by (auto simp: creating_walker_def creating_OnUp_def split: if_splits)
    with ih GoUp stack_PopSingle_cases [OF K b] show ?thesis by simp
  qed
qed

lemma locate_child_Inr:
  assumes "locate_child G cf bs loc = Inr child"
  shows "case child of
      InitialLeaf leaf \<Rightarrow> \<exists>digest d. loc = FileArtifactLocator digest \<and> sg_NewDigestFromProto G (bs_digestFunction bs) digest = Inr d \<and>
        leaf = sg_LookupFile G cf d True
    | InitialDirectory fetcher \<Rightarrow> \<exists>treeDigest r d rd. loc = TreeArtifactLocator treeDigest r \<and>
        sg_NewDigestFromProto G (bs_digestFunction bs) treeDigest = Inr d \<and> sg_GetSizeBytes G d \<le> sg_maximumTreeSizeBytes G \<and>
        (case r of None \<Rightarrow> rd = None
         | Some rootDigest \<Rightarrow> \<exists>e. sg_NewDigestFromProto G (bs_digestFunction bs) rootDigest = Inr e \<and> rd = Some e) \<and>
        fetcher = sg_NewCASInitialContentsFetcher G (NewTreeDirectoryWalker (sg_directoryFetcher G) d rd) cf (bs_digestFunction bs)"
proof (cases loc)
  case (TreeArtifactLocator treeDigest r)
  show ?thesis
  proof (cases r)
    case None
    with assms TreeArtifactLocator show ?thesis
      by (auto simp: locate_child_def result_bind_def Let_def simp del: NewTreeDirectoryWalker.simps split: sum.splits if_splits)
  next
    case (Some x)
    with assms TreeArtifactLocator obtain d e where "sg_NewDigestFromProto G (bs_digestFunction bs) treeDigest = Inr d"
      "sg_GetSizeBytes G d \<le> sg_maximumTreeSizeBytes G" "sg_NewDigestFromProto G (bs_digestFunction bs) x = Inr e"
      "child = InitialDirectory (sg_NewCASInitialContentsFetcher G
         (NewTreeDirectoryWalker (sg_directoryFetcher G) d (Some e)) cf (bs_digestFunction bs))"
      by (auto simp: locate_child_def result_bind_def Let_def simp del: NewTreeDirectoryWalker.simps split: sum.splits if_splits)
    with Some TreeArtifactLocator show ?thesis
      by (simp del: NewTreeDirectoryWalker.simps)
  qed
qed (use assms in \<open>auto simp: locate_child_def result_bind_def split: sum.splits\<close>)

section \<open>Staging artifacts\<close>

lemma resolve_confined:
  assumes K: "stack_law K contents" and D: "effects_within D root ok" and R: "resolves_through (sg_ResolveRelative G)"
    and r: "sg_ResolveRelative G path (creating_walker D K G) (\<lparr>pdw_terminal = t, pdw_stack = NewNonEmptyStack K root\<rparr>, s) = (err, cw, s1)"
  shows "confined D root ok contents s (pdw_stack cw) s1 \<and>
    (err = None \<longrightarrow> (\<exists>es. run_walker (creating_walker D K G) es (\<lparr>pdw_terminal = t, pdw_stack = NewNonEmptyStack K root\<rparr>, s) = (None, cw, s1) \<and>
       walk_dirs D es [root] s = Some (contents (pdw_stack cw), s1)))"
proof -
  let ?w = "creating_walker D K G" and ?c = "(\<lparr>pdw_terminal = t, pdw_stack = NewNonEmptyStack K root\<rparr>, s)"
  obtain es err' where e: "sg_ResolveRelative G path ?w ?c = (err', snd (run_walker ?w es ?c))"
    "fst (run_walker ?w es ?c) \<noteq> None \<longrightarrow> err' \<noteq> None"
    using R unfolding resolves_through_def by blast
  then have run: "run_walker ?w es ?c = (fst (run_walker ?w es ?c), cw, s1)" using r by (simp add: prod_eq_iff)
  have "confined D root ok contents s (pdw_stack cw) s1"
    using run_creating_confined [OF K D run] confined_start [OF K D] by simp
  moreover have "run_walker ?w es ?c = (None, cw, s1)" if "err = None"
    using that e run r by (metis prod.inject)
  ultimately show ?thesis
    using run_creating_walk [OF K, of D G es "fst ?c" s cw s1] by (auto simp: stack_New [OF K])
qed

lemma stage_single:
  assumes K: "stack_law K contents" and D: "effects_within D root ok" and R: "resolves_through (sg_ResolveRelative G)"
    and st: "stageSingleArtifact D K G artifact root cf bs s = (err, s')"
  shows "ok s s' \<and> (err = None \<longrightarrow> (\<exists>es dirs cw name loc child s1.
    sg_ResolveRelative G (ar_Path artifact) (creating_walker D K G)
      (\<lparr>pdw_terminal = sg_initial G, pdw_stack = NewNonEmptyStack K root\<rparr>, s) = (None, cw, s1) \<and>
    run_walker (creating_walker D K G) es (\<lparr>pdw_terminal = sg_initial G, pdw_stack = NewNonEmptyStack K root\<rparr>, s) = (None, cw, s1) \<and>
    walk_dirs D es [root] s = Some (dirs, s1) \<and> inside D root (last dirs) \<and> ok s s1 \<and>
    sg_TerminalName G (pdw_terminal cw) = Some name \<and>
    sg_UnmarshalNew G (ar_Locator artifact) = Inr loc \<and> locate_child G cf bs loc = Inr child \<and>
    CreateChildren D (last dirs) [name \<mapsto> child] True s1 = (None, s')))"
proof -
  obtain err1 cw s1 where r: "sg_ResolveRelative G (ar_Path artifact) (creating_walker D K G)
      (\<lparr>pdw_terminal = sg_initial G, pdw_stack = NewNonEmptyStack K root\<rparr>, s) = (err1, cw, s1)" by (metis prod_cases3)
  note rc = resolve_confined [OF K D R r]
  then have ok: "ok s s1" by (simp add: confined_def)
  have p: "inside D root (Peek K (pdw_stack cw))" by (rule confined_Peek [OF K conjunct1 [OF rc]])
  consider (fails) "err \<noteq> None" "s' = s1"
    | (creates) name loc child where "err1 = None" "sg_TerminalName G (pdw_terminal cw) = Some name"
        "sg_UnmarshalNew G (ar_Locator artifact) = Inr loc" "locate_child G cf bs loc = Inr child"
        "CreateChildren D (Peek K (pdw_stack cw)) [name \<mapsto> child] True s1 = (err, s')"
    using st r by (auto simp: stageSingleArtifact_def split: option.splits sum.splits)
  then show ?thesis
  proof cases
    case fails
    with ok show ?thesis by auto
  next
    case creates
    have "ok s1 s'" by (rule within_children [OF D p creates(5)])
    with ok have "ok s s'" by (rule within_trans [OF D])
    with creates ok p r rc stack_Peek_last [OF K, of "pdw_stack cw"] show ?thesis by auto
  qed
qed

lemma stage_each_within:
  assumes "\<And>a s err s'. stage a s = (err, s') \<Longrightarrow> ok s s'" "\<And>s. ok s s" "\<And>a b c. ok a b \<Longrightarrow> ok b c \<Longrightarrow> ok a c"
  shows "stage_each stage artifacts s = (responses, s') \<Longrightarrow> length responses = length artifacts \<and> ok s s'"
proof (induction artifacts arbitrary: s responses)
  case Nil
  then show ?case using assms(2) by auto
next
  case (Cons a as)
  obtain err s1 where 1: "stage a s = (err, s1)" by fastforce
  obtain rs where 2: "stage_each stage as s1 = (rs, s')" "responses = err # rs"
    using Cons.prems 1 by (auto split: prod.splits)
  with Cons.IH [OF 2(1)] assms(3) [OF assms(1) [OF 1]] show ?case by simp
qed

lemma known_build:
  assumes "reachable so n S" "getOutputPathAndBuildState b (sv_dir S) = Inr (a, mbs)"
  shows "\<exists>bs op cf. mbs = Some bs \<and> bs_id bs = b \<and> ops_rootDirectory (heap (sv_dir S) a) = Some op \<and>
    ops_casFileFactory (heap (sv_dir S) a) = Some cf"
proof -
  obtain as where "service_inv n S as" using reachable_inv [OF assms(1)] by blast
  then have inv: "bos_inv (sv_dir S) as" by (simp add: service_inv_def)
  show ?thesis using assms(2) buildIDs_complete [OF inv, of b a]
    by (auto simp: getOutputPathAndBuildState_def split: option.splits)
qed

lemma stage_artifacts:
  assumes "reachable so n S" and b: "getOutputPathAndBuildState b (sv_dir S) = Inr (a, mbs)"
    and op: "ops_rootDirectory (heap (sv_dir S) a) = Some op"
    and K: "stack_law K contents" and R: "resolves_through (sg_ResolveRelative G)" and D: "effects_within D (so_directory so op) ok"
  shows "\<exists>responses s'. bos_StageArtifacts so D K G b artifacts (sv_dir S) s = Returns (Inr responses, s') \<and>
    length responses = length artifacts \<and> ok s s'"
proof -
  obtain bs cf where k: "mbs = Some bs" "ops_casFileFactory (heap (sv_dir S) a) = Some cf"
    using known_build [OF assms(1) b] by blast
  let ?stage = "\<lambda>artifact. stageSingleArtifact D K G artifact (so_directory so op) cf bs"
  obtain responses s' where s: "stage_each ?stage artifacts s = (responses, s')" by fastforce
  have "length responses = length artifacts \<and> ok s s'"
    by (rule stage_each_within [OF _ _ _ s])
      (use stage_single [OF K D R] in blast, rule within_refl [OF D], erule within_trans [OF D])
  then show ?thesis using b op k s by (simp add: bos_StageArtifacts_def)
qed

section \<open>Batches of stat calls\<close>

lemma scope_step_confined:
  assumes K: "stack_law K contents" and D: "effects_within D root ok"
    and c: "confined D root ok contents s0 (stw_stack cw) s"
    and e: "scope_step (stat_walker D K df) e (cw, s) = Returns (err, cw', s')"
  shows "confined D root ok contents s0 (stw_stack cw') s'"
proof (cases e)
  case Absolute
  with e c stack_PopAll [OF K, of "stw_stack cw"] show ?thesis
    by (auto simp: stat_walker_def stat_OnAbsolute_def stat_OnRelative_def confined_def)
next
  case Relative
  with e c show ?thesis by (auto simp: stat_walker_def stat_OnRelative_def confined_def)
next
  case (Component pe)
  have p: "inside D root (Peek K (stw_stack cw))" by (rule confined_Peek [OF K c])
  have looked: "confined D root ok contents s0 (stw_stack cw) s1 \<and>
      (\<forall>dir. r = Inr (FromDirectory dir) \<longrightarrow> confined D root ok contents s0 (Push K dir (stw_stack cw)) s1) \<and>
      (\<forall>leaf. r = Inr (FromLeaf leaf) \<longrightarrow>
         (\<forall>x s2. GetSymlinkTarget D leaf s1 = (x, s2) \<longrightarrow> confined D root ok contents s0 (stw_stack cw) s2) \<and>
         (\<forall>x s2. GetBazelOutputServiceStat D leaf df s1 = (x, s2) \<longrightarrow> confined D root ok contents s0 (stw_stack cw) s2))"
    if l: "LookupChild D (Peek K (stw_stack cw)) n s = (r, s1)" for n r s1
  proof -
    have ok: "ok s0 s1" using c within_trans [OF D _ within_lookup [OF D p l]] by (simp add: confined_def)
    have leaf: "ok s0 (snd (GetSymlinkTarget D leaf s1)) \<and> ok s0 (snd (GetBazelOutputServiceStat D leaf df s1))"
      if "r = Inr (FromLeaf leaf)" for leaf
    proof -
      have L: "LookupChild D (Peek K (stw_stack cw)) n s = (Inr (FromLeaf leaf), s1)" using l that by simp
      show ?thesis
        using within_trans [OF D ok within_leaf(1) [OF D p L]] within_trans [OF D ok within_leaf(2) [OF D p L]] by blast
    qed
    have dir: "inside D root dir" if "r = Inr (FromDirectory dir)" for dir
      using inside_child [OF p] l that by blast
    show ?thesis
    proof (intro conjI allI impI)
      show "confined D root ok contents s0 (stw_stack cw) s1" using ok c by (simp add: confined_def)
      show "confined D root ok contents s0 (Push K dir (stw_stack cw)) s1" if "r = Inr (FromDirectory dir)" for dir
        using ok c dir [OF that] by (auto simp: confined_def stack_Push [OF K])
      fix leaf x s2
      assume "r = Inr (FromLeaf leaf)"
      from leaf [OF this] c show "GetSymlinkTarget D leaf s1 = (x, s2) \<Longrightarrow> confined D root ok contents s0 (stw_stack cw) s2"
        "GetBazelOutputServiceStat D leaf df s1 = (x', s2) \<Longrightarrow> confined D root ok contents s0 (stw_stack cw) s2" for x'
        by (simp_all add: confined_def)
    qed
  qed
  show ?thesis
  proof (cases pe)
    case (EnterDir n)
    obtain r s1 where l: "LookupChild D (Peek K (stw_stack cw)) n s = (r, s1)" by fastforce
    note k = looked [OF l]
    show ?thesis
      using e Component EnterDir l k
      by (cases r) (auto simp: stat_walker_def stat_OnDirectory_def split: DirectoryChild.splits option.splits prod.splits)
  next
    case (Final n)
    obtain r s1 where l: "LookupChild D (Peek K (stw_stack cw)) n s = (r, s1)" by fastforce
    note k = looked [OF l]
    show ?thesis
      using e Component Final l k
      by (cases r) (auto simp: stat_walker_def stat_OnTerminal_def split: DirectoryChild.splits option.splits sum.splits prod.splits)
  next
    case GoUp
    obtain b st where "PopSingle K (stw_stack cw) = (b, st)" by fastforce
    with stack_PopSingle [OF K this] e c Component GoUp show ?thesis
      by (auto simp: stat_walker_def stat_OnUp_def confined_def split: if_splits)
  qed
qed

lemma run_scope_confined:
  assumes K: "stack_law K contents" and D: "effects_within D root ok"
  shows "run_scope (stat_walker D K df) es (cw, s) = Returns (err, cw', s') \<Longrightarrow>
    confined D root ok contents s0 (stw_stack cw) s \<Longrightarrow> confined D root ok contents s0 (stw_stack cw') s'"
proof (induction es arbitrary: cw s)
  case Nil
  then show ?case by simp
next
  case (Cons e es)
  obtain r cw1 s1 where r: "scope_step (stat_walker D K df) e (cw, s) = Returns (r, cw1, s1)"
    using Cons.prems(1) by auto
  note c = scope_step_confined [OF K D Cons.prems(2) r]
  show ?case
  proof (cases "r = None")
    case True
    with r Cons.prems(1) have "run_scope (stat_walker D K df) es (cw1, s1) = Returns (err, cw', s')" by simp
    then show ?thesis using Cons.IH c by blast
  next
    case False
    with r c Cons.prems(1) show ?thesis by simp
  qed
qed

lemma batch_stat_loop_within:
  assumes K: "stack_law K contents" and D: "effects_within D root ok" and R: "stats_through resolve"
  shows "batch_stat_loop D K resolve root bs paths s = Returns (r, s') \<Longrightarrow>
    ok s s' \<and> (\<forall>responses. r = Inr responses \<longrightarrow> length responses = length paths)"
proof (induction paths arbitrary: s r)
  case Nil
  then show ?case using within_refl [OF D] by auto
next
  case (Cons p paths)
  let ?w = "stat_walker D K (bs_digestFunction bs)"
  let ?c = "(\<lparr>stw_stack = NewNonEmptyStack K root, stw_stat = EmptyStat\<rparr>, s)"
  obtain err path cw s1 where res: "resolve (bs_scopeWalkerFactory bs) p ?w ?c = Returns (err, path, cw, s1)"
    using Cons.prems by auto
  obtain es err' path' where "resolve (bs_scopeWalkerFactory bs) p ?w ?c =
      exec_bind (run_scope ?w es ?c) (\<lambda>(e, c'). Returns (if e = None then err' else e, path', c'))"
    using R unfolding stats_through_def by blast
  with res have "exec_bind (run_scope ?w es ?c) (\<lambda>(e, c'). Returns (if e = None then err' else e, path', c')) = Returns (err, path, cw, s1)"
    by simp
  then obtain e where "run_scope ?w es ?c = Returns (e, cw, s1)" by (cases "run_scope ?w es ?c") auto
  from run_scope_confined [OF K D this] have ok: "ok s s1"
    using confined_start [OF K D, of s] by (simp add: confined_def)
  show ?case
  proof (cases "err \<noteq> None \<and> err \<noteq> Some (Errno ENOENT)")
    case True
    with Cons.prems res ok show ?thesis by auto
  next
    case False
    then obtain r2 where rest: "batch_stat_loop D K resolve root bs paths s1 = Returns (r2, s')"
      "r = result_bind r2 (\<lambda>responses. Inr ((if err = None then Some (stw_stat cw) else None) # responses))"
      using Cons.prems res by auto
    have ih: "ok s1 s' \<and> (\<forall>responses. r2 = Inr responses \<longrightarrow> length responses = length paths)" by (rule Cons.IH [OF rest(1)])
    then have "ok s s'" using within_trans [OF D ok] by blast
    then show ?thesis using rest(2) ih by (cases r2) (auto simp: result_bind_def)
  qed
qed

lemma batch_stat:
  assumes "reachable so n S" and b: "getOutputPathAndBuildState b (sv_dir S) = Inr (a, mbs)"
    and op: "ops_rootDirectory (heap (sv_dir S) a) = Some op"
    and K: "stack_law K contents" and R: "stats_through resolve" and D: "effects_within D (so_directory so op) ok"
    and "bos_BatchStat so D K resolve b paths (sv_dir S) s = Returns (r, s')"
  shows "ok s s' \<and> (\<forall>responses. r = Inr responses \<longrightarrow> length responses = length paths)"
proof -
  obtain bs where k: "mbs = Some bs" using known_build [OF assms(1) b] by blast
  show ?thesis by (rule batch_stat_loop_within [OF K D R]) (use assms(7) b op k in \<open>simp add: bos_BatchStat_def\<close>)
qed

section \<open>Properties\<close>

text \<open>An output path of numbered directories, stacks as a bottom and the rest, and two resolvers.\<close>

definition demo_D :: "(nat, nat, nat, nat, unit, nat, nat) dir_ops" where
  "demo_D = \<lparr>CreateAndEnterPrepopulatedDirectory = (\<lambda>p n s. (Inr (p + 1), s)), CreateChildren = (\<lambda>p m b s. (None, s + 1)),
     LookupChild = (\<lambda>p n s. (Inr (FromLeaf 5), s)), GetSymlinkTarget = (\<lambda>leaf s. (None, s)),
     GetBazelOutputServiceStat = (\<lambda>leaf df s. (Some (Inr 9), s))\<rparr>"

definition demo_K :: "(nat \<times> nat list, nat) stack_ops" where
  "demo_K = \<lparr>NewNonEmptyStack = (\<lambda>p. (p, [])), Peek = (\<lambda>(b, r). case r of [] \<Rightarrow> b | x # xs \<Rightarrow> x),
     Push = (\<lambda>p (b, r). (b, p # r)), PopSingle = (\<lambda>(b, r). case r of [] \<Rightarrow> (False, (b, [])) | x # xs \<Rightarrow> (True, (b, xs))),
     PopAll = (\<lambda>(b, r). (b, []))\<rparr>"

definition demo_contents :: "nat \<times> nat list \<Rightarrow> nat list" where
  "demo_contents st = fst st # rev (snd st)"

type_synonym demo_creating = "(string option, nat \<times> nat list) parentDirectoryCreatingComponentWalker \<times> nat"

definition demo_fetch :: "nat DirectoryFetcher" where
  "demo_fetch = \<lparr>GetDirectory = (\<lambda>d. Inl EOF), GetTreeRootDirectory = (\<lambda>d. Inl EOF), GetTreeChildDirectory = (\<lambda>t d. Inl EOF)\<rparr>"

definition demo_G :: "(demo_creating, string option, nat, nat, unit, unit, nat, nat, bool) stage_ops" where
  "demo_G = \<lparr>sg_ResolveRelative = (\<lambda>p w c. run_walker w [EnterDir ''d'', Final p] c), sg_initial = None,
     sg_OnTerminal = (\<lambda>n t. (None, Some n)), sg_TerminalName = (\<lambda>t. t),
     sg_UnmarshalNew = (\<lambda>b. Inr (if b then FileArtifactLocator 3 else TreeArtifactLocator 20 None)),
     sg_NewDigestFromProto = (\<lambda>df p. Inr p), sg_GetSizeBytes = int, sg_LookupFile = (\<lambda>cf d x. d),
     sg_NewCASInitialContentsFetcher = (\<lambda>w cf df. 0), sg_directoryFetcher = demo_fetch, sg_maximumTreeSizeBytes = 10\<rparr>"

definition demo_resolve :: "((nat \<times> nat list, nat) statWalker \<times> nat, nat, unit) stat_resolver" where
  "demo_resolve sw p w c =
     exec_bind (run_scope w [Relative, Component (Final p)] c) (\<lambda>(e, c'). Returns (if e = None then None else e, p, c'))"

lemma demo_stack: "stack_law demo_K demo_contents"
  by (auto simp: stack_law_def demo_K_def demo_contents_def split: list.splits)

lemma demo_within: "effects_within demo_D root (\<le>)"
  by (auto simp: effects_within_def quiet_def quiet_leaf_def demo_D_def reflp_def intro!: transpI)

lemma demo_through: "resolves_through (sg_ResolveRelative demo_G)"
  unfolding resolves_through_def demo_G_def by (metis (no_types) prod.collapse stage_ops.select_convs(1))

lemma demo_stats: "stats_through demo_resolve"
  unfolding stats_through_def demo_resolve_def by blast

lemma demo_known: "getOutputPathAndBuildState ''b'' (sv_dir demo_service) = Inr (1, Some (demo_bs ''b''))"
  "ops_rootDirectory (heap (sv_dir demo_service) 1) = Some 0" "ops_casFileFactory (heap (sv_dir demo_service) 1) = Some ()"
  by (simp_all add: demo_service_def demo_service_dir_def getOutputPathAndBuildState_def insert_output_path_def
      NewBazelOutputServiceDirectory_def Let_def demo_bs_def sentinel_def)

text \<open>
  C10. Staging artifacts answers every artifact and stays inside the output path: for a build that
  is running in a reachable state \<^verbatim>\<open>StageArtifacts\<close> returns one response per artifact,
  whatever their paths, and changes nothing that calls on directories below the root of the
  build's output path leave alone, although paths may contain \<^verbatim>\<open>..\<close> components.
\<close>

theorem stage_stays_inside:
  assumes "reachable so n S" and "getOutputPathAndBuildState b (sv_dir S) = Inr (a, mbs)"
    and "ops_rootDirectory (heap (sv_dir S) a) = Some op"
    and "stack_law K contents" and "resolves_through (sg_ResolveRelative G)" and "effects_within D (so_directory so op) ok"
  shows "\<exists>responses s'. bos_StageArtifacts so D K G b artifacts (sv_dir S) s = Returns (Inr responses, s') \<and>
    length responses = length artifacts \<and> ok s s'"
  by (rule stage_artifacts [OF assms])

theorem stage_stays_inside_witness:
  "\<exists>responses s'. bos_StageArtifacts demo_so demo_D demo_K demo_G ''b''
       [\<lparr>ar_Path = ''x'', ar_Locator = True\<rparr>, \<lparr>ar_Path = ''y'', ar_Locator = False\<rparr>] (sv_dir demo_service) 1 =
     Returns (Inr responses, s') \<and> length responses = 2 \<and> 1 \<le> s'"
  using stage_stays_inside [OF demo_reachable demo_known(1,2) demo_stack demo_through demo_within,
      of "[\<lparr>ar_Path = ''x'', ar_Locator = True\<rparr>, \<lparr>ar_Path = ''y'', ar_Locator = False\<rparr>]" 1] by (simp add: numeral_2_eq_2)

text \<open>
  C11. An artifact whose staging reports success was created as requested. The last call was a
  \<^verbatim>\<open>CreateChildren\<close> that succeeded, on the directory that the components of the artifact's
  path lead to: starting from the root of the output path, each directory component was created
  and entered, and each \<^verbatim>\<open>..\<close> went back one directory that the path had entered before, never
  above the root. Its one child, which replaces what was there, has the terminal name that
  resolving the artifact's path gives, and is the executable file of the file locator's digest,
  or the directory of the tree locator's digest, which is no larger than permitted, starting at
  its root directory digest when there is one.
\<close>

theorem staged_artifact_created:
  assumes "stack_law K contents" and "effects_within D root ok" and "resolves_through (sg_ResolveRelative G)"
    and "stageSingleArtifact D K G artifact root cf bs s = (None, s')"
  shows "\<exists>es dirs cw name loc child s1.
    sg_ResolveRelative G (ar_Path artifact) (creating_walker D K G)
      (\<lparr>pdw_terminal = sg_initial G, pdw_stack = NewNonEmptyStack K root\<rparr>, s) = (None, cw, s1) \<and>
    run_walker (creating_walker D K G) es (\<lparr>pdw_terminal = sg_initial G, pdw_stack = NewNonEmptyStack K root\<rparr>, s) = (None, cw, s1) \<and>
    walk_dirs D es [root] s = Some (dirs, s1) \<and> inside D root (last dirs) \<and> ok s s1 \<and>
    sg_TerminalName G (pdw_terminal cw) = Some name \<and>
    CreateChildren D (last dirs) [name \<mapsto> child] True s1 = (None, s') \<and>
    sg_UnmarshalNew G (ar_Locator artifact) = Inr loc \<and>
    (case child of
       InitialLeaf leaf \<Rightarrow> \<exists>digest d. loc = FileArtifactLocator digest \<and>
         sg_NewDigestFromProto G (bs_digestFunction bs) digest = Inr d \<and> leaf = sg_LookupFile G cf d True
     | InitialDirectory fetcher \<Rightarrow> \<exists>treeDigest r d rd. loc = TreeArtifactLocator treeDigest r \<and>
         sg_NewDigestFromProto G (bs_digestFunction bs) treeDigest = Inr d \<and> sg_GetSizeBytes G d \<le> sg_maximumTreeSizeBytes G \<and>
         (case r of None \<Rightarrow> rd = None
          | Some rootDigest \<Rightarrow> \<exists>e. sg_NewDigestFromProto G (bs_digestFunction bs) rootDigest = Inr e \<and> rd = Some e) \<and>
         fetcher = sg_NewCASInitialContentsFetcher G (NewTreeDirectoryWalker (sg_directoryFetcher G) d rd) cf (bs_digestFunction bs))"
proof -
  obtain es dirs cw name loc child s1 where c:
    "sg_ResolveRelative G (ar_Path artifact) (creating_walker D K G)
      (\<lparr>pdw_terminal = sg_initial G, pdw_stack = NewNonEmptyStack K root\<rparr>, s) = (None, cw, s1)"
    "run_walker (creating_walker D K G) es (\<lparr>pdw_terminal = sg_initial G, pdw_stack = NewNonEmptyStack K root\<rparr>, s) = (None, cw, s1)"
    "walk_dirs D es [root] s = Some (dirs, s1)" "inside D root (last dirs)" "ok s s1"
    "sg_TerminalName G (pdw_terminal cw) = Some name" "CreateChildren D (last dirs) [name \<mapsto> child] True s1 = (None, s')"
    "sg_UnmarshalNew G (ar_Locator artifact) = Inr loc" and l: "locate_child G cf bs loc = Inr child"
    using stage_single [OF assms] by blast
  show ?thesis by (intro exI conjI) (rule c, rule c, rule c, rule c, rule c, rule c, rule c, rule c, rule locate_child_Inr [OF l])
qed

theorem staged_artifact_created_witness:
  "stageSingleArtifact demo_D demo_K demo_G \<lparr>ar_Path = ''x'', ar_Locator = True\<rparr> 0 () (demo_bs ''b'') 1 = (None, 2) \<and>
   (\<exists>dirs name child s1. inside demo_D 0 (last dirs) \<and> CreateChildren demo_D (last dirs) [name \<mapsto> child] True s1 = (None, 2))"
proof -
  have s: "stageSingleArtifact demo_D demo_K demo_G \<lparr>ar_Path = ''x'', ar_Locator = True\<rparr> 0 () (demo_bs ''b'') 1 = (None, 2)"
    by (simp add: stageSingleArtifact_def demo_G_def creating_walker_def creating_OnDirectory_def demo_D_def demo_K_def
        locate_child_def result_bind_def)
  from staged_artifact_created [OF demo_stack demo_within demo_through s]
  have "\<exists>dirs name child s1. inside demo_D 0 (last dirs) \<and> CreateChildren demo_D (last dirs) [name \<mapsto> child] True s1 = (None, 2)"
    by (elim exE conjE) (intro exI conjI)
  with s show ?thesis ..
qed

text \<open>
  C12. A batch of stat calls answers every path and only looks inside the output path: when
  \<^verbatim>\<open>BatchStat\<close> on a running build succeeds it returns one response per path, and it has
  changed nothing that lookups of directories below the root of the output path, and calls on
  the leaves found there, leave alone; symbolic links and \<^verbatim>\<open>..\<close> do not lead out of it.
\<close>

theorem batch_stat_stays_inside:
  assumes "reachable so n S" and "getOutputPathAndBuildState b (sv_dir S) = Inr (a, mbs)"
    and "ops_rootDirectory (heap (sv_dir S) a) = Some op"
    and "stack_law K contents" and "stats_through resolve" and "effects_within D (so_directory so op) ok"
    and "bos_BatchStat so D K resolve b paths (sv_dir S) s = Returns (r, s')"
  shows "ok s s' \<and> (\<forall>responses. r = Inr responses \<longrightarrow> length responses = length paths)"
  by (rule batch_stat [OF assms])

theorem batch_stat_stays_inside_witness:
  "bos_BatchStat demo_so demo_D demo_K demo_resolve ''b'' [''x'', ''y''] (sv_dir demo_service) 1 =
     Returns (Inr [Some (LeafStat 9), Some (LeafStat 9)], 1) \<and> length [Some (LeafStat (9 :: nat)), Some (LeafStat 9)] = 2"
proof -
  have s: "bos_BatchStat demo_so demo_D demo_K demo_resolve ''b'' [''x'', ''y''] (sv_dir demo_service) 1 =
     Returns (Inr [Some (LeafStat 9), Some (LeafStat 9)], 1)"
    using demo_known by (simp add: bos_BatchStat_def demo_resolve_def stat_walker_def stat_OnRelative_def stat_OnTerminal_def
        demo_D_def demo_K_def demo_so_def demo_bs_def result_bind_def)
  from batch_stat_stays_inside [OF demo_reachable demo_known(1,2) demo_stack demo_stats demo_within s]
  have "length [Some (LeafStat (9 :: nat)), Some (LeafStat 9)] = length [''x'', ''y'']" by blast
  with s show ?thesis by simp
qed

end
