(* ===== verification/Main_Wiring.thy ===== *)
theory Main_Wiring
  imports Parsing_Directories CAS_Factories Error_Retrying
begin

text \<open>
  What \<^verbatim>\<open>main\<close> (\<^verbatim>\<open>cmd/bb_clientd/main.go\<close>) puts together apart from output paths: the
  storage that retries reads, the \<^verbatim>\<open>blobs\<close> directory of an instance name, which gives
  access to all objects of the Content Addressable Storage, and the root directory of the mount.
\<close>

section \<open>Storage for the virtual file system\<close>

text \<open>Reads are retried when a maximum delay is configured; durations are in nanoseconds.\<close>

record duration_ops =
  CheckValid :: "go_error option"
  AsDuration :: int

definition time_Second :: int where
  "time_Second = 1000000000"

definition main_retryingStorage :: "duration_ops option \<Rightarrow> errorRetryingBlobAccess option result" where
  "main_retryingStorage MaximumFileSystemRetryDelay =
     (case MaximumFileSystemRetryDelay of
        None \<Rightarrow> Inr None
      | Some delay \<Rightarrow>
          (case CheckValid delay of
             Some err \<Rightarrow> Inl (StatusWrap (Some err) ''Invalid maximum file system retry delay'' [])
           | None \<Rightarrow> Inr (Some \<lparr>initialInterval = time_Second, maximumInterval = 30 * time_Second,
               maximumDelay = AsDuration delay\<rparr>)))"

lemma main_retryingStorage_ok: "main_retryingStorage delay = Inr (Some ba) \<Longrightarrow> intervals_ok ba"
  by (auto simp: main_retryingStorage_def time_Second_def intervals_ok_def split: option.splits)

section \<open>The blobs directory\<close>

text \<open>
  The directories \<^verbatim>\<open>main\<close> makes, each with the handle it was allocated: the name of the
  instance and the value of the allocation counter. Static directories and handles are made by
  a library; a static directory is the map it was made of.
\<close>

type_synonym main_handle = "string \<times> byte"

datatype ('d, 'dir, 'leaf) main_directory =
    StaticDirectory main_handle "string \<rightharpoonup> ('d, 'dir, 'leaf) main_directory"
  | DigestParsingDirectory main_handle "('d, 'dir, 'leaf) digestParsingDirectory"

fun handle_of :: "('d, 'dir, 'leaf) main_directory \<Rightarrow> main_handle" where
  "handle_of (StaticDirectory h m) = h"
| "handle_of (DigestParsingDirectory h d) = h"

text \<open>
  The names of instances and digest functions, and the factories. \<open>be_name\<close> is the lower case
  name of a digest function.
\<close>

record ('inst, 'e, 'df, 'd, 'dir, 'leaf, 'sym) blobs_env =
  be_String :: "'inst \<Rightarrow> string"
  be_SupportedDigestFunctions :: "'e list"
  be_name :: "'e \<Rightarrow> string"
  be_GetDigestFunction :: "'inst \<Rightarrow> 'e \<Rightarrow> nat \<Rightarrow> 'df result"
  be_NewDigest :: "'df \<Rightarrow> string \<Rightarrow> int \<Rightarrow> 'd result"
  be_LookupCommand :: "'d \<Rightarrow> vstatus + 'leaf"
  be_LookupFile :: "'d \<Rightarrow> bool \<Rightarrow> 'leaf"
  be_decomposed :: "('d, 'dir, 'leaf, 'sym) casDirectoryFactory"
  be_tree :: "('d, 'dir, 'leaf, 'sym) casDirectoryFactory"

text \<open>What the five callbacks of a digest function return.\<close>

definition main_lookup :: "('inst, 'e, 'df, 'd, 'dir, 'leaf, 'sym) blobs_env \<Rightarrow> string \<Rightarrow> 'd \<Rightarrow> ('dir, 'leaf) lookup_result" where
  "main_lookup env kind digest =
     (if kind = ''command'' then (case be_LookupCommand env digest of Inl s \<Rightarrow> Inl s | Inr f \<Rightarrow> Inr (FromLeaf f))
      else if kind = ''directory'' then Inr (FromDirectory (decomposed_LookupDirectory (be_decomposed env) digest))
      else if kind = ''executable'' then Inr (FromLeaf (be_LookupFile env digest True))
      else if kind = ''file'' then Inr (FromLeaf (be_LookupFile env digest False))
      else Inr (FromDirectory (tree_LookupDirectory (be_tree env) digest)))"

definition main_kinds :: "string list" where
  "main_kinds = [''command'', ''directory'', ''executable'', ''file'', ''tree'']"

text \<open>\<^verbatim>\<open>allocateHandle\<close> increments the counter and takes its new value.\<close>

definition allocateHandle :: "string \<Rightarrow> byte \<Rightarrow> main_handle \<times> byte" where
  "allocateHandle instanceName allocationCounter = ((instanceName, allocationCounter + 1), allocationCounter + 1)"

fun kind_directories ::
    "('inst, 'e, 'df, 'd, 'dir, 'leaf, 'sym) blobs_env \<Rightarrow> 'inst \<Rightarrow> 'df \<Rightarrow> string list \<Rightarrow>
     (string \<rightharpoonup> ('d, 'dir, 'leaf) main_directory) \<Rightarrow> byte \<Rightarrow> (string \<rightharpoonup> ('d, 'dir, 'leaf) main_directory) \<times> byte" where
  "kind_directories env inst df [] m c = (m, c)"
| "kind_directories env inst df (kind # kinds) m c =
     (case allocateHandle (be_String env inst) c of (h, c1) \<Rightarrow>
        kind_directories env inst df kinds
          (m(kind \<mapsto> DigestParsingDirectory h \<lparr>NewDigest = be_NewDigest env df, dpd_lookupFunc = main_lookup env kind\<rparr>)) c1)"

fun function_directories ::
    "('inst, 'e, 'df, 'd, 'dir, 'leaf, 'sym) blobs_env \<Rightarrow> 'inst \<Rightarrow> 'e list \<Rightarrow>
     (string \<rightharpoonup> ('d, 'dir, 'leaf) main_directory) \<Rightarrow> byte \<Rightarrow> ((string \<rightharpoonup> ('d, 'dir, 'leaf) main_directory) \<times> byte) exec" where
  "function_directories env inst [] m c = Returns (m, c)"
| "function_directories env inst (e # es) m c =
     (case be_GetDigestFunction env inst e 0 of
        Inl err \<Rightarrow> Panics ''Using a supported digest function should always succeed''
      | Inr df \<Rightarrow>
          (case allocateHandle (be_String env inst) c of (h, c1) \<Rightarrow>
           case kind_directories env inst df main_kinds Map.empty c1 of (contents, c2) \<Rightarrow>
             function_directories env inst es (m(be_name env e \<mapsto> StaticDirectory h contents)) c2))"

definition blobsDirectoryLookupFunc ::
    "('inst, 'e, 'df, 'd, 'dir, 'leaf, 'sym) blobs_env \<Rightarrow> 'inst \<Rightarrow> ('d, 'dir, 'leaf) main_directory exec" where
  "blobsDirectoryLookupFunc env inst =
     exec_bind (function_directories env inst (be_SupportedDigestFunctions env) Map.empty 0) (\<lambda>(blobsDirectoryContents, c).
       case allocateHandle (be_String env inst) c of (h, c1) \<Rightarrow> Returns (StaticDirectory h blobsDirectoryContents))"

section \<open>The root directory\<close>

datatype ('cas, 'outputs, 'scratch) root_child = CasChild 'cas | OutputsChild 'outputs | ScratchChild 'scratch

definition main_rootDirectory ::
    "('inst, 'e, 'df, 'd, 'dir, 'leaf, 'sym) blobs_env \<Rightarrow> (string list \<Rightarrow> 'inst result) \<Rightarrow> 'outputs \<Rightarrow> 'scratch \<Rightarrow>
     string \<rightharpoonup> (('inst, ('d, 'dir, 'leaf) main_directory exec) instanceNameParsingDirectoryOptions \<times>
                ('d, 'dir, 'leaf) main_directory exec name_directory, 'outputs, 'scratch) root_child" where
  "main_rootDirectory env newInstanceName outputsDirectory scratchDirectory =
     [''cas'' \<mapsto> CasChild (\<lparr>NewInstanceNameFromComponents = newInstanceName, lookupFuncs = [''blobs'' \<mapsto> blobsDirectoryLookupFunc env]\<rparr>,
        NewInstanceNameParsingDirectory),
      ''outputs'' \<mapsto> OutputsChild outputsDirectory,
      ''scratch'' \<mapsto> ScratchChild scratchDirectory]"

section \<open>Contents and handles\<close>

text \<open>The directory of the \<open>i\<close>-th digest function, in terms of the number of its first handle.\<close>

definition kinds_map ::
    "('inst, 'e, 'df, 'd, 'dir, 'leaf, 'sym) blobs_env \<Rightarrow> 'inst \<Rightarrow> 'df \<Rightarrow> nat \<Rightarrow> string \<rightharpoonup> ('d, 'dir, 'leaf) main_directory" where
  "kinds_map env inst df n kind =
     (if kind \<in> set main_kinds
      then Some (DigestParsingDirectory (be_String env inst, word_of_nat (n + 1 + length (takeWhile (\<lambda>k. k \<noteq> kind) main_kinds)))
        \<lparr>NewDigest = be_NewDigest env df, dpd_lookupFunc = main_lookup env kind\<rparr>)
      else None)"

lemma kind_directories_kinds:
  "kind_directories env inst df main_kinds Map.empty (word_of_nat n) = (kinds_map env inst df n, word_of_nat (n + 5))"
  by (auto simp: main_kinds_def allocateHandle_def kinds_map_def fun_eq_iff algebra_simps)

lemma function_directories_result:
  assumes "\<forall>e \<in> set es. be_GetDigestFunction env inst e 0 = Inr (df e)" "distinct (map (be_name env) es)"
  shows "\<exists>m'. function_directories env inst es m (word_of_nat n) = Returns (m', word_of_nat (n + 6 * length es)) \<and>
    (\<forall>i < length es. m' (be_name env (es ! i)) =
       Some (StaticDirectory (be_String env inst, word_of_nat (n + 6 * i + 1)) (kinds_map env inst (df (es ! i)) (n + 6 * i + 1)))) \<and>
    (\<forall>x. x \<notin> be_name env ` set es \<longrightarrow> m' x = m x)"
  using assms
proof (induction es arbitrary: m n)
  case Nil
  then show ?case by simp
next
  case (Cons e es)
  let ?d = "StaticDirectory (be_String env inst, word_of_nat (n + 1)) (kinds_map env inst (df e) (n + 1))"
  have step: "function_directories env inst (e # es) m (word_of_nat n) =
      function_directories env inst es (m(be_name env e \<mapsto> ?d)) (word_of_nat (n + 6))"
    using Cons.prems(1) kind_directories_kinds [of env inst "df e" "n + 1"]
    by (simp add: allocateHandle_def algebra_simps)
  have "\<forall>e \<in> set es. be_GetDigestFunction env inst e 0 = Inr (df e)" "distinct (map (be_name env) es)"
    using Cons.prems by simp_all
  from Cons.IH [OF this, of "m(be_name env e \<mapsto> ?d)" "n + 6"] obtain m' where
    m': "function_directories env inst es (m(be_name env e \<mapsto> ?d)) (word_of_nat (n + 6)) = Returns (m', word_of_nat (n + 6 + 6 * length es))"
      "\<forall>i < length es. m' (be_name env (es ! i)) =
         Some (StaticDirectory (be_String env inst, word_of_nat (n + 6 + 6 * i + 1)) (kinds_map env inst (df (es ! i)) (n + 6 + 6 * i + 1)))"
      "\<forall>x. x \<notin> be_name env ` set es \<longrightarrow> m' x = (m(be_name env e \<mapsto> ?d)) x" by blast
  have "m' (be_name env ((e # es) ! i)) =
       Some (StaticDirectory (be_String env inst, word_of_nat (n + 6 * i + 1)) (kinds_map env inst (df ((e # es) ! i)) (n + 6 * i + 1)))"
    if "i < length (e # es)" for i
  proof (cases i)
    case 0
    then show ?thesis using m'(3) Cons.prems(2) by simp
  next
    case (Suc j)
    then show ?thesis using m'(2) that by (simp add: algebra_simps)
  qed
  moreover have "\<forall>x. x \<notin> be_name env ` set (e # es) \<longrightarrow> m' x = m x" using m'(3) by simp
  ultimately show ?case using step m'(1) by (intro exI [of _ m']) (simp add: algebra_simps)
qed

text \<open>Walking down from a directory, as path resolution does.\<close>

fun directory_at :: "('d, 'dir, 'leaf) main_directory \<Rightarrow> string list \<Rightarrow> ('d, 'dir, 'leaf) main_directory option" where
  "directory_at d [] = Some d"
| "directory_at (StaticDirectory h m) (n # ns) = (case m n of None \<Rightarrow> None | Some d \<Rightarrow> directory_at d ns)"
| "directory_at (DigestParsingDirectory h d) (n # ns) = None"

definition functions_supported :: "('inst, 'e, 'df, 'd, 'dir, 'leaf, 'sym) blobs_env \<Rightarrow> 'inst \<Rightarrow> ('e \<Rightarrow> 'df) \<Rightarrow> bool" where
  "functions_supported env inst df \<longleftrightarrow>
     (\<forall>e \<in> set (be_SupportedDigestFunctions env). be_GetDigestFunction env inst e 0 = Inr (df e)) \<and>
     distinct (map (be_name env) (be_SupportedDigestFunctions env))"

lemma blobs_directory:
  assumes "functions_supported env inst df"
  shows "\<exists>m. blobsDirectoryLookupFunc env inst =
      Returns (StaticDirectory (be_String env inst, word_of_nat (6 * length (be_SupportedDigestFunctions env) + 1)) m) \<and>
    (\<forall>i < length (be_SupportedDigestFunctions env). m (be_name env (be_SupportedDigestFunctions env ! i)) =
       Some (StaticDirectory (be_String env inst, word_of_nat (6 * i + 1))
         (kinds_map env inst (df (be_SupportedDigestFunctions env ! i)) (6 * i + 1)))) \<and>
    (\<forall>x. x \<notin> be_name env ` set (be_SupportedDigestFunctions env) \<longrightarrow> m x = None)"
proof -
  have "\<forall>e \<in> set (be_SupportedDigestFunctions env). be_GetDigestFunction env inst e 0 = Inr (df e)"
    "distinct (map (be_name env) (be_SupportedDigestFunctions env))"
    using assms by (simp_all add: functions_supported_def)
  from function_directories_result [OF this, of Map.empty 0] show ?thesis
    by (auto simp: blobsDirectoryLookupFunc_def allocateHandle_def algebra_simps)
qed

text \<open>The path of the directory that was given the \<open>k\<close>-th handle.\<close>

definition path_of_handle :: "('inst, 'e, 'df, 'd, 'dir, 'leaf, 'sym) blobs_env \<Rightarrow> nat \<Rightarrow> string list" where
  "path_of_handle env k =
     (let es = be_SupportedDigestFunctions env; i = (k - 1) div 6; r = (k - 1) mod 6
      in if k = 6 * length es + 1 then []
         else be_name env (es ! i) # (if r = 0 then [] else [main_kinds ! (r - 1)]))"

lemma takeWhile_neq_index:
  "x \<in> set xs \<Longrightarrow> length (takeWhile (\<lambda>y. y \<noteq> x) xs) < length xs \<and> xs ! length (takeWhile (\<lambda>y. y \<noteq> x) xs) = x"
  by (induction xs) auto

lemma handle_number:
  assumes sup: "functions_supported env inst df" and D: "blobsDirectoryLookupFunc env inst = Returns D"
    and at: "directory_at D p = Some x"
  shows "\<exists>k. k \<le> 6 * length (be_SupportedDigestFunctions env) + 1 \<and>
    handle_of x = (be_String env inst, word_of_nat k) \<and> p = path_of_handle env k"
proof -
  let ?es = "be_SupportedDigestFunctions env"
  obtain m where D': "D = StaticDirectory (be_String env inst, word_of_nat (6 * length ?es + 1)) m"
    and m: "\<forall>i < length ?es. m (be_name env (?es ! i)) =
       Some (StaticDirectory (be_String env inst, word_of_nat (6 * i + 1)) (kinds_map env inst (df (?es ! i)) (6 * i + 1)))"
      "\<forall>x. x \<notin> be_name env ` set ?es \<longrightarrow> m x = None"
    using blobs_directory [OF sup] D by auto
  show ?thesis
  proof (cases p)
    case Nil
    then show ?thesis using at D' by (intro exI [of _ "6 * length ?es + 1"]) (auto simp: path_of_handle_def)
  next
    case (Cons a ns)
    then obtain d where d: "m a = Some d" "directory_at d ns = Some x" using at D' by (auto split: option.splits)
    then have "a \<in> be_name env ` set ?es" using m(2) by (metis option.distinct(1))
    then obtain i where i: "i < length ?es" "a = be_name env (?es ! i)" by (auto simp: in_set_conv_nth)
    then have d': "d = StaticDirectory (be_String env inst, word_of_nat (6 * i + 1)) (kinds_map env inst (df (?es ! i)) (6 * i + 1))"
      using m(1) d(1) by simp
    show ?thesis
    proof (cases ns)
      case Nil
      then show ?thesis using d(2) d' i Cons
        by (intro exI [of _ "6 * i + 1"]) (auto simp: path_of_handle_def Let_def)
    next
      case (Cons kind rest)
      let ?j = "length (takeWhile (\<lambda>k. k \<noteq> kind) main_kinds)"
      have kind: "kind \<in> set main_kinds" "directory_at (DigestParsingDirectory (be_String env inst, word_of_nat (6 * i + 1 + 1 + ?j))
          \<lparr>NewDigest = be_NewDigest env (df (?es ! i)), dpd_lookupFunc = main_lookup env kind\<rparr>) rest = Some x"
        using d(2) d' Cons by (auto simp: kinds_map_def split: if_splits)
      then have "rest = []" by (cases rest) auto
      have j: "?j < 5" "main_kinds ! ?j = kind" using takeWhile_neq_index [OF kind(1)] by (simp_all add: main_kinds_def)
      have "(6 * i + 1 + ?j) div 6 = i" "(6 * i + 1 + ?j) mod 6 = 1 + ?j" using j(1) by (simp_all add: div_mult_self4 [of 6 "Suc ?j" i])
      then have "path_of_handle env (6 * i + 1 + 1 + ?j) = [a, kind]"
        using i j by (simp add: path_of_handle_def Let_def)
      moreover have "handle_of x = (be_String env inst, word_of_nat (6 * i + 1 + 1 + ?j))" using kind(2) \<open>rest = []\<close> by auto
      moreover have "6 * i + 1 + 1 + ?j \<le> 6 * length ?es + 1" using i(1) j(1) by simp
      ultimately show ?thesis
        using \<open>p = a # ns\<close> Cons \<open>rest = []\<close> by (intro exI [of _ "6 * i + 1 + 1 + ?j"]) simp
    qed
  qed
qed

lemma cas_path_resolves:
  assumes "functions_supported env inst df" "e \<in> set (be_SupportedDigestFunctions env)" "kind \<in> set main_kinds"
    and "newInstanceName ns = Inr inst" "''blobs'' \<notin> set ns"
    and "be_NewDigest env (df e) hash (int sz) = Inr dg" "sz < 2 ^ 63"
  shows "\<exists>options d h blobs dpd.
    main_rootDirectory env newInstanceName outputs scratch ''cas'' = Some (CasChild (options, d)) \<and>
    walk_names options d (ns @ [''blobs'']) = Some (Inr (TargetDirectory (Returns blobs))) \<and>
    directory_at blobs [be_name env e, kind] = Some (DigestParsingDirectory h dpd) \<and>
    digestParsing_VirtualLookup dpd (hash @ ''-'' @ decimal sz) = main_lookup env kind dg"
proof -
  let ?options = "\<lparr>NewInstanceNameFromComponents = newInstanceName, lookupFuncs = [''blobs'' \<mapsto> blobsDirectoryLookupFunc env]\<rparr>"
  let ?es = "be_SupportedDigestFunctions env"
  obtain i where i: "i < length ?es" "e = ?es ! i" using assms(2) by (auto simp: in_set_conv_nth)
  obtain h m where b: "blobsDirectoryLookupFunc env inst = Returns (StaticDirectory h m)"
    and m: "m (be_name env e) = Some (StaticDirectory (be_String env inst, word_of_nat (6 * i + 1)) (kinds_map env inst (df e) (6 * i + 1)))"
    using blobs_directory [OF assms(1)] i by blast
  have "\<forall>n \<in> set ns. lookupFuncs ?options n = None" using assms(5) by auto
  from walk_names_components [OF this, of "[]" "[''blobs'']"]
  have w: "walk_names ?options NewInstanceNameParsingDirectory (ns @ [''blobs'']) = Some (Inr (TargetDirectory (Returns (StaticDirectory h m))))"
    using assms(4) b by (simp add: NewInstanceNameParsingDirectory_def inp_createDirectory_def instanceNameParsing_VirtualLookup_def)
  let ?dpd = "\<lparr>NewDigest = be_NewDigest env (df e), dpd_lookupFunc = main_lookup env kind\<rparr>"
  have "parseFilename ?dpd (hash @ ''-'' @ decimal sz) = Some dg"
    unfolding parseFilename_iff using assms(6,7) size_part_decimal by fastforce
  then have l: "digestParsing_VirtualLookup ?dpd (hash @ ''-'' @ decimal sz) = main_lookup env kind dg"
    by (simp add: digestParsing_VirtualLookup_def)
  have "\<exists>h'. directory_at (StaticDirectory h m) [be_name env e, kind] = Some (DigestParsingDirectory h' ?dpd)"
    using m assms(3) by (simp add: kinds_map_def)
  with w l show ?thesis unfolding main_rootDirectory_def by auto
qed

section \<open>Properties\<close>

text \<open>
  Every object is where its path says: below the root directory's \<^verbatim>\<open>cas\<close>, walking down
  the components of an instance name and then \<^verbatim>\<open>blobs\<close>, the name of a supported digest
  function, one of the five kinds and the file name of a digest of that function under that
  instance name leads to the object the kind's callback gives for exactly that digest.
\<close>

theorem cas_path_reaches_object:
  assumes "functions_supported env inst df" "e \<in> set (be_SupportedDigestFunctions env)" "kind \<in> set main_kinds"
    and "newInstanceName ns = Inr inst" "''blobs'' \<notin> set ns"
    and "be_NewDigest env (df e) hash (int sz) = Inr dg" "sz < 2 ^ 63"
  shows "\<exists>options d h blobs dpd.
    main_rootDirectory env newInstanceName outputs scratch ''cas'' = Some (CasChild (options, d)) \<and>
    walk_names options d (ns @ [''blobs'']) = Some (Inr (TargetDirectory (Returns blobs))) \<and>
    directory_at blobs [be_name env e, kind] = Some (DigestParsingDirectory h dpd) \<and>
    digestParsing_VirtualLookup dpd (hash @ ''-'' @ decimal sz) = main_lookup env kind dg"
  by (rule cas_path_resolves [where df = df and e = e and newInstanceName = newInstanceName and ns = ns, OF assms])

definition demo_factory :: "(string \<times> string \<times> int, nat, string \<times> string \<times> int, nat) casDirectoryFactory" where
  "demo_factory = \<lparr>cdf_LookupFile = (\<lambda>d x. d),
     cdf_directoryFetcher = \<lparr>GetDirectory = (\<lambda>d. Inl EOF), GetTreeRootDirectory = (\<lambda>d. Inl EOF), GetTreeChildDirectory = (\<lambda>t d. Inl EOF)\<rparr>,
     cdf_digest = \<lparr>FunctionNewDigestFromProto = (\<lambda>d p. Inl EOF), InstanceNewDigestFromCompactBinary = (\<lambda>d b. Inl EOF),
       GetCompactBinary = (\<lambda>d. []), digest_GetSizeBytes = (\<lambda>d. snd (snd d)), digest_String = (\<lambda>d. fst d)\<rparr>,
     cdf_AsStatelessDirectory = (\<lambda>d b. length b), cdf_AsLinkableLeaf = (\<lambda>d b s. d), cdf_LookupSymlink = (\<lambda>s. Inl EOF)\<rparr>"

definition demo_env2 :: "(string, string, string, string \<times> string \<times> int, nat, string \<times> string \<times> int, nat) blobs_env" where
  "demo_env2 = \<lparr>be_String = (\<lambda>i. i), be_SupportedDigestFunctions = [''md5'', ''sha256''], be_name = (\<lambda>e. e),
     be_GetDigestFunction = (\<lambda>i e n. Inr (i @ e)), be_NewDigest = (\<lambda>df h n. Inr (df, h, n)), be_LookupCommand = Inr,
     be_LookupFile = (\<lambda>d x. d), be_decomposed = demo_factory, be_tree = demo_factory\<rparr>"

lemma demo_supported: "functions_supported demo_env2 ''a'' (\<lambda>e. ''a'' @ e)"
  by (simp add: functions_supported_def demo_env2_def)

theorem cas_path_reaches_object_witness:
  "\<exists>h blobs dpd. blobsDirectoryLookupFunc demo_env2 ''a'' = Returns blobs \<and>
     directory_at blobs [''sha256'', ''file''] = Some (DigestParsingDirectory h dpd) \<and>
     digestParsing_VirtualLookup dpd ''ab-123'' = Inr (FromLeaf (''asha256'', ''ab'', 123))"
proof -
  have d: "decimal 123 = ''123''" by code_simp
  have "be_NewDigest demo_env2 (''a'' @ ''sha256'') ''ab'' (int 123) = Inr (''asha256'', ''ab'', 123)"
    "main_lookup demo_env2 ''file'' (''asha256'', ''ab'', 123) = Inr (FromLeaf (''asha256'', ''ab'', 123))"
    by (simp_all add: demo_env2_def main_lookup_def)
  moreover have "''sha256'' \<in> set (be_SupportedDigestFunctions demo_env2)" "''file'' \<in> set main_kinds"
    "be_name demo_env2 ''sha256'' = ''sha256''"
    by (simp_all add: demo_env2_def main_kinds_def)
  moreover have "(\<lambda>ns. Inr (concat ns) :: string result) [''a''] = Inr ''a''" "''blobs'' \<notin> set [''a'']" by simp_all
  ultimately show ?thesis
    using cas_path_reaches_object [OF demo_supported, of "''sha256''" "''file''" "\<lambda>ns. Inr (concat ns)" "[''a'']" "''ab''" 123
      "(''asha256'', ''ab'', 123)"] d
    by (auto simp: main_rootDirectory_def NewInstanceNameParsingDirectory_def inp_createDirectory_def
        instanceNameParsing_VirtualLookup_def simp del: directory_at.simps)
qed

text \<open>
  C36. No two directories below the \<^verbatim>\<open>blobs\<close> directory of an instance name share a handle, as
  long as the one-byte counter they are numbered with does not wrap, which it does not for up to
  42 supported digest functions.
\<close>

theorem blobs_handles_distinct:
  assumes "functions_supported env inst df" "length (be_SupportedDigestFunctions env) \<le> 42"
    and "blobsDirectoryLookupFunc env inst = Returns D"
    and "directory_at D p = Some x" "directory_at D q = Some y" "handle_of x = handle_of y"
  shows "p = q"
proof -
  let ?n = "6 * length (be_SupportedDigestFunctions env) + 1"
  obtain k where k: "k \<le> ?n" "handle_of x = (be_String env inst, word_of_nat k)" "p = path_of_handle env k"
    using handle_number [OF assms(1,3,4)] by blast
  obtain l where l: "l \<le> ?n" "handle_of y = (be_String env inst, word_of_nat l)" "q = path_of_handle env l"
    using handle_number [OF assms(1,3,5)] by blast
  have "unat (word_of_nat k :: byte) = k" "unat (word_of_nat l :: byte) = l"
    using k(1) l(1) assms(2) by (simp_all add: unsigned_of_nat take_bit_nat_eq_self)
  moreover have "(word_of_nat k :: byte) = word_of_nat l" using k(2) l(2) assms(6) by simp
  ultimately show ?thesis using k(3) l(3) by metis
qed

theorem blobs_handles_distinct_witness:
  "\<exists>D x y. blobsDirectoryLookupFunc demo_env2 ''a'' = Returns D \<and> directory_at D [''md5'', ''file''] = Some x \<and>
     directory_at D [''sha256'', ''file''] = Some y \<and> handle_of x \<noteq> handle_of y"
proof -
  obtain m where 1: "blobsDirectoryLookupFunc demo_env2 ''a'' =
      Returns (StaticDirectory (be_String demo_env2 ''a'', word_of_nat (6 * length (be_SupportedDigestFunctions demo_env2) + 1)) m)"
    and 2: "\<forall>i < length (be_SupportedDigestFunctions demo_env2). m (be_name demo_env2 (be_SupportedDigestFunctions demo_env2 ! i)) =
       Some (StaticDirectory (be_String demo_env2 ''a'', word_of_nat (6 * i + 1))
         (kinds_map demo_env2 ''a'' (''a'' @ (be_SupportedDigestFunctions demo_env2 ! i)) (6 * i + 1)))"
    using blobs_directory [OF demo_supported] by blast
  have m: "blobsDirectoryLookupFunc demo_env2 ''a'' = Returns (StaticDirectory (''a'', 13) m)"
    "m ''md5'' = Some (StaticDirectory (''a'', 1) (kinds_map demo_env2 ''a'' ''amd5'' 1))"
    "m ''sha256'' = Some (StaticDirectory (''a'', 7) (kinds_map demo_env2 ''a'' ''asha256'' 7))"
    using 1 2 [rule_format, of 0] 2 [rule_format, of 1] by (simp_all add: demo_env2_def)
  let ?D = "StaticDirectory (''a'', 13 :: byte) m"
  have "\<exists>x. directory_at ?D [''md5'', ''file''] = Some x" "\<exists>y. directory_at ?D [''sha256'', ''file''] = Some y"
    using m(2,3) by (simp_all add: kinds_map_def main_kinds_def)
  then obtain x y where xy: "directory_at ?D [''md5'', ''file''] = Some x" "directory_at ?D [''sha256'', ''file''] = Some y" by blast
  have "length (be_SupportedDigestFunctions demo_env2) \<le> 42" by (simp add: demo_env2_def)
  from blobs_handles_distinct [OF demo_supported this m(1) xy] have "handle_of x \<noteq> handle_of y" by auto
  with m(1) xy show ?thesis by blast
qed

end
