(* ===== verification/Startup.thy ===== *)
theory Startup
  imports Main_Wiring Command_File Service_Chain
begin

text \<open>
  The start of the daemon, \<^verbatim>\<open>main\<close> in \<^verbatim>\<open>cmd/bb_clientd/main.go\<close>: reading the configuration, making
  storage and the virtual file system, mounting it, and serving requests.

  Calls of libraries that can fail are operations on a world of type \<open>'w\<close>; constructors of
  libraries that cannot fail are functions. \<open>'m\<close> are the configuration messages that are handed to
  libraries as they are, \<open>'o\<close> is an object of a library. Handles that constructors allocate from
  the allocator of the mount are part of these functions.
\<close>

section \<open>The configuration\<close>

record OutputPathPersistencyConfiguration =
  LocalFileUploadConcurrency :: int
  StateDirectoryPath :: string
  MaximumStateFileAge :: duration_ops
  MaximumStateFileSizeBytes :: int

record 'm ApplicationConfiguration =
  cfg_Global :: 'm
  cfg_ZstdPool :: 'm
  cfg_Blobstore :: 'm
  cfg_Schedulers :: 'm
  cfg_FilePool :: 'm
  cfg_Mount :: 'm
  cfg_DirectoryCache :: 'm
  cfg_GrpcServers :: 'm
  cfg_MaximumMessageSizeBytes :: int
  cfg_MaximumTreeSizeBytes :: int
  cfg_MaximumFileSystemRetryDelay :: "duration_ops option"
  cfg_OutputPathPersistency :: "OutputPathPersistencyConfiguration option"

section \<open>Storage\<close>

text \<open>The storage as configured, or with reads retried.\<close>

datatype 'o storage = BareStorage 'o | ErrorRetryingStorage 'o errorRetryingBlobAccess

definition retrying_storage_of :: "'o \<Rightarrow> errorRetryingBlobAccess option \<Rightarrow> 'o storage" where
  "retrying_storage_of bare retrying = (case retrying of None \<Rightarrow> BareStorage bare | Some ba \<Rightarrow> ErrorRetryingStorage bare ba)"

section \<open>Directories in memory\<close>

text \<open>
  The objects \<^verbatim>\<open>NewInMemoryPrepopulatedDirectory\<close> is given by the factory of in-memory output paths
  and for the \<^verbatim>\<open>scratch\<close> directory, as far as they depend on the error logger \<open>'log\<close>: named
  attributes are files too, whose own named attributes are refused. Allocators of files are wrapped, in both places,
  to allocate handles; the pool of files, the symbolic link factory and the clock are the same for all.
\<close>

datatype 'log NamedAttributesFactory =
    InNamedAttributeDirectoryNamedAttributesFactory
  | InMemoryNamedAttributesFactory "'log FileAllocator" 'log
and 'log FileAllocator = PoolBackedFileAllocator 'log "'log NamedAttributesFactory"

record 'log prepopulated_parameters =
  pp_fileAllocator :: "'log FileAllocator"
  pp_errorLogger :: 'log
  pp_hiddenFilesMatcher :: "string \<Rightarrow> bool"
  pp_namedAttributesFactory :: "'log NamedAttributesFactory"

definition inMemory_parameters :: "'log \<Rightarrow> 'log prepopulated_parameters" where
  "inMemory_parameters errorLogger =
     (let namedAttributesFactory = InMemoryNamedAttributesFactory
            (PoolBackedFileAllocator errorLogger InNamedAttributeDirectoryNamedAttributesFactory) errorLogger
      in \<lparr>pp_fileAllocator = PoolBackedFileAllocator errorLogger namedAttributesFactory,
          pp_errorLogger = errorLogger,
          pp_hiddenFilesMatcher = (\<lambda>_. False),
          pp_namedAttributesFactory = namedAttributesFactory\<rparr>)"

text \<open>
  The in-memory factory with the constructor of directories \<open>new\<close>, for a build that logs to
  \<open>errorLogger\<close>.
\<close>

definition inMemory_ops ::
    "('log prepopulated_parameters \<Rightarrow> 'v \<Rightarrow> 'dd \<times> 'v) \<Rightarrow> 'log \<Rightarrow> ('v, 'dd, 'l) prepopulated_ops \<Rightarrow> ('v, 'dd, 'l) prepopulated_ops" where
  "inMemory_ops new errorLogger ops = ops\<lparr>NewInMemoryPrepopulatedDirectory := new (inMemory_parameters errorLogger)\<rparr>"

text \<open>
  The scratch directory logs errors to the default logger, the value \<open>defaultLogger\<close> here.
\<close>

definition main_namedAttributesFactory :: "'log \<Rightarrow> 'log NamedAttributesFactory" where
  "main_namedAttributesFactory defaultLogger =
     InMemoryNamedAttributesFactory (PoolBackedFileAllocator defaultLogger InNamedAttributeDirectoryNamedAttributesFactory) defaultLogger"

definition main_scratch_parameters :: "'log \<Rightarrow> 'log prepopulated_parameters" where
  "main_scratch_parameters defaultLogger =
     \<lparr>pp_fileAllocator = PoolBackedFileAllocator defaultLogger (main_namedAttributesFactory defaultLogger),
      pp_errorLogger = defaultLogger,
      pp_hiddenFilesMatcher = (\<lambda>_. False),
      pp_namedAttributesFactory = main_namedAttributesFactory defaultLogger\<rparr>"

lemma scratch_like_output_paths: "main_scratch_parameters defaultLogger = inMemory_parameters defaultLogger"
  by (simp add: main_scratch_parameters_def main_namedAttributesFactory_def inMemory_parameters_def Let_def)

section \<open>Objects of the Content Addressable Storage\<close>

text \<open>Constructors of libraries, and what the repository's factories get from them.\<close>

record ('d, 'cmd, 'dir, 'leaf, 'sym, 'inst, 'e, 'df, 'o) cas_constructors =
  NewBlobAccessDirectoryFetcher :: "'o storage \<Rightarrow> int \<Rightarrow> int \<Rightarrow> 'd DirectoryFetcher"
  NewCASFileFactory :: "'o storage \<Rightarrow> 'd \<Rightarrow> bool \<Rightarrow> 'leaf"
  cc_digest :: "'d digest_ops"
  cc_LookupSymlink :: "string \<Rightarrow> 'sym result"
  decomposed_AsStatelessDirectory :: "'d \<Rightarrow> bytes \<Rightarrow> 'dir"
  decomposed_AsLinkableLeaf :: "'d \<Rightarrow> bytes \<Rightarrow> 'sym \<Rightarrow> 'leaf"
  tree_AsStatelessDirectory :: "'d \<Rightarrow> bytes \<Rightarrow> 'dir"
  tree_AsLinkableLeaf :: "'d \<Rightarrow> bytes \<Rightarrow> 'sym \<Rightarrow> 'leaf"
  cc_commands :: "('d, 'cmd) blobAccessCommandFileFactory"
  GetCommand :: "'o storage \<Rightarrow> int \<Rightarrow> 'd \<Rightarrow> 'cmd result"
  command_AsLeaf :: "'d \<Rightarrow> 'd commandFile \<Rightarrow> 'leaf"
  cc_InstanceName_String :: "'inst \<Rightarrow> string"
  cc_SupportedDigestFunctions :: "'e list"
  cc_DigestFunction_name :: "'e \<Rightarrow> string"
  cc_GetDigestFunction :: "'inst \<Rightarrow> 'e \<Rightarrow> nat \<Rightarrow> 'df result"
  cc_NewDigest :: "'df \<Rightarrow> string \<Rightarrow> int \<Rightarrow> 'd result"

definition NewDecomposedCASDirectoryFactory ::
    "('d, 'cmd, 'dir, 'leaf, 'sym, 'inst, 'e, 'df, 'o) cas_constructors \<Rightarrow> ('d \<Rightarrow> bool \<Rightarrow> 'leaf) \<Rightarrow> 'd DirectoryFetcher \<Rightarrow>
     ('d, 'dir, 'leaf, 'sym) casDirectoryFactory" where
  "NewDecomposedCASDirectoryFactory cc casFileFactory directoryFetcher = \<lparr>
     cdf_LookupFile = casFileFactory, cdf_directoryFetcher = directoryFetcher, cdf_digest = cc_digest cc,
     cdf_AsStatelessDirectory = decomposed_AsStatelessDirectory cc,
     cdf_AsLinkableLeaf = decomposed_AsLinkableLeaf cc, cdf_LookupSymlink = cc_LookupSymlink cc\<rparr>"

definition NewTreeCASDirectoryFactory ::
    "('d, 'cmd, 'dir, 'leaf, 'sym, 'inst, 'e, 'df, 'o) cas_constructors \<Rightarrow> ('d \<Rightarrow> bool \<Rightarrow> 'leaf) \<Rightarrow> 'd DirectoryFetcher \<Rightarrow>
     ('d, 'dir, 'leaf, 'sym) casDirectoryFactory" where
  "NewTreeCASDirectoryFactory cc casFileFactory directoryFetcher = \<lparr>
     cdf_LookupFile = casFileFactory, cdf_directoryFetcher = directoryFetcher, cdf_digest = cc_digest cc,
     cdf_AsStatelessDirectory = tree_AsStatelessDirectory cc,
     cdf_AsLinkableLeaf = tree_AsLinkableLeaf cc, cdf_LookupSymlink = cc_LookupSymlink cc\<rparr>"

text \<open>The factories of the \<^verbatim>\<open>blobs\<close> directories.\<close>

definition main_blobs_env ::
    "('d, 'cmd, 'dir, 'leaf, 'sym, 'inst, 'e, 'df, 'o) cas_constructors \<Rightarrow> int \<Rightarrow> 'o storage \<Rightarrow> 'd DirectoryFetcher \<Rightarrow>
     ('inst, 'e, 'df, 'd, 'dir, 'leaf, 'sym) blobs_env" where
  "main_blobs_env cc maximumMessageSizeBytes retrying directoryFetcher =
     (let casFileFactory = NewCASFileFactory cc retrying;
          commandFileFactory = command_LookupFile (cc_commands cc) (GetCommand cc retrying maximumMessageSizeBytes)
      in \<lparr>be_String = cc_InstanceName_String cc,
          be_SupportedDigestFunctions = cc_SupportedDigestFunctions cc,
          be_name = cc_DigestFunction_name cc,
          be_GetDigestFunction = cc_GetDigestFunction cc,
          be_NewDigest = cc_NewDigest cc,
          be_LookupCommand = (\<lambda>digest. fst (handleAllocating_LookupFile commandFileFactory (command_AsLeaf cc) digest)),
          be_LookupFile = casFileFactory,
          be_decomposed = NewDecomposedCASDirectoryFactory cc casFileFactory directoryFetcher,
          be_tree = NewTreeCASDirectoryFactory cc casFileFactory directoryFetcher\<rparr>)"

section \<open>Output paths\<close>

text \<open>
  The chain of factories. Uploading and persistency are optional, and decorate the factory below.
\<close>

datatype ('v, 'd, 'dd) main_factory =
    InMemoryChain "('v, 'dd, 'dd) OutputPathFactory"
  | PersistentChain "('v \<times> 'd, 'dd persistentOutputPath, 'dd) OutputPathFactory"
  | UploadingChain "('v \<times> 'd, 'dd localFileUploadingOutputPath persistentOutputPath, 'dd) OutputPathFactory"

text \<open>
  \<open>up bare concurrency\<close> is uploading to the storage with that many uploads at a time;
  \<open>pf\<close> is everything of the persistent factory but its store. The file system of the state directory
  is \<open>dir\<close>, which is opened at a path; file names, codec and clock are parameters of the store.
\<close>

record ('v, 'dd, 'l, 'dg, 'd, 'h, 'r, 'o, 'log, 'w) output_path_constructors =
  oc_NewDirectory :: "'log prepopulated_parameters \<Rightarrow> 'v \<Rightarrow> 'dd \<times> 'v"
  oc_persistent :: "('v, 'dd, 'l, 'dg, 'd, 'r, ('d, 'h, 'r) directoryBackedWriter) persistentOutputPathFactory"
  oc_upload :: "'o \<Rightarrow> int \<Rightarrow> ('v, 'l) upload_ops"
  oc_NewLocalDirectory :: "string \<Rightarrow> 'w \<Rightarrow> ('d, 'h, 'r) directory_ops result \<times> 'w"
  oc_NewComponent :: "string \<Rightarrow> bool"
  oc_codec :: codec
  oc_time :: time_ops
  oc_Now :: int

text \<open>The common shape of \<^verbatim>\<open>main\<close>: a call whose error is wrapped and returned.\<close>

definition try_call :: "('w \<Rightarrow> 'a result \<times> 'w) \<Rightarrow> (go_error \<Rightarrow> go_error) \<Rightarrow> ('a \<Rightarrow> 'w \<Rightarrow> 'b result \<times> 'w) \<Rightarrow> 'w \<Rightarrow> 'b result \<times> 'w" where
  "try_call call wrap f w = (case call w of (Inl err, w1) \<Rightarrow> (Inl (wrap err), w1) | (Inr x, w1) \<Rightarrow> f x w1)"

definition wrapped :: "string \<Rightarrow> fmt_arg list \<Rightarrow> go_error \<Rightarrow> go_error" where
  "wrapped msg args err = StatusWrap (Some err) msg args"

definition main_outputPaths ::
    "('v, 'dd, 'l, 'dg, 'd, 'h, 'r, 'o, 'log, 'w) output_path_constructors \<Rightarrow> 'log \<Rightarrow> 'o \<Rightarrow> OutputPathPersistencyConfiguration option \<Rightarrow> 'w \<Rightarrow>
     ('v, 'd, 'dd) main_factory result \<times> 'w" where
  "main_outputPaths oc errorLogger bare persistency =
     (let ops = inMemory_ops (oc_NewDirectory oc) errorLogger (pf_ops (oc_persistent oc))
      in case persistency of
           None \<Rightarrow> Pair (Inr (InMemoryChain (inMemoryOutputPathFactory ops)))
         | Some p \<Rightarrow>
             try_call (oc_NewLocalDirectory oc (StateDirectoryPath p))
               (wrapped ''Failed to open persistent output path state directory %#v'' [FStr (StateDirectoryPath p)]) (\<lambda>stateDirectory.
             case duration_ops.CheckValid (MaximumStateFileAge p) of
               Some err \<Rightarrow> Pair (Inl (wrapped ''Invalid maximum state file age'' [] err))
             | None \<Rightarrow>
                 let pf = (oc_persistent oc)\<lparr>pf_ops := ops,
                       pf_store := main_outputPathStore (oc_NewComponent oc) (oc_codec oc) stateDirectory
                         (MaximumStateFileSizeBytes p) (oc_time oc) (AsDuration (MaximumStateFileAge p)) (oc_Now oc)\<rparr>
                 in Pair (Inr (if LocalFileUploadConcurrency p > 0
                          then UploadingChain (main_outputPathFactory (oc_upload oc bare (LocalFileUploadConcurrency p)) pf)
                          else PersistentChain (persistentOutputPathFactory_Factory pf (inMemoryOutputPathFactory ops))))))"

text \<open>The service, as far as it is given other objects.\<close>

record ('v, 'd, 'dd, 'fetcher, 'o) outputs_directory =
  od_outputPathFactory :: "('v, 'd, 'dd) main_factory"
  od_bareContentAddressableStorage :: 'o
  od_retryingContentAddressableStorage :: "'o storage"
  od_directoryFetcher :: 'fetcher
  od_maximumTreeSizeBytes :: int

section \<open>Requests\<close>

text \<open>
  What is registered with the gRPC servers. The capabilities are merged from those of three objects
  and the versions of the protocol that are supported.
\<close>

record SemVer =
  Major :: nat
  Minor :: nat

datatype ('o, 'outputs) grpc_service =
    ActionCacheServer 'o int
  | ContentAddressableStorageServer 'o int
  | ByteStreamServer 'o int 'o
  | CapabilitiesServer "'o list" SemVer SemVer SemVer
  | ExecutionServer 'o
  | BazelOutputServiceServer 'outputs

definition main_services :: "int \<Rightarrow> 'o \<Rightarrow> 'o \<Rightarrow> 'o \<Rightarrow> 'o \<Rightarrow> 'outputs \<Rightarrow> ('o, 'outputs) grpc_service list" where
  "main_services maximumMessageSizeBytes bare actionCache zstdPool buildQueue outputsDirectory =
     [ActionCacheServer actionCache maximumMessageSizeBytes,
      ContentAddressableStorageServer bare maximumMessageSizeBytes,
      ByteStreamServer bare (2 ^ 16) zstdPool,
      CapabilitiesServer [bare, actionCache, buildQueue]
        \<lparr>Major = 2, Minor = 0\<rparr> \<lparr>Major = 2, Minor = 0\<rparr> \<lparr>Major = 2, Minor = 11\<rparr>,
      ExecutionServer buildQueue,
      BazelOutputServiceServer outputsDirectory]"

section \<open>main\<close>

text \<open>The calls that can fail. The mount comes with the allocator of handles.\<close>

record ('m, 'o, 'd, 'log, 'dd, 'w) startup_calls =
  call_UnmarshalConfiguration :: "string \<Rightarrow> 'w \<Rightarrow> 'm ApplicationConfiguration result \<times> 'w"
  call_ApplyConfiguration :: "'m \<Rightarrow> 'w \<Rightarrow> ('o \<times> 'o) result \<times> 'w"
  call_NewZstdPool :: "'m \<Rightarrow> 'o"
  call_NewCASAndAC :: "'m \<Rightarrow> 'o \<Rightarrow> int \<Rightarrow> 'o \<Rightarrow> 'w \<Rightarrow> ('o \<times> 'o) result \<times> 'w"
  call_NewBuildQueue :: "'m \<Rightarrow> 'o \<Rightarrow> 'w \<Rightarrow> 'o result \<times> 'w"
  call_NewFilePool :: "'m \<Rightarrow> 'w \<Rightarrow> 'o result \<times> 'w"
  call_NewMount :: "'m \<Rightarrow> 'w \<Rightarrow> ('o \<times> 'o) result \<times> 'w"
  call_NewCachingDirectoryFetcher :: "'m \<Rightarrow> 'd DirectoryFetcher \<Rightarrow> 'w \<Rightarrow> 'd DirectoryFetcher result \<times> 'w"
  call_NewScratchDirectory :: "'o \<Rightarrow> 'o \<Rightarrow> 'log prepopulated_parameters \<Rightarrow> 'w \<Rightarrow> 'dd \<times> 'w"
  call_MarkReadyAndWait :: "'o \<Rightarrow> 'w \<Rightarrow> 'w"

text \<open>What is made before the file system can be put together.\<close>

record ('m, 'o, 'd) main_storage =
  ms_configuration :: "'m ApplicationConfiguration"
  ms_lifecycleState :: 'o
  ms_grpcClientFactory :: 'o
  ms_zstdPool :: 'o
  ms_bare :: 'o
  ms_actionCache :: 'o
  ms_buildQueue :: 'o
  ms_filePool :: 'o
  ms_retrying :: "'o storage"
  ms_mount :: 'o
  ms_rootHandleAllocator :: 'o
  ms_directoryFetcher :: "'d DirectoryFetcher"

definition main_prepare ::
    "('m, 'o, 'd, 'log, 'dd, 'w) startup_calls \<Rightarrow> ('d, 'cmd, 'dir, 'leaf, 'sym, 'inst, 'e, 'df, 'o) cas_constructors \<Rightarrow>
     string list \<Rightarrow> 'w \<Rightarrow> ('m, 'o, 'd) main_storage result \<times> 'w" where
  "main_prepare calls cc args =
     (if length args \<noteq> 2 then Pair (Inl (Status InvalidArgument ''Usage: bb_clientd bb_clientd.jsonnet'' []))
      else
        try_call (call_UnmarshalConfiguration calls (args ! 1))
          (wrapped ''Failed to read configuration from %s'' [FStr (args ! 1)]) (\<lambda>configuration.
        try_call (call_ApplyConfiguration calls (cfg_Global configuration))
          (wrapped ''Failed to apply global configuration options'' []) (\<lambda>(lifecycleState, grpcClientFactory).
        let zstdPool = call_NewZstdPool calls (cfg_ZstdPool configuration) in
        try_call (call_NewCASAndAC calls (cfg_Blobstore configuration) grpcClientFactory (cfg_MaximumMessageSizeBytes configuration) zstdPool)
          id (\<lambda>(bare, actionCache).
        try_call (call_NewBuildQueue calls (cfg_Schedulers configuration) grpcClientFactory) id (\<lambda>buildQueue.
        try_call (call_NewFilePool calls (cfg_FilePool configuration)) (wrapped ''Failed to create file pool'' []) (\<lambda>filePool.
        try_call (Pair (main_retryingStorage (cfg_MaximumFileSystemRetryDelay configuration))) id (\<lambda>delay.
        let retrying = retrying_storage_of bare delay in
        try_call (call_NewMount calls (cfg_Mount configuration))
          (wrapped ''Failed to create virtual file system mount'' []) (\<lambda>(mount, rootHandleAllocator).
        try_call (call_NewCachingDirectoryFetcher calls (cfg_DirectoryCache configuration)
            (NewBlobAccessDirectoryFetcher cc retrying (cfg_MaximumMessageSizeBytes configuration) (cfg_MaximumTreeSizeBytes configuration)))
          (wrapped ''Failed to create caching directory fetcher'' []) (\<lambda>directoryFetcher.
        Pair (Inr \<lparr>ms_configuration = configuration, ms_lifecycleState = lifecycleState, ms_grpcClientFactory = grpcClientFactory,
          ms_zstdPool = zstdPool, ms_bare = bare, ms_actionCache = actionCache, ms_buildQueue = buildQueue, ms_filePool = filePool,
          ms_retrying = retrying, ms_mount = mount, ms_rootHandleAllocator = rootHandleAllocator,
          ms_directoryFetcher = directoryFetcher\<rparr>))))))))))"

text \<open>
  The service and the root directory. \<open>oc\<close> are the constructors of output paths, for a pool of
  files and an allocator of handles.
\<close>

definition main_outputs ::
    "('o \<Rightarrow> 'o \<Rightarrow> ('v, 'dd, 'l, 'dg, 'd2, 'h, 'r, 'o, 'log, 'w) output_path_constructors) \<Rightarrow> 'log \<Rightarrow> ('m, 'o, 'd) main_storage \<Rightarrow> 'w \<Rightarrow>
     ('v, 'd2, 'dd, 'd DirectoryFetcher, 'o) outputs_directory result \<times> 'w" where
  "main_outputs oc defaultLogger ms =
     try_call (main_outputPaths (oc (ms_filePool ms) (ms_rootHandleAllocator ms)) defaultLogger (ms_bare ms)
         (cfg_OutputPathPersistency (ms_configuration ms))) id (\<lambda>outputPathFactory.
     Pair (Inr \<lparr>od_outputPathFactory = outputPathFactory,
       od_bareContentAddressableStorage = ms_bare ms,
       od_retryingContentAddressableStorage = ms_retrying ms,
       od_directoryFetcher = ms_directoryFetcher ms,
       od_maximumTreeSizeBytes = cfg_MaximumTreeSizeBytes (ms_configuration ms)\<rparr>))"

definition main_mounted ::
    "('d, 'cmd, 'dir, 'leaf, 'sym, 'inst, 'e, 'df, 'o) cas_constructors \<Rightarrow> (string list \<Rightarrow> 'inst result) \<Rightarrow> ('m, 'o, 'd) main_storage \<Rightarrow>
     'outputs \<Rightarrow> 'scratch \<Rightarrow> string \<rightharpoonup> (('inst, ('d, 'dir, 'leaf) main_directory exec) instanceNameParsingDirectoryOptions \<times>
       ('d, 'dir, 'leaf) main_directory exec name_directory, 'outputs, 'scratch) root_child" where
  "main_mounted cc newInstanceName ms outputs scratch =
     main_rootDirectory (main_blobs_env cc (cfg_MaximumMessageSizeBytes (ms_configuration ms)) (ms_retrying ms) (ms_directoryFetcher ms))
       newInstanceName outputs scratch"

text \<open>\<open>expose\<close> is \<^verbatim>\<open>mount.Expose\<close>, \<open>serve\<close> is \<^verbatim>\<open>NewServersFromConfigurationAndServe\<close>.\<close>

definition main_RunMain where
  "main_RunMain calls cc oc newInstanceName defaultLogger expose serve args =
     try_call (main_prepare calls cc args) id (\<lambda>ms.
     try_call (main_outputs oc defaultLogger ms) id (\<lambda>outputsDirectory.
     (\<lambda>w. case call_NewScratchDirectory calls (ms_filePool ms) (ms_rootHandleAllocator ms) (main_scratch_parameters defaultLogger) w of
        (scratch, w1) \<Rightarrow>
     try_call (expose (ms_mount ms) (main_mounted cc newInstanceName ms outputsDirectory scratch))
       (wrapped ''Failed to expose virtual file system mount'' []) (\<lambda>_ :: unit.
     try_call (serve (cfg_GrpcServers (ms_configuration ms))
         (main_services (cfg_MaximumMessageSizeBytes (ms_configuration ms)) (ms_bare ms) (ms_actionCache ms) (ms_zstdPool ms)
            (ms_buildQueue ms) outputsDirectory) (ms_grpcClientFactory ms))
       (wrapped ''gRPC server failure'' []) (\<lambda>(_ :: unit) w.
     (Inr (), call_MarkReadyAndWait calls (ms_lifecycleState ms) w))) w1)))"

section \<open>Sequences of calls\<close>

lemma try_call_Inr [simp]:
  "try_call call wrap f w = (Inr y, w') \<longleftrightarrow> (\<exists>x w1. call w = (Inr x, w1) \<and> f x w1 = (Inr y, w'))"
  by (auto simp: try_call_def split: prod.splits sum.splits)

lemma try_call_cases [consumes 1, case_names fails continues]:
  assumes "try_call call wrap f w = (r, w')"
  obtains e where "call w = (Inl e, w')" "r = Inl (wrap e)"
  | x w1 where "call w = (Inr x, w1)" "f x w1 = (r, w')"
  using assms by (auto simp: try_call_def split: prod.splits sum.splits)

text \<open>A call keeps a predicate on the world.\<close>

definition keeps :: "('w \<Rightarrow> bool) \<Rightarrow> ('w \<Rightarrow> 'a \<times> 'w) \<Rightarrow> bool" where
  "keeps P call \<longleftrightarrow> (\<forall>w. P w \<longrightarrow> P (snd (call w)))"

named_theorems keeps_intro \<open>calls that keep a predicate on the world\<close>

lemma keepsD: "keeps P call \<Longrightarrow> P w \<Longrightarrow> call w = (r, w') \<Longrightarrow> P w'"
  by (force simp: keeps_def)

lemma keeps_Pair [keeps_intro]: "keeps P (Pair x)"
  by (simp add: keeps_def)

lemma keeps_try_call [keeps_intro]:
  assumes "keeps P call" "\<And>x. keeps P (f x)"
  shows "keeps P (try_call call wrap f)"
  unfolding keeps_def
proof (intro allI impI)
  fix w assume "P w"
  obtain r w1 where c: "call w = (r, w1)" by fastforce
  with assms(1) \<open>P w\<close> have "P w1" by (rule keepsD)
  with assms(2) c show "P (snd (try_call call wrap f w))" by (cases r) (auto simp: try_call_def keeps_def)
qed

lemma keeps_if [keeps_intro]: "(b \<Longrightarrow> keeps P c) \<Longrightarrow> (\<not> b \<Longrightarrow> keeps P d) \<Longrightarrow> keeps P (if b then c else d)"
  by simp

lemma keeps_case_prod [keeps_intro]: "(\<And>x y. z = (x, y) \<Longrightarrow> keeps P (f x y)) \<Longrightarrow> keeps P (case z of (x, y) \<Rightarrow> f x y)"
  by (cases z) simp

lemma keeps_case_option [keeps_intro]:
  "(z = None \<Longrightarrow> keeps P c) \<Longrightarrow> (\<And>x. z = Some x \<Longrightarrow> keeps P (f x)) \<Longrightarrow> keeps P (case z of None \<Rightarrow> c | Some x \<Rightarrow> f x)"
  by (cases z) simp_all

text \<open>All calls before the mount is exposed.\<close>

definition preparing_keeps where
  "preparing_keeps P calls oc \<longleftrightarrow>
     (\<forall>a. keeps P (call_UnmarshalConfiguration calls a)) \<and> (\<forall>a. keeps P (call_ApplyConfiguration calls a)) \<and>
     (\<forall>a b c d. keeps P (call_NewCASAndAC calls a b c d)) \<and> (\<forall>a b. keeps P (call_NewBuildQueue calls a b)) \<and>
     (\<forall>a. keeps P (call_NewFilePool calls a)) \<and> (\<forall>a. keeps P (call_NewMount calls a)) \<and>
     (\<forall>a b. keeps P (call_NewCachingDirectoryFetcher calls a b)) \<and> (\<forall>a b c. keeps P (call_NewScratchDirectory calls a b c)) \<and>
     (\<forall>a b c. keeps P (oc_NewLocalDirectory (oc a b) c))"

lemma main_prepare_keeps: "preparing_keeps P calls oc \<Longrightarrow> keeps P (main_prepare calls cc args)"
  unfolding main_prepare_def Let_def
  by (intro keeps_intro) (simp_all add: preparing_keeps_def)

lemma main_outputs_keeps: "preparing_keeps P calls oc \<Longrightarrow> keeps P (main_outputs oc defaultLogger ms)"
  unfolding main_outputs_def main_outputPaths_def Let_def
  by (intro keeps_intro) (simp_all add: preparing_keeps_def)

lemma main_RunMain_outcome:
  assumes run: "main_RunMain calls cc oc newInstanceName defaultLogger expose serve args w = (r, w')"
    and quiet: "\<not> mounted w" "\<not> serving w"
    and prepare: "preparing_keeps (\<lambda>w. \<not> mounted w \<and> \<not> serving w) calls oc"
    and expose: "\<And>a b w r w'. expose a b w = (r, w') \<Longrightarrow> \<not> serving w \<Longrightarrow> \<not> serving w'"
      "\<And>a b w e w'. expose a b w = (Inl e, w') \<Longrightarrow> \<not> mounted w \<Longrightarrow> \<not> mounted w'"
  shows "(\<not> mounted w' \<and> \<not> serving w' \<and> r \<noteq> Inr ()) \<or> (\<exists>e. r = Inl (wrapped ''gRPC server failure'' [] e)) \<or> r = Inr ()"
proof -
  let ?P = "\<lambda>w. \<not> mounted w \<and> \<not> serving w"
  let ?scratch = "\<lambda>ms. call_NewScratchDirectory calls (ms_filePool ms) (ms_rootHandleAllocator ms) (main_scratch_parameters defaultLogger)"
  have prep: "?P w1" if "main_prepare calls cc args w = (x, w1)" for x w1
    using keepsD [OF main_prepare_keeps [OF prepare] _ that] quiet by simp
  have outs: "?P w2" if "main_outputs oc defaultLogger ms w1 = (x, w2)" "?P w1" for ms w1 x w2
    using keepsD [OF main_outputs_keeps [OF prepare] that(2,1)] by simp
  have scratch: "?P w3" if "?scratch ms w2 = (x, w3)" "?P w2" for ms w2 x w3
  proof -
    have "keeps ?P (?scratch ms)" using prepare by (simp add: preparing_keeps_def)
    from keepsD [OF this that(2,1)] show ?thesis .
  qed
  from run show ?thesis unfolding main_RunMain_def
  proof (cases rule: try_call_cases)
    case (fails e)
    with prep show ?thesis by auto
  next
    case (continues ms w1)
    from continues(2) show ?thesis
    proof (cases rule: try_call_cases)
      case (fails e)
      with prep [OF continues(1)] outs show ?thesis by auto
    next
      case c2: (continues outputs w2)
      obtain scr w3 where scr: "?scratch ms w2 = (scr, w3)" by fastforce
      then have quiet3: "?P w3" using prep [OF continues(1)] outs [OF c2(1)] scratch by blast
      from c2(2) have "try_call (expose (ms_mount ms) (main_mounted cc newInstanceName ms outputs scr))
          (wrapped ''Failed to expose virtual file system mount'' []) (\<lambda>_.
        try_call (serve (cfg_GrpcServers (ms_configuration ms))
            (main_services (cfg_MaximumMessageSizeBytes (ms_configuration ms)) (ms_bare ms) (ms_actionCache ms) (ms_zstdPool ms)
               (ms_buildQueue ms) outputs) (ms_grpcClientFactory ms))
          (wrapped ''gRPC server failure'' []) (\<lambda>_ w. (Inr (), call_MarkReadyAndWait calls (ms_lifecycleState ms) w))) w3 = (r, w')"
        by (simp only: scr prod.case)
      then show ?thesis
      proof (cases rule: try_call_cases)
        case (fails e)
        with expose quiet3 show ?thesis by auto
      next
        case (continues u w4)
        from continues(2) show ?thesis by (cases rule: try_call_cases) auto
      qed
    qed
  qed
qed

section \<open>A running daemon\<close>

lemma main_prepare_made:
  assumes "main_prepare calls cc args w = (Inr ms, w')"
  shows "\<exists>r. main_retryingStorage (cfg_MaximumFileSystemRetryDelay (ms_configuration ms)) = Inr r \<and>
    ms_retrying ms = retrying_storage_of (ms_bare ms) r"
  using assms by (auto simp: main_prepare_def Let_def split: if_splits prod.splits)

lemma main_prepare_fetcher:
  assumes "main_prepare calls cc args w = (Inr ms, w')"
  shows "\<exists>w1 w2. call_NewCachingDirectoryFetcher calls (cfg_DirectoryCache (ms_configuration ms))
    (NewBlobAccessDirectoryFetcher cc (ms_retrying ms) (cfg_MaximumMessageSizeBytes (ms_configuration ms))
       (cfg_MaximumTreeSizeBytes (ms_configuration ms))) w1 = (Inr (ms_directoryFetcher ms), w2)"
  using assms by (fastforce simp: main_prepare_def Let_def split: if_splits prod.splits)

lemma main_outputs_made:
  assumes "main_outputs oc defaultLogger ms w = (Inr outputs, w')"
  shows "od_bareContentAddressableStorage outputs = ms_bare ms \<and> od_retryingContentAddressableStorage outputs = ms_retrying ms \<and>
    od_directoryFetcher outputs = ms_directoryFetcher ms \<and>
    od_maximumTreeSizeBytes outputs = cfg_MaximumTreeSizeBytes (ms_configuration ms)"
  using assms by (auto simp: main_outputs_def)

lemma main_RunMain_succeeds:
  assumes "main_RunMain calls cc oc newInstanceName defaultLogger expose serve args w = (Inr u, w')"
  shows "\<exists>ms outputs scratch w1 w2 w3 w4 w5. main_prepare calls cc args w = (Inr ms, w1) \<and>
    main_outputs oc defaultLogger ms w1 = (Inr outputs, w2) \<and>
    expose (ms_mount ms) (main_mounted cc newInstanceName ms outputs scratch) w3 = (Inr (), w4) \<and>
    serve (cfg_GrpcServers (ms_configuration ms))
         (main_services (cfg_MaximumMessageSizeBytes (ms_configuration ms)) (ms_bare ms) (ms_actionCache ms) (ms_zstdPool ms)
            (ms_buildQueue ms) outputs) (ms_grpcClientFactory ms) w4 = (Inr (), w5)"
proof -
  obtain ms w1 outputs w2 u1 w4 u2 w5 where r: "main_prepare calls cc args w = (Inr ms, w1)"
    "main_outputs oc defaultLogger ms w1 = (Inr outputs, w2)"
    "expose (ms_mount ms) (main_mounted cc newInstanceName ms outputs (fst (call_NewScratchDirectory calls (ms_filePool ms)
       (ms_rootHandleAllocator ms) (main_scratch_parameters defaultLogger) w2)))
     (snd (call_NewScratchDirectory calls (ms_filePool ms) (ms_rootHandleAllocator ms) (main_scratch_parameters defaultLogger) w2)) = (Inr u1, w4)"
    "serve (cfg_GrpcServers (ms_configuration ms))
       (main_services (cfg_MaximumMessageSizeBytes (ms_configuration ms)) (ms_bare ms) (ms_actionCache ms) (ms_zstdPool ms)
          (ms_buildQueue ms) outputs) (ms_grpcClientFactory ms) w4 = (Inr u2, w5)"
    using assms unfolding main_RunMain_def try_call_Inr split_beta by auto
  have "u1 = ()" "u2 = ()" by simp_all
  with r show ?thesis by (intro exI conjI) simp_all
qed

definition supported_under where
  "supported_under cc inst df \<longleftrightarrow>
     (\<forall>e \<in> set (cc_SupportedDigestFunctions cc). cc_GetDigestFunction cc inst e 0 = Inr (df e)) \<and>
     distinct (map (cc_DigestFunction_name cc) (cc_SupportedDigestFunctions cc))"

definition file_system_storage :: "'o \<Rightarrow> duration_ops option \<Rightarrow> 'o storage" where
  "file_system_storage bare delay = (case delay of None \<Rightarrow> BareStorage bare
     | Some d \<Rightarrow> ErrorRetryingStorage bare \<lparr>initialInterval = 10 ^ 9, maximumInterval = 30 * 10 ^ 9, maximumDelay = AsDuration d\<rparr>)"

lemma prepared_storage:
  "main_prepare calls cc args w = (Inr ms, w') \<Longrightarrow>
   ms_retrying ms = file_system_storage (ms_bare ms) (cfg_MaximumFileSystemRetryDelay (ms_configuration ms))"
  using main_prepare_made
  by (force simp: main_retryingStorage_def retrying_storage_of_def file_system_storage_def time_Second_def split: option.splits)

text \<open>The object of a digest, for each of the five kinds.\<close>

definition cas_object ::
    "('d, 'cmd, 'dir, 'leaf, 'sym, 'inst, 'e, 'df, 'o) cas_constructors \<Rightarrow> 'o storage \<Rightarrow> int \<Rightarrow> string \<Rightarrow> 'd \<Rightarrow> ('dir, 'leaf) lookup_result" where
  "cas_object cc storage maximumMessageSizeBytes kind dg =
     (if kind = ''file'' then Inr (FromLeaf (NewCASFileFactory cc storage dg False))
      else if kind = ''executable'' then Inr (FromLeaf (NewCASFileFactory cc storage dg True))
      else if kind = ''directory'' then Inr (FromDirectory (decomposed_AsStatelessDirectory cc dg [0]))
      else if kind = ''tree'' then Inr (FromDirectory (tree_AsStatelessDirectory cc dg [0, 0]))
      else (case fst (command_LookupFile (cc_commands cc) (GetCommand cc storage maximumMessageSizeBytes) dg) of
              Inl s \<Rightarrow> Inl s | Inr f \<Rightarrow> Inr (FromLeaf (command_AsLeaf cc dg f))))"

lemma main_lookup_object:
  "kind \<in> set main_kinds \<Longrightarrow> main_lookup (main_blobs_env cc n storage fetcher) kind dg = cas_object cc storage n kind dg"
  by (auto simp: main_kinds_def main_lookup_def main_blobs_env_def cas_object_def Let_def NewDecomposedCASDirectoryFactory_def
      NewTreeCASDirectoryFactory_def decomposed_LookupDirectory_self tree_LookupDirectory_def createSelf_def
      decomposed_createDirectory_def tree_createRootDirectory_def handleAllocating_LookupFile_def split: sum.splits prod.splits)

lemma main_blobs_factories:
  "cdf_directoryFetcher (be_decomposed (main_blobs_env cc n storage fetcher)) = fetcher"
  "cdf_directoryFetcher (be_tree (main_blobs_env cc n storage fetcher)) = fetcher"
  "cdf_LookupFile (be_decomposed (main_blobs_env cc n storage fetcher)) = NewCASFileFactory cc storage"
  "cdf_LookupFile (be_tree (main_blobs_env cc n storage fetcher)) = NewCASFileFactory cc storage"
  by (simp_all add: main_blobs_env_def Let_def NewDecomposedCASDirectoryFactory_def NewTreeCASDirectoryFactory_def)

text \<open>
  What the daemon has mounted when it serves requests, and what it serves.
\<close>

lemma running_daemon:
  fixes cc :: "('d, 'cmd, 'dir, 'leaf, 'sym, 'inst, 'e, 'df, 'o) cas_constructors"
  assumes run: "main_RunMain calls cc oc newInstanceName defaultLogger expose serve args w = (Inr u, w')"
    and sup: "supported_under cc inst df" "e \<in> set (cc_SupportedDigestFunctions cc)" "kind \<in> set main_kinds"
    and inst: "newInstanceName ns = Inr inst" "''blobs'' \<notin> set ns"
    and dg: "cc_NewDigest cc (df e) hash (int sz) = Inr dg" "sz < 2 ^ 63"
  shows "\<exists>(ms :: (_, _, _) main_storage) outputs root (env :: ('inst, 'e, 'df, 'd, 'dir, 'leaf, 'sym) blobs_env) scratch storage w1 w3 w4 w5 w6 w7 services options d h blobs dpd.
    main_prepare calls cc args w = (Inr ms, w1) \<and>
    expose (ms_mount ms) root w3 = (Inr (), w4) \<and>
    serve (cfg_GrpcServers (ms_configuration ms)) services (ms_grpcClientFactory ms) w4 = (Inr (), w5) \<and>
    ContentAddressableStorageServer (ms_bare ms) (cfg_MaximumMessageSizeBytes (ms_configuration ms)) \<in> set services \<and>
    BazelOutputServiceServer outputs \<in> set services \<and>
    storage = file_system_storage (ms_bare ms) (cfg_MaximumFileSystemRetryDelay (ms_configuration ms)) \<and>
    call_NewCachingDirectoryFetcher calls (cfg_DirectoryCache (ms_configuration ms))
      (NewBlobAccessDirectoryFetcher cc storage (cfg_MaximumMessageSizeBytes (ms_configuration ms))
         (cfg_MaximumTreeSizeBytes (ms_configuration ms))) w6 = (Inr (ms_directoryFetcher ms), w7) \<and>
    od_bareContentAddressableStorage outputs = ms_bare ms \<and> od_retryingContentAddressableStorage outputs = storage \<and>
    od_directoryFetcher outputs = ms_directoryFetcher ms \<and>
    root = main_rootDirectory env newInstanceName outputs scratch \<and>
    cdf_directoryFetcher (be_decomposed env) = ms_directoryFetcher ms \<and> cdf_directoryFetcher (be_tree env) = ms_directoryFetcher ms \<and>
    cdf_LookupFile (be_decomposed env) = NewCASFileFactory cc storage \<and> cdf_LookupFile (be_tree env) = NewCASFileFactory cc storage \<and>
    root ''outputs'' = Some (OutputsChild outputs) \<and>
    root ''cas'' = Some (CasChild (options, d)) \<and> walk_names options d (ns @ [''blobs'']) = Some (Inr (TargetDirectory (Returns blobs))) \<and>
    directory_at blobs [cc_DigestFunction_name cc e, kind] = Some (DigestParsingDirectory h dpd) \<and>
    digestParsing_VirtualLookup dpd (hash @ ''-'' @ decimal sz) =
      cas_object cc storage (cfg_MaximumMessageSizeBytes (ms_configuration ms)) kind dg"
proof -
  obtain ms outputs scratch w1 w2 w3 w4 w5 where r: "main_prepare calls cc args w = (Inr ms, w1)"
    "main_outputs oc defaultLogger ms w1 = (Inr outputs, w2)"
    "expose (ms_mount ms) (main_mounted cc newInstanceName ms outputs scratch) w3 = (Inr (), w4)"
    "serve (cfg_GrpcServers (ms_configuration ms)) (main_services (cfg_MaximumMessageSizeBytes (ms_configuration ms)) (ms_bare ms)
       (ms_actionCache ms) (ms_zstdPool ms) (ms_buildQueue ms) outputs) (ms_grpcClientFactory ms) w4 = (Inr (), w5)"
    using main_RunMain_succeeds [OF run] by auto
  let ?env = "main_blobs_env cc (cfg_MaximumMessageSizeBytes (ms_configuration ms)) (ms_retrying ms) (ms_directoryFetcher ms)"
  have env: "functions_supported ?env inst df" "e \<in> set (be_SupportedDigestFunctions ?env)" "be_NewDigest ?env (df e) hash (int sz) = Inr dg"
    "be_name ?env e = cc_DigestFunction_name cc e"
    using sup dg by (auto simp: functions_supported_def supported_under_def main_blobs_env_def Let_def)
  obtain options d h blobs dpd where c: "main_rootDirectory ?env newInstanceName outputs scratch ''cas'' = Some (CasChild (options, d))"
    "walk_names options d (ns @ [''blobs'']) = Some (Inr (TargetDirectory (Returns blobs)))"
    "directory_at blobs [be_name ?env e, kind] = Some (DigestParsingDirectory h dpd)"
    "digestParsing_VirtualLookup dpd (hash @ ''-'' @ decimal sz) = main_lookup ?env kind dg"
    using cas_path_resolves [where newInstanceName = newInstanceName and ns = ns and outputs = outputs and scratch = scratch,
        OF env(1,2) sup(3) inst env(3) dg(2)] by blast
  have out: "main_rootDirectory ?env newInstanceName outputs scratch ''outputs'' = Some (OutputsChild outputs)"
    by (simp add: main_rootDirectory_def)
  have srv: "ContentAddressableStorageServer (ms_bare ms) m \<in> set (main_services m (ms_bare ms) a z q outputs)"
    "BazelOutputServiceServer outputs \<in> set (main_services m (ms_bare ms) a z q outputs)" for m a z q
    by (simp_all add: main_services_def)
  obtain w6 w7 where f: "call_NewCachingDirectoryFetcher calls (cfg_DirectoryCache (ms_configuration ms))
      (NewBlobAccessDirectoryFetcher cc (ms_retrying ms) (cfg_MaximumMessageSizeBytes (ms_configuration ms))
         (cfg_MaximumTreeSizeBytes (ms_configuration ms))) w6 = (Inr (ms_directoryFetcher ms), w7)"
    using main_prepare_fetcher [OF r(1)] by blast
  note o = main_outputs_made [OF r(2)]
  show ?thesis
    by (intro exI conjI, rule r(1), rule r(3) [unfolded main_mounted_def], rule r(4), rule srv(1), rule srv(2),
        rule prepared_storage [OF r(1)], rule f, rule o [THEN conjunct1], rule o [THEN conjunct2, THEN conjunct1],
        rule o [THEN conjunct2, THEN conjunct2, THEN conjunct1], rule refl, rule main_blobs_factories(1),
        rule main_blobs_factories(2), rule main_blobs_factories(3), rule main_blobs_factories(4), rule out, rule c(1),
        rule c(2), rule c(3) [unfolded env(4)], rule trans [OF c(4) main_lookup_object [OF sup(3)]])
qed

text \<open>
  With persistency and uploads configured the chain is the one of \<^verbatim>\<open>Output_Chain\<close>, on a store with the
  configured limits.
\<close>

lemma main_outputPaths_uploading:
  assumes "main_outputPaths oc errorLogger bare (Some p) w = (Inr F, w')" "0 < LocalFileUploadConcurrency p"
  shows "\<exists>dir pf. oc_NewLocalDirectory oc (StateDirectoryPath p) w = (Inr dir, w') \<and>
    F = UploadingChain (main_outputPathFactory (oc_upload oc bare (LocalFileUploadConcurrency p)) pf) \<and>
    pf_store pf = main_outputPathStore (oc_NewComponent oc) (oc_codec oc) dir (MaximumStateFileSizeBytes p) (oc_time oc)
      (AsDuration (MaximumStateFileAge p)) (oc_Now oc) \<and> pf_restorer pf = pf_restorer (oc_persistent oc)"
  using assms by (auto simp: main_outputPaths_def Let_def split: option.splits if_splits) (rule exI, rule conjI [OF refl], simp)

section \<open>A concrete daemon\<close>

text \<open>The world is whether the file system is mounted, and whether requests are served.\<close>

type_synonym demo_digest = "string \<times> string \<times> int"

definition demo_cc :: "(demo_digest, unit, nat, nat storage \<times> demo_digest, nat, string, string, string, nat) cas_constructors" where
  "demo_cc = \<lparr>NewBlobAccessDirectoryFetcher = (\<lambda>_ _ _. cdf_directoryFetcher demo_factory), NewCASFileFactory = (\<lambda>storage d x. (storage, d)),
     cc_digest = cdf_digest demo_factory, cc_LookupSymlink = (\<lambda>s. Inl EOF),
     decomposed_AsStatelessDirectory = (\<lambda>d b. 0), decomposed_AsLinkableLeaf = (\<lambda>d b s. (BareStorage 0, d)),
     tree_AsStatelessDirectory = (\<lambda>d b. 1), tree_AsLinkableLeaf = (\<lambda>d b s. (BareStorage 0, d)),
     cc_commands = \<lparr>ConvertCommandToShellScript = (\<lambda>_. ([], None)), ff_digest_String = (\<lambda>_. []), BoundReadToFileSize = (\<lambda>n off sz. (n, False))\<rparr>,
     GetCommand = (\<lambda>_ _ _. Inl EOF), command_AsLeaf = (\<lambda>d f. (BareStorage 0, d)), cc_InstanceName_String = (\<lambda>i. i),
     cc_SupportedDigestFunctions = [''md5'', ''sha256''], cc_DigestFunction_name = (\<lambda>e. e),
     cc_GetDigestFunction = (\<lambda>i e n. Inr (i @ e)), cc_NewDigest = (\<lambda>df h n. Inr (df, h, n))\<rparr>"

definition demo_configuration :: "unit ApplicationConfiguration" where
  "demo_configuration = \<lparr>cfg_Global = (), cfg_ZstdPool = (), cfg_Blobstore = (), cfg_Schedulers = (), cfg_FilePool = (), cfg_Mount = (),
     cfg_DirectoryCache = (), cfg_GrpcServers = (), cfg_MaximumMessageSizeBytes = 1000, cfg_MaximumTreeSizeBytes = 2000,
     cfg_MaximumFileSystemRetryDelay = Some \<lparr>duration_ops.CheckValid = None, AsDuration = 5\<rparr>,
     cfg_OutputPathPersistency = Some \<lparr>LocalFileUploadConcurrency = 1, StateDirectoryPath = ''/state'',
       MaximumStateFileAge = \<lparr>duration_ops.CheckValid = None, AsDuration = 7\<rparr>, MaximumStateFileSizeBytes = 100\<rparr>\<rparr>"

definition demo_calls :: "nat result \<Rightarrow> (unit, nat, demo_digest, unit, nat, bool \<times> bool) startup_calls" where
  "demo_calls filePool = \<lparr>call_UnmarshalConfiguration = (\<lambda>a. Pair (Inr demo_configuration)), call_ApplyConfiguration = (\<lambda>m. Pair (Inr (10, 11))),
     call_NewZstdPool = (\<lambda>m. 12), call_NewCASAndAC = (\<lambda>m f n z. Pair (Inr (1, 2))), call_NewBuildQueue = (\<lambda>m f. Pair (Inr 3)),
     call_NewFilePool = (\<lambda>m. Pair filePool), call_NewMount = (\<lambda>m. Pair (Inr (5, 6))),
     call_NewCachingDirectoryFetcher = (\<lambda>m f. Pair (Inr f)), call_NewScratchDirectory = (\<lambda>p a x. Pair 0),
     call_MarkReadyAndWait = (\<lambda>l w. w)\<rparr>"

definition demo_oc :: "nat \<Rightarrow> nat \<Rightarrow> (mem_vfs, string list, leaf_node, proto_digest, mem_state, string, unit, nat, unit, bool \<times> bool) output_path_constructors" where
  "demo_oc pool alloc = \<lparr>oc_NewDirectory = (\<lambda>_. NewInMemoryPrepopulatedDirectory mem_ops), oc_persistent = chain_pf, oc_upload = (\<lambda>_ _. chain_up),
     oc_NewLocalDirectory = (\<lambda>_. Pair (Inr mem_dir)), oc_NewComponent = (\<lambda>n. n \<noteq> []), oc_codec = chain_codec,
     oc_time = \<lparr>time_ops.CheckValid = \<lambda>_. None, AsTime = \<lambda>_. 0\<rparr>, oc_Now = 0\<rparr>"

abbreviation demo_run where
  "demo_run filePool args w \<equiv> main_RunMain (demo_calls filePool) demo_cc demo_oc (\<lambda>ns. Inr (concat ns)) ()
     (\<lambda>mount root w. (Inr (), (True, snd w))) (\<lambda>servers services f w. (Inr (), (fst w, True))) args w"

lemma demo_runs: "demo_run (Inr 4) [''bb_clientd'', ''c''] (False, False) = (Inr (), (True, True))"
  by (simp add: main_RunMain_def main_prepare_def try_call_def demo_calls_def demo_configuration_def main_outputs_def
      main_outputPaths_def demo_oc_def main_retryingStorage_def Let_def)

section \<open>Properties\<close>

text \<open>
  C35. A failed start leaves nothing behind. If no call before mounting mounts or serves, and
  exposing the mount does not serve and mounts nothing when it fails, then \<^verbatim>\<open>main\<close> returns nil, or an
  error of the gRPC servers, or it failed with the file system not mounted and nothing served:
  an invalid argument, configuration, duration, storage, mount or state directory is found
  before the file system is exposed.
\<close>

theorem failed_start_is_clean:
  assumes "main_RunMain calls cc oc newInstanceName defaultLogger expose serve args w = (r, w')"
    and "\<not> mounted w" "\<not> serving w" "preparing_keeps (\<lambda>w. \<not> mounted w \<and> \<not> serving w) calls oc"
    and "\<And>a b w r w'. expose a b w = (r, w') \<Longrightarrow> \<not> serving w \<Longrightarrow> \<not> serving w'"
      "\<And>a b w e w'. expose a b w = (Inl e, w') \<Longrightarrow> \<not> mounted w \<Longrightarrow> \<not> mounted w'"
  shows "(\<not> mounted w' \<and> \<not> serving w' \<and> r \<noteq> Inr ()) \<or> (\<exists>e. r = Inl (wrapped ''gRPC server failure'' [] e)) \<or> r = Inr ()"
  by (rule main_RunMain_outcome [OF assms])

theorem failed_start_is_clean_witness:
  "\<exists>w'. demo_run (Inl EOF) [''bb_clientd'', ''c''] (False, False) = (Inl (wrapped ''Failed to create file pool'' [] EOF), w') \<and>
     \<not> fst w' \<and> \<not> snd w'"
proof -
  obtain w' where r: "demo_run (Inl EOF) [''bb_clientd'', ''c''] (False, False) = (Inl (wrapped ''Failed to create file pool'' [] EOF), w')"
    by (simp add: main_RunMain_def main_prepare_def try_call_def demo_calls_def Let_def)
  have k: "preparing_keeps (\<lambda>w. \<not> fst w \<and> \<not> snd w) (demo_calls (Inl EOF)) demo_oc"
    by (simp add: preparing_keeps_def demo_calls_def demo_oc_def keeps_Pair)
  from failed_start_is_clean [OF r, where mounted = fst and serving = snd, OF _ _ k] r show ?thesis by (auto simp: wrapped_def)
qed

text \<open>
  C34. A daemon that runs gives access to the whole Content Addressable Storage, with reads through
  the file system retried and requests not. When \<^verbatim>\<open>main\<close> returns nil it has exposed a root
  directory in which the path \<^verbatim>\<open>cas/instance name/blobs/digest function/kind/digest\<close> leads to the
  object of that kind and digest: a file of the storage that is or is not executable, the root of a
  decomposed directory or of a tree, or the script of a command. The storage of these objects, and
  that from which the cached directory fetcher reads the contents of directories, is the configured
  one with reads retried for the configured delay (starting at one second, at most every 30
  seconds), or the configured one itself without a delay. What was served to clients is the
  configured storage itself, and the very Bazel Output Service that is the directory \<^verbatim>\<open>outputs\<close>,
  which uses the same two storages and the same fetcher.
\<close>

theorem running_daemon_serves_storage:
  fixes cc :: "('d, 'cmd, 'dir, 'leaf, 'sym, 'inst, 'e, 'df, 'o) cas_constructors"
  assumes "main_RunMain calls cc oc newInstanceName defaultLogger expose serve args w = (Inr u, w')"
    and "supported_under cc inst df" "e \<in> set (cc_SupportedDigestFunctions cc)" "kind \<in> set main_kinds"
    and "newInstanceName ns = Inr inst" "''blobs'' \<notin> set ns"
    and "cc_NewDigest cc (df e) hash (int sz) = Inr dg" "sz < 2 ^ 63"
  shows "\<exists>(ms :: (_, _, _) main_storage) outputs root (env :: ('inst, 'e, 'df, 'd, 'dir, 'leaf, 'sym) blobs_env) scratch storage w1 w3 w4 w5 w6 w7 services options d h blobs dpd.
    main_prepare calls cc args w = (Inr ms, w1) \<and>
    expose (ms_mount ms) root w3 = (Inr (), w4) \<and>
    serve (cfg_GrpcServers (ms_configuration ms)) services (ms_grpcClientFactory ms) w4 = (Inr (), w5) \<and>
    ContentAddressableStorageServer (ms_bare ms) (cfg_MaximumMessageSizeBytes (ms_configuration ms)) \<in> set services \<and>
    BazelOutputServiceServer outputs \<in> set services \<and>
    storage = (case cfg_MaximumFileSystemRetryDelay (ms_configuration ms) of None \<Rightarrow> BareStorage (ms_bare ms)
     | Some delay \<Rightarrow> ErrorRetryingStorage (ms_bare ms)
         \<lparr>initialInterval = 10 ^ 9, maximumInterval = 30 * 10 ^ 9, maximumDelay = AsDuration delay\<rparr>) \<and>
    call_NewCachingDirectoryFetcher calls (cfg_DirectoryCache (ms_configuration ms))
      (NewBlobAccessDirectoryFetcher cc storage (cfg_MaximumMessageSizeBytes (ms_configuration ms))
         (cfg_MaximumTreeSizeBytes (ms_configuration ms))) w6 = (Inr (ms_directoryFetcher ms), w7) \<and>
    od_bareContentAddressableStorage outputs = ms_bare ms \<and> od_retryingContentAddressableStorage outputs = storage \<and>
    od_directoryFetcher outputs = ms_directoryFetcher ms \<and>
    root = main_rootDirectory env newInstanceName outputs scratch \<and>
    cdf_directoryFetcher (be_decomposed env) = ms_directoryFetcher ms \<and> cdf_directoryFetcher (be_tree env) = ms_directoryFetcher ms \<and>
    cdf_LookupFile (be_decomposed env) = NewCASFileFactory cc storage \<and> cdf_LookupFile (be_tree env) = NewCASFileFactory cc storage \<and>
    root ''outputs'' = Some (OutputsChild outputs) \<and>
    root ''cas'' = Some (CasChild (options, d)) \<and> walk_names options d (ns @ [''blobs'']) = Some (Inr (TargetDirectory (Returns blobs))) \<and>
    directory_at blobs [cc_DigestFunction_name cc e, kind] = Some (DigestParsingDirectory h dpd) \<and>
    digestParsing_VirtualLookup dpd (hash @ ''-'' @ decimal sz) =
      (if kind = ''file'' then Inr (FromLeaf (NewCASFileFactory cc storage dg False))
       else if kind = ''executable'' then Inr (FromLeaf (NewCASFileFactory cc storage dg True))
       else if kind = ''directory'' then Inr (FromDirectory (decomposed_AsStatelessDirectory cc dg [0]))
       else if kind = ''tree'' then Inr (FromDirectory (tree_AsStatelessDirectory cc dg [0, 0]))
       else (case fst (command_LookupFile (cc_commands cc) (GetCommand cc storage (cfg_MaximumMessageSizeBytes (ms_configuration ms))) dg) of
               Inl s \<Rightarrow> Inl s | Inr f \<Rightarrow> Inr (FromLeaf (command_AsLeaf cc dg f))))"
  by (rule running_daemon [where newInstanceName = newInstanceName and ns = ns and df = df and e = e,
        OF assms, unfolded cas_object_def file_system_storage_def])

theorem running_daemon_serves_storage_witness:
  "\<exists>(options :: (string, _) instanceNameParsingDirectoryOptions) d h blobs (dpd :: (demo_digest, nat, _) digestParsingDirectory).
     walk_names options d [''a'', ''blobs''] = Some (Inr (TargetDirectory (Returns blobs))) \<and>
     directory_at blobs [''sha256'', ''file''] = Some (DigestParsingDirectory h dpd) \<and>
     digestParsing_VirtualLookup dpd ''ab-123'' = Inr (FromLeaf (ErrorRetryingStorage (1 :: nat)
       \<lparr>initialInterval = 10 ^ 9, maximumInterval = 30 * 10 ^ 9, maximumDelay = 5\<rparr>, ''asha256'', ''ab'', 123 :: int))"
proof -
  have sup: "supported_under demo_cc ''a'' (\<lambda>e. ''a'' @ e)" "''sha256'' \<in> set (cc_SupportedDigestFunctions demo_cc)" "''file'' \<in> set main_kinds"
    "cc_NewDigest demo_cc (''a'' @ ''sha256'') ''ab'' (int 123) = Inr (''asha256'', ''ab'', 123)" "(\<lambda>ns. Inr (concat ns) :: string result) [''a''] = Inr ''a''"
    "cc_DigestFunction_name demo_cc ''sha256'' = ''sha256''"
    by (simp_all add: supported_under_def demo_cc_def main_kinds_def)
  have d: "decimal 123 = ''123''" by code_simp
  have ms: "ms_bare ms = 1 \<and> ms_configuration ms = demo_configuration"
    if "main_prepare (demo_calls (Inr 4)) demo_cc [''bb_clientd'', ''c''] (False, False) = (Inr ms, w1)" for ms w1
    using that by (auto simp: main_prepare_def demo_calls_def demo_configuration_def main_retryingStorage_def Let_def)
  have file_factory: "NewCASFileFactory demo_cc = (\<lambda>storage d x. (storage, d))" by (simp add: demo_cc_def)
  have nb: "''blobs'' \<notin> set [''a'']" and lt: "(123 :: nat) < 2 ^ 63" by simp_all
  obtain ms storage w1 and options :: "(string, _) instanceNameParsingDirectoryOptions" and d h blobs and dpd :: "(demo_digest, nat, _) digestParsingDirectory"
    where r: "main_prepare (demo_calls (Inr 4)) demo_cc [''bb_clientd'', ''c''] (False, False) = (Inr ms, w1)"
    "storage = (case cfg_MaximumFileSystemRetryDelay (ms_configuration ms) of None \<Rightarrow> BareStorage (ms_bare ms)
     | Some delay \<Rightarrow> ErrorRetryingStorage (ms_bare ms)
         \<lparr>initialInterval = 10 ^ 9, maximumInterval = 30 * 10 ^ 9, maximumDelay = AsDuration delay\<rparr>)"
    "walk_names options d ([''a''] @ [''blobs'']) = Some (Inr (TargetDirectory (Returns blobs)))"
    "directory_at blobs [cc_DigestFunction_name demo_cc ''sha256'', ''file''] = Some (DigestParsingDirectory h dpd)"
    "digestParsing_VirtualLookup dpd (''ab'' @ ''-'' @ decimal 123) = Inr (FromLeaf (storage, (''asha256'', ''ab'', 123 :: int)))"
    using running_daemon_serves_storage [where newInstanceName = "\<lambda>ns. Inr (concat ns)" and ns = "[''a'']" and df = "\<lambda>e. ''a'' @ e" and e = "''sha256''",
      OF demo_runs sup(1,2,3,5) nb sup(4) lt, unfolded if_P [OF refl] file_factory]
    by (elim exE conjE) (rule that)
  have "storage = ErrorRetryingStorage 1 \<lparr>initialInterval = 10 ^ 9, maximumInterval = 30 * 10 ^ 9, maximumDelay = 5\<rparr>"
    using ms [OF r(1)] r(2) by (simp add: demo_configuration_def)
  with r(3-5) show ?thesis unfolding d sup(6) append.simps by (intro exI conjI) (assumption | simp only:)+
qed

end
