(* ===== verification/Spec2Isabelle.thy ===== *)
theory Spec2Isabelle
  imports State_Store CAS_Factories Parsing_Directories Command_File Error_Retrying Service_Chain Build_Artifacts Startup
begin

text \<open>
  A verification library for bb-clientd, the daemon that shows the Content Addressable Storage
  (CAS) of a remote build cluster as a virtual file system and gives Bazel a place, the Bazel
  Output Service, for the outputs of builds.

  \<^bold>\<open>The program.\<close> \<^verbatim>\<open>cmd/bb_clientd/main.go\<close> mounts a file system with three directories.
  \<^verbatim>\<open>cas\<close> leads through instance names and digest functions to every object of the CAS: files,
  executables, REv2 Directory and Tree objects as directories, and Command messages as shell
  scripts. \<^verbatim>\<open>outputs\<close> is the directory of the Bazel Output Service, with one output path per
  Bazel output base, which builds fill by remote calls. \<^verbatim>\<open>scratch\<close> is a plain directory of a
  library. Output paths are made by a chain of factories: in memory; uploading local files when a
  build is finalized; saving the tree to a state file then, and restoring it at the first build
  after a restart. State files are kept by a store in a directory, below one that rejects old ones.

  \<^bold>\<open>Conventions\<close> (\<^verbatim>\<open>BB_Prelude\<close>). Go values that fail are \<open>go_error + 'a\<close>, where an error is a
  term that records the call that made it. Code that can panic or loop has the type \<open>exec\<close>
  (\<open>Returns\<close>, \<open>Panics\<close>, \<open>Diverges\<close>); loops without a structural bound are
  \<^verbatim>\<open>partial_function (option)\<close>, and their termination is a theorem. State is passed explicitly,
  and what is logged is part of the result. \<^verbatim>\<open>uint64\<close> and bytes are words; \<^verbatim>\<open>int64\<close> is \<open>int\<close> with
  \<open>to_int64\<close> after operations that may wrap. Code outside the repository is an argument: a record of
  operations, whose documented behaviour is a locale or a named predicate where a property needs it.

  \<^bold>\<open>Theories, and the code they model.\<close>

  \<^item> \<^verbatim>\<open>Go_Std\<close>: \<^verbatim>\<open>sort.Search\<close>, variable-length integers, little-endian words, \<^verbatim>\<open>io.ReadFull\<close> and
    \<^verbatim>\<open>bufio.Writer\<close> of the Go library, with what they compute; the locale \<open>io_sink\<close> for writers.
  \<^item> \<^verbatim>\<open>State_File\<close>: \<^verbatim>\<open>pkg/outputpathpersistency/header.go, file_writer.go, file_reader.go\<close>. The locales
    \<open>writer_at\<close> and \<open>reader_at\<close> (a file) are interpreted on a file held as bytes. Lemmas: what was written
    reads back; reading is within bounds, descends and returns; an unfinished file is rejected.
  \<^item> \<^verbatim>\<open>State_Store\<close>: \<^verbatim>\<open>directory_backed_store.go, maximum_age_store.go\<close>. The locale \<open>state_directory\<close> gives
    \<open>persistency_store\<close> by \<^verbatim>\<open>sublocale\<close>, and is interpreted on a directory in memory.
  \<^item> \<^verbatim>\<open>Virtual_FS\<close>: the vocabulary of virtual directories, and \<^verbatim>\<open>non_iterable_directory.go\<close>.
  \<^item> \<^verbatim>\<open>CAS_Directory\<close>: \<^verbatim>\<open>pkg/filesystem/virtual/cas_directory.go\<close>. Listings equal a reference listing,
    binary searches of lookups agree with it, handles resolve to what they were made for.
  \<^item> \<^verbatim>\<open>CAS_Factories\<close>: \<^verbatim>\<open>decomposed_cas_directory_factory.go, tree_cas_directory_factory.go\<close> and
    \<^verbatim>\<open>pkg/cas/tree_directory_walker.go\<close>. The locale \<open>resolvable_directories\<close> is interpreted on both factories.
  \<^item> \<^verbatim>\<open>Parsing_Directories\<close>: \<^verbatim>\<open>digest_parsing_directory.go, instance_name_parsing_directory.go\<close>.
  \<^item> \<^verbatim>\<open>Command_File\<close>: \<^verbatim>\<open>blob_access_command_file_factory.go, handle_allocating_command_file_factory.go\<close>.
  \<^item> \<^verbatim>\<open>Error_Retrying\<close>: \<^verbatim>\<open>pkg/blobstore/error_retrying_blob_access.go\<close>. Runs of attempts as an inductive
    relation, exponential backoff, termination, and outages that end before the deadline.
  \<^item> \<^verbatim>\<open>Output_Paths, Output_Restore, Output_Roundtrip\<close>: \<^verbatim>\<open>output_path_factory.go\<close> and the in-memory, uploading
    and persistent factories with \<^verbatim>\<open>store.go\<close>. The locale \<open>prepopulated_directory\<close> states what the directory
    tree of an output path promises. Lemmas: restoring ends, gives back what was saved, and leaks no leaves.
  \<^item> \<^verbatim>\<open>Output_Chain\<close>: the chain of factories and stores of \<^verbatim>\<open>main\<close>; the locales \<open>prepopulated_directory\<close> and
    \<open>output_path_factory\<close> are interpreted for it, and the properties of output paths proved.
  \<^item> \<^verbatim>\<open>Output_Service\<close>: the state of \<^verbatim>\<open>bazel_output_service_directory.go\<close>, a circular doubly linked list in a
    heap of addresses with two maps into it, and everything that runs under the lock; the invariant
    \<open>bos_inv\<close>, the abstract service (a list of output paths) and one simulation lemma per operation.
  \<^item> \<^verbatim>\<open>Service_Steps\<close>: the service as a system of interleaved requests: \<open>service_step\<close>, \<open>reachable\<close>, and
    listings read page by page. \<^verbatim>\<open>Service_Refinement\<close>: the locale \<open>forward_simulation\<close>, interpreted on the
    service and the abstract list; no nil pointers; what starting and cleaning do.
  \<^item> \<^verbatim>\<open>Build_Contents\<close>: \<^verbatim>\<open>StartBuild\<close> in full, with the removal of contents the storage has lost.
    \<^verbatim>\<open>Build_Artifacts\<close>: \<^verbatim>\<open>StageArtifacts\<close>, \<^verbatim>\<open>BatchStat\<close> and their path walkers.
  \<^item> \<^verbatim>\<open>Service_Chain\<close>: the service on the chain of \<^verbatim>\<open>main\<close>: which calls of a request reach which factory and
    store, and what a client sees across the two. Lemmas: output paths belong to their output bases in every
    reachable state; a cleaned output base starts empty; what was finalized is what the next process starts with.
  \<^item> \<^verbatim>\<open>Main_Wiring\<close>: the \<^verbatim>\<open>blobs\<close> directories, the root directory and the retrying storage of \<^verbatim>\<open>main\<close>.
    \<^verbatim>\<open>Startup\<close>: \<^verbatim>\<open>main\<close> from its arguments to serving requests, as a sequence of calls that may fail
    (\<open>try_call\<close>), with the factories put together from the constructors of the other theories. Lemmas: predicates
    that all calls before mounting keep; what a daemon that runs has mounted and serves.

  \<^bold>\<open>Bounds.\<close> The service's change ID, from which the cookies of its listing are taken, is a 64-bit
  counter; states are reached in fewer than \<open>2 ^ 64\<close> steps, one of which adds at most one, so it does
  not wrap. The counter of the handles of a \<^verbatim>\<open>blobs\<close> directory is one byte, enough for 42 digest functions.
  State files are smaller than \<open>2 ^ 63\<close> bytes, the range of offsets. One definition uses fuel:
  \<open>restoreDirectoryRecursive\<close> is run with one more than the offset up to which its reader may read. That is
  enough, because every level of directories permits smaller offsets than the one above: \<open>restore_returns\<close>
  in \<^verbatim>\<open>Output_Restore\<close> shows that restoring from such a reader returns.

  \<^bold>\<open>Locking.\<close> A section of a handler that holds the service's lock is one step of \<open>service_step\<close>. Calls
  on output paths between two such sections, and everything else that happens outside the service, are steps of
  their own. Operations that are one definition (\<open>bos_Clean\<close>, \<open>bos_StartBuild\<close>) are the handler run without
  interruption. Objects of the service are never freed in the model, as the garbage collector keeps those that
  requests still refer to.

  \<^bold>\<open>Not modelled.\<close> Generated code (\<^verbatim>\<open>bb_clientd.pb.go\<close>; the fields \<^verbatim>\<open>main\<close> reads of it are the records of
  \<^verbatim>\<open>Startup\<close>) and mocks. What the calls of libraries in \<^verbatim>\<open>main\<close> do: opening connections, the mount, the gRPC
  servers and the constructors of library objects are parameters. Contexts, and with them cancellation, except where
  retrying waits for one. Attributes that library objects fill in. Methods with empty bodies (\<^verbatim>\<open>VirtualClose\<close>,
  \<^verbatim>\<open>Done\<close>). Data races on what the lock does not protect: the build state a running request read before the lock
  was released is a value here, which is what the pointer to a \<^verbatim>\<open>buildState\<close>, never written after its creation, amounts to.
\<close>

end
